(* ===== verification/L2_Prelude.thy ===== *)
theory L2_Prelude
  imports Main "HOL-Library.Word" "HOL-Library.Monad_Syntax" "HOL-Library.Multiset"
begin

unbundle bit_operations_syntax

text \<open>
  The vocabulary every component of the layer-2 development shares.

  A C function that returns is modelled by \<open>Some\<close> of its result and of the objects it changed. The
  value \<open>None\<close> stands for a call that does not return to its caller: \<open>exit(1)\<close>, a failed
  \<open>DevAssert\<close> or \<open>AssertFatal\<close>, an access outside an object (a null pointer, an index outside an
  array, a freed block) or a loop that never ends. A theorem that a call yields \<open>Some\<close> is therefore
  a theorem that none of these happens.

  \<^item> bytes and machine words: \<open>byte\<close>, \<open>u32\<close>, \<open>u64\<close>;
  \<^item> \<open>cmod\<close>, the remainder of C, which truncates towards zero;
  \<^item> \<open>mem_read\<close>, \<open>mem_write\<close>, \<open>mem_slice\<close>, \<open>mem_blit\<close>: checked accesses to an array;
  \<^item> \<open>list_add_before\<close>, the loop with which all the ordered singly linked lists of the layer insert
    an element, and the facts about it;
  \<^item> the locale \<open>sn_order\<close>: what a comparison of sequence numbers relative to a moving base promises.
\<close>

named_theorems cfg_simps \<open>equations that rewrite configuration fields through the operations\<close>
named_theorems mem_simps \<open>equations of checked memory accesses\<close>

type_synonym byte = "8 word"
type_synonym u32 = "32 word"
type_synonym u64 = "64 word"
type_synonym addr = nat

section \<open>C arithmetic and checked accesses\<close>

definition cmod :: "int \<Rightarrow> int \<Rightarrow> int" where
  "cmod a b = sgn a * (\<bar>a\<bar> mod \<bar>b\<bar>)"

lemma cmod_nonneg [simp]: "0 \<le> a \<Longrightarrow> 0 < b \<Longrightarrow> cmod a b = a mod b"
  by (cases "a = 0") (auto simp: cmod_def sgn_if)

definition mem_read :: "'a list \<Rightarrow> int \<Rightarrow> 'a option" where
  "mem_read buf i = (if 0 \<le> i \<and> i < int (length buf) then Some (buf ! nat i) else None)"

definition mem_write :: "'a list \<Rightarrow> int \<Rightarrow> 'a \<Rightarrow> 'a list option" where
  "mem_write buf i v = (if 0 \<le> i \<and> i < int (length buf) then Some (buf[nat i := v]) else None)"

definition mem_slice :: "'a list \<Rightarrow> int \<Rightarrow> int \<Rightarrow> 'a list option" where
  "mem_slice buf off n =
     (if 0 \<le> off \<and> 0 \<le> n \<and> off + n \<le> int (length buf)
      then Some (take (nat n) (drop (nat off) buf)) else None)"

definition mem_blit :: "'a list \<Rightarrow> int \<Rightarrow> 'a list \<Rightarrow> 'a list option" where
  "mem_blit dst off src =
     (if 0 \<le> off \<and> off + int (length src) \<le> int (length dst)
      then Some (take (nat off) dst @ src @ drop (nat off + length src) dst) else None)"

definition check :: "bool \<Rightarrow> unit option" where
  "check b = (if b then Some () else None)"

lemma check_simps [simp]: "check True = Some ()" "check False = None"
  by (simp_all add: check_def)

lemma check_eq_Some [simp]: "check b = Some u \<longleftrightarrow> b"
  by (simp add: check_def)

lemma mem_read_in [mem_simps]:
  "0 \<le> i \<Longrightarrow> i < int (length buf) \<Longrightarrow> mem_read buf i = Some (buf ! nat i)"
  by (simp add: mem_read_def)

lemma mem_write_in [mem_simps]:
  "0 \<le> i \<Longrightarrow> i < int (length buf) \<Longrightarrow> mem_write buf i v = Some (buf[nat i := v])"
  by (simp add: mem_write_def)

lemma mem_slice_in [mem_simps]:
  "0 \<le> off \<Longrightarrow> 0 \<le> n \<Longrightarrow> off + n \<le> int (length buf) \<Longrightarrow>
   mem_slice buf off n = Some (take (nat n) (drop (nat off) buf))"
  by (simp add: mem_slice_def)

lemma mem_blit_in [mem_simps]:
  "0 \<le> off \<Longrightarrow> off + int (length src) \<le> int (length dst) \<Longrightarrow>
   mem_blit dst off src = Some (take (nat off) dst @ src @ drop (nat off + length src) dst)"
  by (simp add: mem_blit_def)

lemma mem_blit_length: "mem_blit dst off src = Some dst' \<Longrightarrow> length dst' = length dst"
  by (auto simp: mem_blit_def split: if_splits)

lemma mem_slice_length: "mem_slice buf off n = Some xs \<Longrightarrow> length xs = nat n"
  by (auto simp: mem_slice_def split: if_splits)

lemma mem_write_length: "mem_write buf i v = Some buf' \<Longrightarrow> length buf' = length buf"
  by (auto simp: mem_write_def split: if_splits)

lemma bind_Some_iff: "Option.bind m f = Some y \<longleftrightarrow> (\<exists>x. m = Some x \<and> f x = Some y)"
  by (cases m) auto

section \<open>Insertion into an ordered linked list\<close>

text \<open>
  Every ordered list of the layer is filled by the same loop: walk with \<open>cur\<close> until an element
  that the new one has to precede, and link the new element before it.
\<close>

fun list_add_before :: "('a \<Rightarrow> bool) \<Rightarrow> 'a \<Rightarrow> 'a list \<Rightarrow> 'a list" where
  "list_add_before p x [] = [x]"
| "list_add_before p x (cur # l) =
     (if p cur then x # cur # l else cur # list_add_before p x l)"

lemma set_list_add_before [simp]: "set (list_add_before p x xs) = insert x (set xs)"
  by (induction xs) auto

lemma mset_list_add_before [simp]: "mset (list_add_before p x xs) = add_mset x (mset xs)"
  by (induction xs) auto

lemma list_add_before_not_Nil [simp]: "list_add_before p x xs \<noteq> []"
  by (cases xs) auto

lemma length_list_add_before [simp]: "length (list_add_before p x xs) = Suc (length xs)"
  by (induction xs) auto

lemma list_add_before_append:
  "\<forall>c \<in> set xs. \<not> p c \<Longrightarrow> list_add_before p x xs = xs @ [x]"
  by (induction xs) auto

lemma last_list_add_before:
  "\<exists>c \<in> set xs. p c \<Longrightarrow> last (list_add_before p x xs) = last xs"
  by (induction xs) auto

lemma sorted_list_add_before:
  assumes "sorted_wrt le xs"
    and "\<And>c. c \<in> set xs \<Longrightarrow> p c \<Longrightarrow> le x c"
    and "\<And>c. c \<in> set xs \<Longrightarrow> \<not> p c \<Longrightarrow> le c x"
    and "\<And>c d. c \<in> set xs \<Longrightarrow> d \<in> set xs \<Longrightarrow> le x c \<Longrightarrow> le c d \<Longrightarrow> le x d"
  shows "sorted_wrt le (list_add_before p x xs)"
  using assms
proof (induction xs)
  case Nil
  then show ?case by simp
next
  case (Cons c xs)
  show ?case
  proof (cases "p c")
    case True
    with Cons.prems have "le x c" by simp
    moreover have "le x d" if "d \<in> set xs" for d
      using Cons.prems(1) Cons.prems(4) [of c d] that \<open>le x c\<close> by simp
    ultimately show ?thesis using True Cons.prems(1) by simp
  next
    case False
    have "sorted_wrt le (list_add_before p x xs)"
    proof (rule Cons.IH)
      show "sorted_wrt le xs" using Cons.prems(1) by simp
      show "le x c'" if "c' \<in> set xs" "p c'" for c'
        using Cons.prems(2) that by simp
      show "le c' x" if "c' \<in> set xs" "\<not> p c'" for c'
        using Cons.prems(3) that by simp
      show "le x d'" if "c' \<in> set xs" "d' \<in> set xs" "le x c'" "le c' d'" for c' d'
        using Cons.prems(4) [of c' d'] that by simp
    qed
    moreover have "le c x" using Cons.prems(3) False by simp
    ultimately show ?thesis using False Cons.prems(1) by auto
  qed
qed

section \<open>Sequence numbers on a circle\<close>

text \<open>
  \<open>circ_dist M b a\<close> is how far \<open>a\<close> lies after the base \<open>b\<close> on a circle of \<open>M\<close> sequence numbers.
\<close>

definition circ_dist :: "int \<Rightarrow> int \<Rightarrow> int \<Rightarrow> int" where
  "circ_dist M b a = (a - b) mod M"

lemma circ_dist_bounds: "0 < M \<Longrightarrow> 0 \<le> circ_dist M b a \<and> circ_dist M b a < M"
  by (simp add: circ_dist_def)

lemma circ_dist_wrap:
  assumes "0 \<le> a" "a < M" "0 \<le> b" "b < M"
  shows "circ_dist M b a = (if a - b < 0 then a - b + M else a - b)"
proof (cases "a - b < 0")
  case True
  have "(a - b) mod M = (a - b + M) mod M" by simp
  also have "\<dots> = a - b + M" using True assms by (intro mod_pos_pos_trivial) auto
  finally show ?thesis using True by (simp add: circ_dist_def)
next
  case False
  then show ?thesis using assms by (simp add: circ_dist_def)
qed

lemma circ_dist_base [simp]: "circ_dist M b b = 0"
  by (simp add: circ_dist_def)

lemma circ_dist_inj:
  assumes "0 \<le> a" "a < M" "0 \<le> a'" "a' < M" "0 \<le> b" "b < M" "circ_dist M b a = circ_dist M b a'"
  shows "a = a'"
proof -
  have "(a - b) mod M = (a' - b) mod M" using assms(7) by (simp add: circ_dist_def)
  then have "(a - b + b) mod M = (a' - b + b) mod M" by (rule mod_add_cong) simp
  then show ?thesis using assms by simp
qed

lemma circ_dist_add:
  assumes "0 < M"
  shows "circ_dist M b ((a + k) mod M) = (circ_dist M b a + k) mod M"
  by (simp add: circ_dist_def mod_simps algebra_simps)

lemma circ_dist_add_small:
  assumes "0 < M" "0 \<le> k" "circ_dist M b a + k < M"
  shows "circ_dist M b ((a + k) mod M) = circ_dist M b a + k"
  using assms circ_dist_bounds [of M b a] by (simp add: circ_dist_add)

text \<open>
  What the code relies on where it compares sequence numbers: the comparison is the difference of
  the distances from a base that the entity keeps. The state is well-formed (\<open>wf\<close>) when the base
  is itself a sequence number.
\<close>

locale sn_order =
  fixes wf :: "'e \<Rightarrow> bool"
    and modulus :: "'e \<Rightarrow> int"
    and base :: "'e \<Rightarrow> int"
    and cmp :: "'e \<Rightarrow> int \<Rightarrow> int \<Rightarrow> int"
  assumes modulus_pos: "wf e \<Longrightarrow> 0 < modulus e"
    and base_range: "wf e \<Longrightarrow> 0 \<le> base e \<and> base e < modulus e"
    and cmp_dist: "wf e \<Longrightarrow> 0 \<le> a \<Longrightarrow> a < modulus e \<Longrightarrow> 0 \<le> b \<Longrightarrow> b < modulus e \<Longrightarrow>
       cmp e a b = circ_dist (modulus e) (base e) a - circ_dist (modulus e) (base e) b"
begin

definition sn_ok :: "'e \<Rightarrow> int \<Rightarrow> bool" where
  "sn_ok e a \<longleftrightarrow> 0 \<le> a \<and> a < modulus e"

lemma cmp_zero_iff: "wf e \<Longrightarrow> sn_ok e a \<Longrightarrow> sn_ok e b \<Longrightarrow> cmp e a b = 0 \<longleftrightarrow> a = b"
  using base_range [of e] circ_dist_inj [of a "modulus e" b "base e"]
  by (auto simp: cmp_dist sn_ok_def)

lemma cmp_trans_le:
  "wf e \<Longrightarrow> sn_ok e a \<Longrightarrow> sn_ok e b \<Longrightarrow> sn_ok e c \<Longrightarrow> cmp e a b \<le> 0 \<Longrightarrow> cmp e b c \<le> 0 \<Longrightarrow> cmp e a c \<le> 0"
  by (simp add: cmp_dist sn_ok_def)

lemma cmp_trans_less_le:
  "wf e \<Longrightarrow> sn_ok e a \<Longrightarrow> sn_ok e b \<Longrightarrow> sn_ok e c \<Longrightarrow> cmp e a b < 0 \<Longrightarrow> cmp e b c \<le> 0 \<Longrightarrow> cmp e a c < 0"
  by (simp add: cmp_dist sn_ok_def)

lemma cmp_swap: "wf e \<Longrightarrow> sn_ok e a \<Longrightarrow> sn_ok e b \<Longrightarrow> cmp e b a = - cmp e a b"
  by (simp add: cmp_dist sn_ok_def)

lemma cmp_base_le: "wf e \<Longrightarrow> sn_ok e a \<Longrightarrow> cmp e (base e) a \<le> 0"
  using base_range [of e] modulus_pos [of e] circ_dist_bounds [of "modulus e" "base e" a]
  by (simp add: cmp_dist sn_ok_def)

end

section \<open>Sums over lists\<close>

lemma sum_list_insert_before [simp]:
  "(\<Sum>x\<leftarrow>list_add_before p y xs. f x) = f y + (\<Sum>x\<leftarrow>xs. f x :: int)"
  by (induction xs) auto

lemma sum_list_list_update:
  "i < length xs \<Longrightarrow> (\<Sum>x\<leftarrow>xs[i := v]. f x) = (\<Sum>x\<leftarrow>xs. f x) - f (xs ! i) + (f v :: int)"
  by (induction xs arbitrary: i) (auto split: nat.splits)

lemma sum_int_first: "c < n \<Longrightarrow> (\<Sum>k = c..<n. f k) = f c + (\<Sum>k = c + 1..<n. f k)" for c n :: int
proof -
  assume "c < n"
  then have "{c..<n} = insert c {c + 1..<n}" by auto
  then show ?thesis by simp
qed

lemma length_filter_list_add_before [simp]:
  "length (filter q (list_add_before p y xs)) = length (filter q xs) + (if q y then 1 else 0)"
  by (induction xs) auto

end
