(* ===== verification/RLC_Pdu.thy ===== *)
theory RLC_Pdu
  imports L2_Prelude
begin

unbundle bit_operations_syntax

text \<open>
  \<open>openair2/LAYER2/nr_rlc/nr_rlc_pdu.c\<close>: the received PDU segments and the bit-level decoder and
  encoder of RLC headers and status PDUs.

  A \<open>nr_rlc_pdu_t\<close> is one received segment; \<open>data = None\<close> is the null pointer that marks a segment
  whose SDU was already delivered. The \<open>next\<close> links are the order of the HOL list a segment is in.
  The decoder and the encoder are records over the buffer they walk; the facts at the end say that
  reading and writing is reading and writing of a bit string, most significant bit first, and that
  what was written is what is read back.
\<close>

section \<open>RX PDU management\<close>

record nr_rlc_pdu_t =
  pdu_sn :: int
  pdu_data :: "byte list option"
  pdu_size :: int
  pdu_so :: int
  pdu_is_first :: bool
  pdu_is_last :: bool

definition nr_rlc_new_pdu :: "int \<Rightarrow> int \<Rightarrow> bool \<Rightarrow> bool \<Rightarrow> byte list \<Rightarrow> int \<Rightarrow> nr_rlc_pdu_t option" where
  "nr_rlc_new_pdu sn so is_first is_last data sz = do {
     copy \<leftarrow> mem_slice data 0 sz;
     Some \<lparr>pdu_sn = sn, pdu_data = Some copy, pdu_size = sz, pdu_so = so,
       pdu_is_first = is_first, pdu_is_last = is_last\<rparr>
   }"

definition nr_rlc_pdu_list_add ::
  "(int \<Rightarrow> int \<Rightarrow> int) \<Rightarrow> nr_rlc_pdu_t list \<Rightarrow> nr_rlc_pdu_t \<Rightarrow> nr_rlc_pdu_t list" where
  "nr_rlc_pdu_list_add sn_compare l pdu =
     list_add_before (\<lambda>cur. sn_compare (pdu_sn cur) (pdu_sn pdu) > 0 \<or>
       (pdu_sn cur = pdu_sn pdu \<and> pdu_so cur > pdu_so pdu)) pdu l"

section \<open>PDU decoder\<close>

record nr_rlc_pdu_decoder_t =
  dec_error :: bool
  dec_byte :: int
  dec_bit :: int
  dec_buffer :: "byte list"
  dec_size :: int

definition nr_rlc_pdu_decoder_init :: "byte list \<Rightarrow> int \<Rightarrow> nr_rlc_pdu_decoder_t" where
  "nr_rlc_pdu_decoder_init buffer sz =
     \<lparr>dec_error = False, dec_byte = 0, dec_bit = 0, dec_buffer = buffer, dec_size = sz\<rparr>"

definition get_bit :: "nr_rlc_pdu_decoder_t \<Rightarrow> (int \<times> nr_rlc_pdu_decoder_t) option" where
  "get_bit d =
     (if dec_byte d \<ge> dec_size d then Some (0, d\<lparr>dec_error := True\<rparr>)
      else do {
        b \<leftarrow> mem_read (dec_buffer d) (dec_byte d);
        let ret = of_bool (bit b (nat (7 - dec_bit d)));
        let nb = dec_bit d + 1;
        Some (ret, if nb = 8 then d\<lparr>dec_bit := 0, dec_byte := dec_byte d + 1\<rparr> else d\<lparr>dec_bit := nb\<rparr>)
      })"

fun get_bits_loop :: "nat \<Rightarrow> int \<Rightarrow> nr_rlc_pdu_decoder_t \<Rightarrow> (int \<times> nr_rlc_pdu_decoder_t) option" where
  "get_bits_loop 0 ret d = Some (ret, d)"
| "get_bits_loop (Suc i) ret d = do {
     (b, d) \<leftarrow> get_bit d;
     if dec_error d then Some (-1, d) else get_bits_loop i (2 * ret + b) d
   }"

definition nr_rlc_pdu_decoder_get_bits ::
  "nr_rlc_pdu_decoder_t \<Rightarrow> int \<Rightarrow> (int \<times> nr_rlc_pdu_decoder_t) option" where
  "nr_rlc_pdu_decoder_get_bits d cnt = do {
     check (cnt \<le> 31);
     get_bits_loop (nat cnt) 0 d
   }"

text \<open>
  The entities read a field and then check for an error (their macro \<open>R\<close>): on an error the code
  continues at its error label, here \<open>err\<close>, with the value the read returned.
\<close>

definition get_field ::
  "nr_rlc_pdu_decoder_t \<Rightarrow> int \<Rightarrow> (int \<Rightarrow> 'b option) \<Rightarrow> (int \<Rightarrow> nr_rlc_pdu_decoder_t \<Rightarrow> 'b option) \<Rightarrow> 'b option" where
  "get_field d n err k = do {
     (v, d) \<leftarrow> nr_rlc_pdu_decoder_get_bits d n;
     if dec_error d then err v else k v d
   }"

section \<open>PDU encoder\<close>

record nr_rlc_pdu_encoder_t =
  enc_byte :: int
  enc_bit :: int
  enc_buffer :: "byte list"
  enc_size :: int

definition nr_rlc_pdu_encoder_init :: "byte list \<Rightarrow> int \<Rightarrow> nr_rlc_pdu_encoder_t" where
  "nr_rlc_pdu_encoder_init buffer sz =
     \<lparr>enc_byte = 0, enc_bit = 0, enc_buffer = buffer, enc_size = sz\<rparr>"

definition put_bit :: "nr_rlc_pdu_encoder_t \<Rightarrow> bool \<Rightarrow> nr_rlc_pdu_encoder_t option" where
  "put_bit e b = do {
     check (enc_byte e \<noteq> enc_size e);
     old \<leftarrow> mem_read (enc_buffer e) (enc_byte e);
     buf \<leftarrow> mem_write (enc_buffer e) (enc_byte e) (if b then push_bit 1 old OR 1 else push_bit 1 old);
     let nb = enc_bit e + 1;
     Some (if nb = 8 then e\<lparr>enc_buffer := buf, enc_bit := 0, enc_byte := enc_byte e + 1\<rparr>
           else e\<lparr>enc_buffer := buf, enc_bit := nb\<rparr>)
   }"

fun put_bits_loop :: "nat \<Rightarrow> int \<Rightarrow> nr_rlc_pdu_encoder_t \<Rightarrow> nr_rlc_pdu_encoder_t option" where
  "put_bits_loop 0 value e = Some e"
| "put_bits_loop (Suc n) value e = do {
     e \<leftarrow> put_bit e (bit value n);
     put_bits_loop n value e
   }"

definition nr_rlc_pdu_encoder_put_bits ::
  "nr_rlc_pdu_encoder_t \<Rightarrow> int \<Rightarrow> int \<Rightarrow> nr_rlc_pdu_encoder_t option" where
  "nr_rlc_pdu_encoder_put_bits e value cnt = do {
     check (cnt \<le> 31);
     put_bits_loop (nat cnt) value e
   }"

section \<open>The bit strings behind the buffers\<close>

definition byte_bits :: "byte \<Rightarrow> bool list" where
  "byte_bits b = map (\<lambda>k. bit b (7 - k)) [0..<8]"

definition bits_of :: "byte list \<Rightarrow> bool list" where
  "bits_of bs = concat (map byte_bits bs)"

definition bits_val :: "bool list \<Rightarrow> int" where
  "bits_val bs = foldl (\<lambda>a b. 2 * a + of_bool b) 0 bs"

definition int_bits :: "nat \<Rightarrow> int \<Rightarrow> bool list" where
  "int_bits n v = map (\<lambda>k. bit v (n - 1 - k)) [0..<n]"

lemma length_byte_bits [simp]: "length (byte_bits b) = 8"
  by (simp add: byte_bits_def)

lemma length_bits_of [simp]: "length (bits_of bs) = 8 * length bs"
  by (induction bs) (auto simp: bits_of_def)

lemma bits_of_append [simp]: "bits_of (xs @ ys) = bits_of xs @ bits_of ys"
  by (simp add: bits_of_def)

lemma bits_of_Nil [simp]: "bits_of [] = []"
  by (simp add: bits_of_def)

lemma bits_of_Cons [simp]: "bits_of (x # xs) = byte_bits x @ bits_of xs"
  by (simp add: bits_of_def)

lemma length_int_bits [simp]: "length (int_bits n v) = n"
  by (simp add: int_bits_def)

lemma int_bits_Suc: "int_bits (Suc n) v = bit v n # int_bits n v"
  by (rule nth_equalityI) (auto simp: int_bits_def nth_Cons split: nat.split simp del: upt_Suc)

lemma nth_bits_of:
  "i < length bs \<Longrightarrow> j < 8 \<Longrightarrow> bits_of bs ! (8 * i + j) = bit (bs ! i) (7 - j)"
proof (induction bs arbitrary: i)
  case Nil
  then show ?case by simp
next
  case (Cons b bs)
  show ?case
  proof (cases i)
    case 0
    with Cons.prems show ?thesis by (simp add: nth_append byte_bits_def)
  next
    case (Suc i')
    with Cons.prems Cons.IH [of i'] show ?thesis by (simp add: nth_append)
  qed
qed

lemma bits_val_snoc: "bits_val (bs @ [b]) = 2 * bits_val bs + of_bool b"
  by (simp add: bits_val_def)

lemma bits_val_Nil [simp]: "bits_val [] = 0"
  by (simp add: bits_val_def)

lemma bits_val_bounds: "0 \<le> bits_val bs \<and> bits_val bs < 2 ^ length bs"
  by (induction bs rule: rev_induct) (auto simp: bits_val_snoc)

lemma bits_val_foldl: "foldl (\<lambda>a b. 2 * a + of_bool b) x bs = 2 ^ length bs * x + bits_val bs"
  by (induction bs arbitrary: x rule: rev_induct) (auto simp: bits_val_snoc algebra_simps)

lemma bits_val_int_bits: "bits_val (int_bits n v) = v mod 2 ^ n"
proof (induction n)
  case 0
  then show ?case by (simp add: int_bits_def)
next
  case (Suc n)
  have "bits_val (int_bits (Suc n) v) = 2 ^ n * of_bool (bit v n) + v mod 2 ^ n"
    using bits_val_foldl [of "of_bool (bit v n)" "int_bits n v"] Suc
    by (simp add: int_bits_Suc bits_val_def)
  also have "\<dots> = take_bit (Suc n) v"
    using take_bit_Suc_from_most [of n v] by (simp only: take_bit_eq_mod)
  finally show ?case by (simp add: take_bit_eq_mod)
qed


section \<open>Reading is reading a bit string\<close>

text \<open>
  \<open>dec_at buf sz p\<close> is the decoder of a buffer after \<open>p\<close> bits were read without an error.
\<close>

definition dec_at :: "byte list \<Rightarrow> int \<Rightarrow> nat \<Rightarrow> nr_rlc_pdu_decoder_t" where
  "dec_at buf sz p =
     \<lparr>dec_error = False, dec_byte = int (p div 8), dec_bit = int (p mod 8), dec_buffer = buf, dec_size = sz\<rparr>"

lemma decoder_init_at: "nr_rlc_pdu_decoder_init buf sz = dec_at buf sz 0"
  by (simp add: nr_rlc_pdu_decoder_init_def dec_at_def)

lemma dec_at_sel [simp]:
  "\<not> dec_error (dec_at buf sz p)" "dec_byte (dec_at buf sz p) = int (p div 8)"
  by (simp_all add: dec_at_def)

lemma get_bit_in:
  assumes "p < 8 * nat sz" "sz \<le> int (length buf)"
  shows "get_bit (dec_at buf sz p) = Some (of_bool (bits_of buf ! p), dec_at buf sz (Suc p))"
proof -
  have "p div 8 < nat sz" using assms(1) by auto
  then have i: "p div 8 < length buf" "\<not> int (p div 8) \<ge> sz" using assms(2) by linarith+
  have nth: "bits_of buf ! p = bit (buf ! (p div 8)) (7 - p mod 8)"
    using nth_bits_of [OF i(1), of "p mod 8"] by simp
  have sub: "nat (7 - int (p mod 8)) = 7 - p mod 8" by simp
  have nxt: "int (p mod 8) + 1 = 8 \<longleftrightarrow> Suc p mod 8 = 0" by (auto simp: mod_Suc)
  show ?thesis
    using i by (auto simp: get_bit_def dec_at_def mem_simps Let_def nth sub nxt div_Suc mod_Suc split: if_splits)
qed

lemma get_bit_out:
  assumes "8 * nat sz \<le> p" "0 \<le> sz"
  shows "get_bit (dec_at buf sz p) = Some (0, (dec_at buf sz p)\<lparr>dec_error := True\<rparr>)"
proof -
  have "sz \<le> int (p div 8)" using assms by linarith
  then show ?thesis by (simp add: get_bit_def dec_at_def)
qed

lemma get_bits_loop_in:
  assumes "p + n \<le> 8 * nat sz" "sz \<le> int (length buf)"
  shows "get_bits_loop n ret (dec_at buf sz p) =
    Some (2 ^ n * ret + bits_val (take n (drop p (bits_of buf))), dec_at buf sz (p + n))"
  using assms(1)
proof (induction n arbitrary: p ret)
  case 0
  then show ?case by simp
next
  case (Suc n)
  let ?b = "bits_of buf ! p"
  have len: "p < length (bits_of buf)" using Suc.prems assms(2) by simp
  have "take (Suc n) (drop p (bits_of buf)) = ?b # take n (drop (Suc p) (bits_of buf))"
    using len by (simp add: Cons_nth_drop_Suc [symmetric])
  moreover have tl: "length (take n (drop (Suc p) (bits_of buf))) = n"
    using Suc.prems assms(2) by simp
  ultimately have v: "bits_val (take (Suc n) (drop p (bits_of buf))) =
      2 ^ n * of_bool ?b + bits_val (take n (drop (Suc p) (bits_of buf)))"
    using bits_val_foldl [of "of_bool ?b" "take n (drop (Suc p) (bits_of buf))"] tl
    by (simp add: bits_val_def)
  show ?case
    using Suc.IH [of "Suc p" "2 * ret + of_bool ?b"] Suc.prems v
    by (simp add: get_bit_in [OF _ assms(2)] algebra_simps)
qed

lemma get_bits_loop_out:
  assumes "p \<le> 8 * nat sz" "8 * nat sz < p + n" "0 \<le> sz" "sz \<le> int (length buf)"
  shows "\<exists>d'. get_bits_loop n ret (dec_at buf sz p) = Some (-1, d') \<and> dec_error d'"
  using assms(1,2)
proof (induction n arbitrary: p ret)
  case 0
  then show ?case by simp
next
  case (Suc n)
  show ?case
  proof (cases "p < 8 * nat sz")
    case True
    with Suc.IH [of "Suc p"] Suc.prems show ?thesis by (simp add: get_bit_in [OF True assms(4)])
  next
    case False
    with assms(3) show ?thesis by (simp add: get_bit_out)
  qed
qed

lemma get_bits_in:
  assumes "p + n \<le> 8 * nat sz" "sz \<le> int (length buf)" "c = int n" "n \<le> 31"
  shows "nr_rlc_pdu_decoder_get_bits (dec_at buf sz p) c =
    Some (bits_val (take n (drop p (bits_of buf))), dec_at buf sz (p + n))"
  using get_bits_loop_in [OF assms(1,2), of 0] assms(3,4)
  by (simp add: nr_rlc_pdu_decoder_get_bits_def)

lemma get_bits_out:
  assumes "p \<le> 8 * nat sz" "8 * nat sz < p + n" "0 \<le> sz" "sz \<le> int (length buf)" "c = int n" "n \<le> 31"
  shows "\<exists>d'. nr_rlc_pdu_decoder_get_bits (dec_at buf sz p) c = Some (-1, d') \<and> dec_error d'"
  using get_bits_loop_out [OF assms(1-4), of 0] assms(5,6)
  by (simp add: nr_rlc_pdu_decoder_get_bits_def)

lemma get_field_at:
  assumes "p \<le> 8 * nat sz" "0 \<le> sz" "sz \<le> int (length buf)" "c = int n" "n \<le> 31"
  shows "get_field (dec_at buf sz p) c err k =
    (if p + n \<le> 8 * nat sz then k (bits_val (take n (drop p (bits_of buf)))) (dec_at buf sz (p + n)) else err (-1))"
proof (cases "p + n \<le> 8 * nat sz")
  case True
  then show ?thesis using get_bits_in [OF True assms(3-5)] by (simp add: get_field_def)
next
  case False
  then obtain d' where "nr_rlc_pdu_decoder_get_bits (dec_at buf sz p) c = Some (-1, d')" "dec_error d'"
    using get_bits_out [OF assms(1) _ assms(2-5)] by auto
  then show ?thesis using False by (simp add: get_field_def)
qed

lemma bits_val_take: "0 \<le> bits_val (take n bs) \<and> bits_val (take n bs) < 2 ^ n"
proof -
  have "bits_val (take n bs) < 2 ^ length (take n bs)" using bits_val_bounds by blast
  also have "\<dots> \<le> (2 :: int) ^ n" by (rule power_increasing) auto
  finally show ?thesis using bits_val_bounds by blast
qed

text \<open>What holds of both continuations of a read holds of the read.\<close>

lemma get_field_rule:
  assumes "q \<le> 8 * nat sz" "0 \<le> sz" "sz \<le> int (length buf)" "c = int n" "n \<le> 31"
    and "\<And>v. 0 \<le> v \<Longrightarrow> v < 2 ^ n \<Longrightarrow> q + n \<le> 8 * nat sz \<Longrightarrow> P (k v (dec_at buf sz (q + n)))"
    and "P (err (-1))"
  shows "P (get_field (dec_at buf sz q) c err k)"
  using assms(6) [of "bits_val (take n (drop q (bits_of buf)))"] bits_val_take [of n] assms(7)
  by (simp add: get_field_at [OF assms(1-5)])

lemma get_field_read:
  assumes "drop q (bits_of buf) = int_bits n v @ rest" "q + n \<le> 8 * nat sz" "0 \<le> sz" "sz \<le> int (length buf)"
    and "c = int n" "n \<le> 31" "0 \<le> v" "v < 2 ^ n"
  shows "get_field (dec_at buf sz q) c err k = k v (dec_at buf sz (q + n))" "drop (q + n) (bits_of buf) = rest"
proof -
  have "take n (drop q (bits_of buf)) = int_bits n v" using assms(1) by simp
  then show "get_field (dec_at buf sz q) c err k = k v (dec_at buf sz (q + n))"
    using get_field_at [OF _ assms(3-6), of q err k] assms(2,7,8) by (simp add: bits_val_int_bits)
  have "drop n (drop q (bits_of buf)) = rest" using assms(1) by simp
  then show "drop (q + n) (bits_of buf) = rest" by (simp add: add.commute)
qed

section \<open>Writing is appending to a bit string\<close>

text \<open>
  \<open>enc_wrote e w\<close>: the bits \<open>w\<close> are what has been written so far; the byte in progress holds its
  bits at its low end, as \<open>put_bit\<close> shifts them in.
\<close>

definition enc_wrote :: "nr_rlc_pdu_encoder_t \<Rightarrow> bool list \<Rightarrow> bool" where
  "enc_wrote e w \<longleftrightarrow>
     enc_byte e = int (length w div 8) \<and> enc_bit e = int (length w mod 8) \<and>
     length w \<le> 8 * nat (enc_size e) \<and> enc_size e \<le> int (length (enc_buffer e)) \<and>
     w = bits_of (take (length w div 8) (enc_buffer e)) @
         (if length w mod 8 = 0 then []
          else drop (8 - length w mod 8) (byte_bits (enc_buffer e ! (length w div 8))))"

lemma encoder_init_wrote:
  "sz \<le> int (length buf) \<Longrightarrow> enc_wrote (nr_rlc_pdu_encoder_init buf sz) []"
  by (simp add: enc_wrote_def nr_rlc_pdu_encoder_init_def)

lemma byte_bits_shift_in:
  "byte_bits (if b then push_bit 1 old OR 1 else push_bit 1 old) = drop 1 (byte_bits old) @ [b]"
proof -
  have shl: "bit (push_bit 1 old) k \<longleftrightarrow> 1 \<le> k \<and> k < 8 \<and> bit old (k - 1)" for k
    by (simp only: bit_push_bit_iff) simp
  have one: "bit (1 :: byte) k \<longleftrightarrow> k = 0" for k
    by (simp add: bit_1_iff)
  have "bit (if b then push_bit 1 old OR 1 else push_bit 1 old) k = (if k = 0 then b else bit old (k - 1))"
    if "k < 8" for k
    using that by (cases b; cases "k = 0"; simp only: shl one bit_or_iff if_True if_False; simp)
  then have "byte_bits (if b then push_bit 1 old OR 1 else push_bit 1 old) ! i =
      (drop 1 (byte_bits old) @ [b]) ! i" if "i < 8" for i
    using that by (auto simp: byte_bits_def nth_append)
  then show ?thesis by (auto intro!: nth_equalityI)
qed

lemma put_bit_wrote:
  assumes "enc_wrote e w" "length w < 8 * nat (enc_size e)"
  shows "\<exists>e'. put_bit e b = Some e' \<and> enc_wrote e' (w @ [b]) \<and> enc_size e' = enc_size e \<and>
    length (enc_buffer e') = length (enc_buffer e)"
proof -
  let ?n = "length w" and ?buf = "enc_buffer e"
  define i where "i = ?n div 8"
  define k where "k = ?n mod 8"
  have st: "enc_byte e = int i" "enc_bit e = int k" "enc_size e \<le> int (length ?buf)"
    using assms(1) by (auto simp: enc_wrote_def i_def k_def)
  have sz: "i < nat (enc_size e)" using assms(2) by (auto simp: i_def)
  then have i: "int i \<noteq> enc_size e" "i < length ?buf" using st(3) by linarith+
  define v where "v = (if b then push_bit 1 (?buf ! i) OR 1 else push_bit 1 (?buf ! i))"
  let ?new = "?buf[i := v]"
  have vb: "byte_bits v = drop 1 (byte_bits (?buf ! i)) @ [b]" unfolding v_def by (rule byte_bits_shift_in)
  let ?e = "if k = 7 then e\<lparr>enc_buffer := ?new, enc_bit := 0, enc_byte := int i + 1\<rparr>
            else e\<lparr>enc_buffer := ?new, enc_bit := int k + 1\<rparr>"
  have put: "put_bit e b = Some ?e"
    using i by (auto simp: put_bit_def st mem_simps Let_def v_def)
  have w: "w = bits_of (take i ?buf) @ (if k = 0 then [] else drop (8 - k) (byte_bits (?buf ! i)))"
    using assms(1) unfolding enc_wrote_def i_def k_def by blast
  have k8: "k < 8" "Suc (7 - k) = 8 - k" by (simp_all add: k_def Suc_diff_le [symmetric])
  have wb: "w @ [b] = bits_of (take i ?new) @ drop (7 - k) (byte_bits v)"
  proof -
    have "drop (7 - k) (byte_bits v) = drop (8 - k) (byte_bits (?buf ! i)) @ [b]"
      by (simp only: vb) (simp add: k8)
    then show ?thesis using k8 by (subst w) (cases "k = 0"; simp)
  qed
  have "enc_wrote ?e (w @ [b])"
  proof (cases "k = 7")
    case True
    then have L: "length (w @ [b]) div 8 = Suc i" "length (w @ [b]) mod 8 = 0"
      by (auto simp: div_Suc mod_Suc i_def k_def)
    have "bits_of (take (Suc i) ?new) = bits_of (take i ?new) @ byte_bits v"
      using i by (simp add: take_Suc_conv_app_nth)
    then show ?thesis
      unfolding enc_wrote_def L using True wb sz i st by auto
  next
    case False
    then have L: "length (w @ [b]) div 8 = i" "length (w @ [b]) mod 8 = Suc k"
      using k8 by (auto simp: div_Suc mod_Suc i_def k_def)
    show ?thesis
      unfolding enc_wrote_def L using False wb sz k8 i st by auto
  qed
  then show ?thesis using put by auto
qed

lemma put_bits_loop_wrote:
  assumes "enc_wrote e w" "length w + n \<le> 8 * nat (enc_size e)"
  shows "\<exists>e'. put_bits_loop n v e = Some e' \<and> enc_wrote e' (w @ int_bits n v) \<and>
    enc_size e' = enc_size e \<and> length (enc_buffer e') = length (enc_buffer e)"
  using assms
proof (induction n arbitrary: e w)
  case 0
  then show ?case by (simp add: int_bits_def)
next
  case (Suc n)
  from put_bit_wrote [of e w "bit v n"] Suc.prems obtain e1 where e1:
    "put_bit e (bit v n) = Some e1" "enc_wrote e1 (w @ [bit v n])" "enc_size e1 = enc_size e"
    "length (enc_buffer e1) = length (enc_buffer e)" by auto
  from Suc.IH [OF e1(2)] e1(3) Suc.prems(2) obtain e2 where
    "put_bits_loop n v e1 = Some e2" "enc_wrote e2 ((w @ [bit v n]) @ int_bits n v)"
    "enc_size e2 = enc_size e" "length (enc_buffer e2) = length (enc_buffer e1)" by auto
  then show ?case using e1 by (simp add: int_bits_Suc)
qed

lemma put_bits_wrote:
  assumes "enc_wrote e w" "length w + n \<le> 8 * nat (enc_size e)" "c = int n" "n \<le> 31"
  shows "\<exists>e'. nr_rlc_pdu_encoder_put_bits e v c = Some e' \<and> enc_wrote e' (w @ int_bits n v) \<and>
    enc_size e' = enc_size e \<and> length (enc_buffer e') = length (enc_buffer e)"
  using put_bits_loop_wrote [OF assms(1,2), of v] assms(3,4)
  by (simp add: nr_rlc_pdu_encoder_put_bits_def)

lemma enc_wrote_aligned:
  assumes "enc_wrote e w" "length w = 8 * k"
  shows "enc_byte e = int k" "bits_of (take k (enc_buffer e)) = w" "k \<le> length (enc_buffer e)"
  using assms by (auto simp: enc_wrote_def)


lemma byte_bits_inj: "byte_bits x = byte_bits y \<Longrightarrow> x = y"
proof (rule bit_eqI)
  fix n
  assume eq: "byte_bits x = byte_bits y" and "possible_bit TYPE(byte) n"
  then have n: "n < 8" by (simp add: possible_bit_word)
  have "byte_bits x ! (7 - n) = byte_bits y ! (7 - n)" using eq by simp
  moreover have "[0..<8] ! (7 - n) = 7 - n" by (subst nth_upt) auto
  ultimately show "bit x n \<longleftrightarrow> bit y n" using n by (simp add: byte_bits_def)
qed

lemma bits_of_inj: "bits_of xs = bits_of ys \<Longrightarrow> xs = ys"
proof (induction xs arbitrary: ys)
  case Nil
  then show ?case by (cases ys) (auto simp: byte_bits_def)
next
  case (Cons x xs)
  have "length (bits_of (x # xs)) = length (bits_of ys)" using Cons.prems by simp
  then obtain y ys' where ys: "ys = y # ys'" by (cases ys) auto
  with Cons.prems have "byte_bits x = byte_bits y" "bits_of xs = bits_of ys'" by auto
  with Cons.IH ys show ?case by (auto dest: byte_bits_inj)
qed

section \<open>Sequences of fields\<close>

text \<open>
  A header or a status PDU is written and read as a sequence of fields, given by their widths and
  values: \<open>put_fields\<close> and \<open>get_fields\<close> are such sequences of calls.
\<close>

fun put_fields :: "nr_rlc_pdu_encoder_t \<Rightarrow> (nat \<times> int) list \<Rightarrow> nr_rlc_pdu_encoder_t option" where
  "put_fields e [] = Some e"
| "put_fields e ((n, v) # fs) = do {
     e \<leftarrow> nr_rlc_pdu_encoder_put_bits e v (int n);
     put_fields e fs
   }"

fun get_fields :: "nr_rlc_pdu_decoder_t \<Rightarrow> nat list \<Rightarrow> (int list \<times> nr_rlc_pdu_decoder_t) option" where
  "get_fields d [] = Some ([], d)"
| "get_fields d (n # ns) = do {
     (v, d) \<leftarrow> nr_rlc_pdu_decoder_get_bits d (int n);
     (vs, d) \<leftarrow> get_fields d ns;
     Some (v # vs, d)
   }"

definition fields_width :: "(nat \<times> int) list \<Rightarrow> nat" where
  "fields_width fs = sum_list (map fst fs)"

definition fields_bits :: "(nat \<times> int) list \<Rightarrow> bool list" where
  "fields_bits fs = concat (map (\<lambda>(n, v). int_bits n v) fs)"

lemma fields_simps [simp]:
  "fields_width [] = 0" "fields_width ((n, v) # fs) = n + fields_width fs"
  "fields_width (fs @ gs) = fields_width fs + fields_width gs"
  "fields_bits [] = []" "fields_bits ((n, v) # fs) = int_bits n v @ fields_bits fs"
  "fields_bits (fs @ gs) = fields_bits fs @ fields_bits gs"
  by (simp_all add: fields_width_def fields_bits_def)

lemma length_fields_bits [simp]: "length (fields_bits fs) = fields_width fs"
  by (induction fs) auto

lemma put_fields_append:
  "put_fields e (fs @ gs) = Option.bind (put_fields e fs) (\<lambda>e. put_fields e gs)"
  by (induction fs arbitrary: e) (auto intro: Option.bind_cong)

lemma put_fields_wrote:
  assumes "enc_wrote e w" "\<forall>(n, v) \<in> set fs. n \<le> 31" "length w + fields_width fs \<le> 8 * nat (enc_size e)"
  shows "\<exists>e'. put_fields e fs = Some e' \<and> enc_wrote e' (w @ fields_bits fs) \<and>
    enc_size e' = enc_size e \<and> length (enc_buffer e') = length (enc_buffer e)"
  using assms
proof (induction fs arbitrary: e w)
  case Nil
  then show ?case by simp
next
  case (Cons f fs)
  obtain n v where f: "f = (n, v)" by (cases f)
  from put_bits_wrote [OF Cons.prems(1), of n "int n" v] Cons.prems f obtain e1 where e1:
    "nr_rlc_pdu_encoder_put_bits e v (int n) = Some e1" "enc_wrote e1 (w @ int_bits n v)"
    "enc_size e1 = enc_size e" "length (enc_buffer e1) = length (enc_buffer e)" by auto
  from Cons.IH [OF e1(2)] Cons.prems f e1(3,4) obtain e2 where
    "put_fields e1 fs = Some e2" "enc_wrote e2 ((w @ int_bits n v) @ fields_bits fs)"
    "enc_size e2 = enc_size e" "length (enc_buffer e2) = length (enc_buffer e)" by auto
  then show ?case using e1 f by simp
qed

lemma get_fields_read:
  assumes "drop p (bits_of buf) = fields_bits fs @ rest" "\<forall>(n, v) \<in> set fs. n \<le> 31"
    and "p + fields_width fs \<le> 8 * nat sz" "sz \<le> int (length buf)"
  shows "get_fields (dec_at buf sz p) (map fst fs) =
    Some (map (\<lambda>(n, v). v mod 2 ^ n) fs, dec_at buf sz (p + fields_width fs))"
  using assms(1-3)
proof (induction fs arbitrary: p)
  case Nil
  then show ?case by simp
next
  case (Cons f fs)
  obtain n v where f: "f = (n, v)" by (cases f)
  have "take n (drop p (bits_of buf)) = int_bits n v" using Cons.prems(1) f by simp
  then have rd: "nr_rlc_pdu_decoder_get_bits (dec_at buf sz p) (int n) = Some (v mod 2 ^ n, dec_at buf sz (p + n))"
    using get_bits_in [of p n sz buf "int n"] Cons.prems f assms(4) by (simp add: bits_val_int_bits)
  have "drop (p + n) (bits_of buf) = drop n (drop p (bits_of buf))" by (simp add: add.commute)
  also have "\<dots> = fields_bits fs @ rest" using Cons.prems(1) f by simp
  finally show ?case
    using Cons.IH [of "p + n"] Cons.prems f rd by (simp add: add.assoc)
qed

text \<open>
  C8. A sequence of fields of at most 31 bits each, whole bytes in total, that fits in the buffer is
  written without a failure, moves the encoder to the byte after them, and leaves bytes from which
  a decoder reads back every field, reduced to its width, without an error.
\<close>

theorem fields_roundtrip:
  assumes "\<forall>(n, v) \<in> set fs. n \<le> 31" "fields_width fs = 8 * k"
    and "int k \<le> sz" "sz \<le> int (length buf)"
  shows "\<exists>e. put_fields (nr_rlc_pdu_encoder_init buf sz) fs = Some e \<and> enc_byte e = int k \<and>
    get_fields (nr_rlc_pdu_decoder_init (enc_buffer e) sz) (map fst fs) =
      Some (map (\<lambda>(n, v). v mod 2 ^ n) fs, dec_at (enc_buffer e) sz (8 * k))"
proof -
  have "enc_wrote (nr_rlc_pdu_encoder_init buf sz) []"
    using encoder_init_wrote assms(3,4) by simp
  moreover have "k \<le> nat sz" using assms(3) by simp
  ultimately obtain e where e: "put_fields (nr_rlc_pdu_encoder_init buf sz) fs = Some e"
    "enc_wrote e (fields_bits fs)" "length (enc_buffer e) = length buf"
    using put_fields_wrote [of "nr_rlc_pdu_encoder_init buf sz" "[]" fs] assms
    by (auto simp: nr_rlc_pdu_encoder_init_def)
  note al = enc_wrote_aligned [OF e(2), of k]
  have "bits_of (enc_buffer e) = bits_of (take k (enc_buffer e)) @ bits_of (drop k (enc_buffer e))"
    by (simp flip: bits_of_append)
  then have "drop 0 (bits_of (enc_buffer e)) = fields_bits fs @ bits_of (drop k (enc_buffer e))"
    using al(2) assms(2) by simp
  from get_fields_read [OF this assms(1)] assms(2-4) e(3) show ?thesis
    using e(1) al(1) by (auto simp: decoder_init_at)
qed

theorem fields_roundtrip_witness:
  "\<exists>e. put_fields (nr_rlc_pdu_encoder_init [7, 7, 7] 3) [(1, 1), (1, 0), (2, 3), (12, 2748)] = Some e \<and>
     enc_byte e = 2 \<and>
     get_fields (nr_rlc_pdu_decoder_init (enc_buffer e) 3) [1, 1, 2, 12] =
       Some ([1, 0, 3, 2748], dec_at (enc_buffer e) 3 16)"
  using fields_roundtrip [of "[(1, 1), (1, 0), (2, 3), (12, 2748)]" 2 3 "[7, 7, 7]"] by simp

end
