(* ===== verification/RLC_Sdu.thy ===== *)
theory RLC_Sdu
  imports L2_Prelude
begin

text \<open>
  \<open>openair2/LAYER2/nr_rlc/nr_rlc_sdu.c\<close>: the SDUs waiting for transmission and their segments.

  The segments of one SDU point at one shared object, whose sequence number, retransmission counter
  and reference counts are changed through any of them. The objects are kept in an explicit store,
  \<open>heap_sdus\<close>, from addresses to SDUs; a segment is a value that names its SDU by address
  (\<open>seg_sdu\<close>) and carries its own address (\<open>seg_addr\<close>), which is what a comparison of segment
  pointers compares. The \<open>next\<close> links are the order of the HOL list a segment is in; the pointer
  to the last element that the code keeps beside a list is explicit.

  \<open>heap_ok h M\<close> says that the store is exactly what the segments \<open>M\<close> of an entity need: every
  segment's SDU is there, every SDU is used by some segment, and the references not yet freed are
  the segments that exist. Every operation here keeps it, which is why no operation of the entities
  touches an SDU that was freed and none is freed twice or leaked.
\<close>

section \<open>Data and operations\<close>

record nr_rlc_sdu_t =
  sdu_sn :: int
  sdu_upper_layer_id :: int
  sdu_data :: "byte list"
  sdu_size :: int
  sdu_retx_count :: int
  sdu_ref_count :: int
  sdu_free_count :: int
  sdu_time_of_arrival :: u64

record nr_rlc_sdu_segment_t =
  seg_addr :: addr
  seg_sdu :: addr
  seg_size :: int
  seg_so :: int
  seg_is_first :: bool
  seg_is_last :: bool

record sdu_heap =
  heap_sdus :: "addr \<Rightarrow> nr_rlc_sdu_t option"
  heap_next :: addr

type_synonym seg = nr_rlc_sdu_segment_t

definition heap_empty :: sdu_heap where
  "heap_empty = \<lparr>heap_sdus = Map.empty, heap_next = 0\<rparr>"

definition heap_put :: "sdu_heap \<Rightarrow> addr \<Rightarrow> nr_rlc_sdu_t \<Rightarrow> sdu_heap" where
  "heap_put h a s = h\<lparr>heap_sdus := (heap_sdus h)(a \<mapsto> s)\<rparr>"

definition nr_rlc_new_sdu :: "sdu_heap \<Rightarrow> byte list \<Rightarrow> int \<Rightarrow> int \<Rightarrow> (seg \<times> sdu_heap) option" where
  "nr_rlc_new_sdu h buffer sz upper_layer_id = do {
     data \<leftarrow> mem_slice buffer 0 sz;
     let a = heap_next h;
     let sdu = \<lparr>sdu_sn = -1, sdu_upper_layer_id = upper_layer_id, sdu_data = data, sdu_size = sz,
       sdu_retx_count = -1, sdu_ref_count = 1, sdu_free_count = 0, sdu_time_of_arrival = 0\<rparr>;
     let ret = \<lparr>seg_addr = a + 1, seg_sdu = a, seg_size = sz, seg_so = 0,
       seg_is_first = True, seg_is_last = True\<rparr>;
     Some (ret, (heap_put h a sdu)\<lparr>heap_next := a + 2\<rparr>)
   }"

definition nr_rlc_free_sdu_segment :: "sdu_heap \<Rightarrow> seg \<Rightarrow> (bool \<times> sdu_heap) option" where
  "nr_rlc_free_sdu_segment h s = do {
     sdu \<leftarrow> heap_sdus h (seg_sdu s);
     let sdu = sdu\<lparr>sdu_free_count := sdu_free_count sdu + 1\<rparr>;
     if sdu_free_count sdu = sdu_ref_count sdu
     then Some (True, h\<lparr>heap_sdus := (heap_sdus h)(seg_sdu s := None)\<rparr>)
     else Some (False, heap_put h (seg_sdu s) sdu)
   }"

definition nr_rlc_sdu_segment_list_append ::
  "seg list \<Rightarrow> seg option \<Rightarrow> seg \<Rightarrow> (seg list \<times> seg option) option" where
  "nr_rlc_sdu_segment_list_append l e s =
     (if l = [] then Some ([s], Some s)
      else do {
        e \<leftarrow> e;
        Some (if seg_addr e \<in> seg_addr ` set l
              then takeWhile (\<lambda>x. seg_addr x \<noteq> seg_addr e) l @ [e, s] else l, Some s)
      })"

fun nr_rlc_free_sdu_segment_list :: "sdu_heap \<Rightarrow> seg list \<Rightarrow> sdu_heap option" where
  "nr_rlc_free_sdu_segment_list h [] = Some h"
| "nr_rlc_free_sdu_segment_list h (cur # l) = do {
     (freed, h) \<leftarrow> nr_rlc_free_sdu_segment h cur;
     nr_rlc_free_sdu_segment_list h l
   }"

section \<open>The pointer to the last element\<close>

definition list_end :: "seg list \<Rightarrow> seg option \<Rightarrow> bool" where
  "list_end l e \<longleftrightarrow> e = (if l = [] then None else Some (last l))"

lemma list_end_Nil [simp]: "list_end [] e \<longleftrightarrow> e = None"
  by (simp add: list_end_def)

lemma list_end_snoc [simp]: "list_end (l @ [s]) e \<longleftrightarrow> e = Some s"
  by (simp add: list_end_def)

lemma takeWhile_last_addr:
  "distinct (map seg_addr l) \<Longrightarrow> l \<noteq> [] \<Longrightarrow>
   takeWhile (\<lambda>x. seg_addr x \<noteq> seg_addr (last l)) l = butlast l"
proof (induction l rule: rev_induct)
  case Nil
  then show ?case by simp
next
  case (snoc x xs)
  have "\<forall>y \<in> set xs. seg_addr y \<noteq> seg_addr x" using snoc.prems(1) by (auto simp: rev_image_eqI)
  then show ?case by (simp add: takeWhile_append2)
qed

lemma segment_list_append:
  assumes "list_end l e" "distinct (map seg_addr l)"
  shows "nr_rlc_sdu_segment_list_append l e s = Some (l @ [s], Some s)"
proof (cases "l = []")
  case True
  then show ?thesis by (simp add: nr_rlc_sdu_segment_list_append_def)
next
  case False
  then show ?thesis
    using assms by (auto simp: nr_rlc_sdu_segment_list_append_def list_end_def takeWhile_last_addr)
qed

section \<open>Reference counting\<close>

definition refs :: "addr \<Rightarrow> seg multiset \<Rightarrow> nat" where
  "refs a M = size {#s \<in># M. seg_sdu s = a#}"

definition addr_uses :: "addr \<Rightarrow> seg multiset \<Rightarrow> nat" where
  "addr_uses a M = size {#s \<in># M. seg_addr s = a#}"

definition heap_ok :: "sdu_heap \<Rightarrow> seg multiset \<Rightarrow> bool" where
  "heap_ok h M \<longleftrightarrow>
     finite (dom (heap_sdus h)) \<and>
     (\<forall>a \<in> dom (heap_sdus h). a < heap_next h) \<and>
     (\<forall>s \<in># M. seg_sdu s \<in> dom (heap_sdus h) \<and> seg_addr s < heap_next h) \<and>
     (\<forall>a. addr_uses a M \<le> 1) \<and>
     (\<forall>a sdu. heap_sdus h a = Some sdu \<longrightarrow>
        sdu_ref_count sdu - sdu_free_count sdu = int (refs a M) \<and> 0 < refs a M)"

definition heap_bytes :: "sdu_heap \<Rightarrow> int" where
  "heap_bytes h = (\<Sum>a \<in> dom (heap_sdus h). sdu_size (the (heap_sdus h a)))"

lemma heap_okI:
  assumes "finite (dom (heap_sdus h))"
    and "\<And>a sdu. heap_sdus h a = Some sdu \<Longrightarrow> a < heap_next h"
    and "\<And>s. s \<in># M \<Longrightarrow> heap_sdus h (seg_sdu s) \<noteq> None \<and> seg_addr s < heap_next h"
    and "\<And>a. addr_uses a M \<le> 1"
    and "\<And>a sdu. heap_sdus h a = Some sdu \<Longrightarrow>
      sdu_ref_count sdu - sdu_free_count sdu = int (refs a M) \<and> 0 < refs a M"
  shows "heap_ok h M"
  using assms unfolding heap_ok_def by auto

lemma heap_okD:
  assumes "heap_ok h M"
  shows "finite (dom (heap_sdus h))"
    and "heap_sdus h a = Some sdu \<Longrightarrow> a < heap_next h"
    and "s \<in># M \<Longrightarrow> heap_sdus h (seg_sdu s) \<noteq> None \<and> seg_addr s < heap_next h"
    and "addr_uses a M \<le> 1"
    and "heap_sdus h a = Some sdu \<Longrightarrow>
      sdu_ref_count sdu - sdu_free_count sdu = int (refs a M) \<and> 0 < refs a M"
  using assms unfolding heap_ok_def by auto

lemma refs_add_mset [simp]: "refs a (add_mset s M) = refs a M + (if seg_sdu s = a then 1 else 0)"
  by (simp add: refs_def)

lemma refs_empty [simp]: "refs a {#} = 0"
  by (simp add: refs_def)

lemma refs_eq_0: "refs a M = 0 \<longleftrightarrow> (\<forall>s \<in># M. seg_sdu s \<noteq> a)"
  by (induction M) auto

lemma refs_pos: "s \<in># M \<Longrightarrow> 0 < refs (seg_sdu s) M"
  using refs_eq_0 [of "seg_sdu s" M] by auto

lemma addr_uses_add_mset [simp]:
  "addr_uses a (add_mset s M) = addr_uses a M + (if seg_addr s = a then 1 else 0)"
  by (simp add: addr_uses_def)

lemma addr_uses_empty [simp]: "addr_uses a {#} = 0"
  by (simp add: addr_uses_def)

lemma addr_uses_eq_0: "addr_uses a M = 0 \<longleftrightarrow> (\<forall>s \<in># M. seg_addr s \<noteq> a)"
  by (induction M) auto

lemma heap_ok_empty [simp]: "heap_ok heap_empty {#}"
  by (simp add: heap_ok_def heap_empty_def)

lemma heap_bytes_empty [simp]: "heap_bytes heap_empty = 0"
  by (simp add: heap_bytes_def heap_empty_def)

lemma heap_ok_lookup: "heap_ok h M \<Longrightarrow> s \<in># M \<Longrightarrow> \<exists>sdu. heap_sdus h (seg_sdu s) = Some sdu"
  by (auto simp: heap_ok_def)

lemma heap_ok_fresh: "heap_ok h M \<Longrightarrow> heap_next h \<le> a \<Longrightarrow> heap_sdus h a = None"
  using heap_okD(2) [of h M a] by (cases "heap_sdus h a") auto

lemma heap_ok_distinct_addr: "heap_ok h (mset l + M) \<Longrightarrow> distinct (map seg_addr l)"
proof (induction l arbitrary: M)
  case Nil
  then show ?case by simp
next
  case (Cons s l)
  from Cons.prems have "heap_ok h (mset l + add_mset s M)" by simp
  then have "distinct (map seg_addr l)" by (rule Cons.IH)
  moreover have "addr_uses (seg_addr s) (mset l + M) = 0"
    using heap_okD(4) [OF Cons.prems, of "seg_addr s"] by simp
  then have "seg_addr s \<notin> seg_addr ` set l" by (auto simp: addr_uses_eq_0)
  ultimately show ?case by simp
qed

lemma heap_bytes_put:
  assumes "heap_ok h M" "heap_sdus h a = Some old" "sdu_size new = sdu_size old"
  shows "heap_bytes (heap_put h a new) = heap_bytes h"
  unfolding heap_bytes_def heap_put_def
  by (rule sum.cong) (use assms in \<open>auto simp: insert_absorb\<close>)

text \<open>Changing fields of an SDU other than its counts.\<close>

lemma heap_ok_put:
  assumes "heap_ok h M" "heap_sdus h a = Some old"
    and "sdu_ref_count new = sdu_ref_count old" "sdu_free_count new = sdu_free_count old"
  shows "heap_ok (heap_put h a new) M"
  using assms by (auto simp: heap_ok_def heap_put_def insert_absorb domIff)

lemma new_sdu:
  assumes "heap_ok h M" "0 \<le> sz" "sz \<le> int (length buffer)"
  obtains s h' where "nr_rlc_new_sdu h buffer sz uid = Some (s, h')"
    "heap_ok h' (add_mset s M)" "heap_bytes h' = heap_bytes h + sz"
    "seg_sdu s = heap_next h" "seg_size s = sz" "seg_so s = 0" "seg_is_first s" "seg_is_last s"
    "heap_sdus h' = (heap_sdus h)(heap_next h \<mapsto>
       \<lparr>sdu_sn = -1, sdu_upper_layer_id = uid, sdu_data = take (nat sz) buffer, sdu_size = sz,
        sdu_retx_count = -1, sdu_ref_count = 1, sdu_free_count = 0, sdu_time_of_arrival = 0\<rparr>)"
proof -
  let ?a = "heap_next h"
  let ?sdu = "\<lparr>sdu_sn = -1, sdu_upper_layer_id = uid, sdu_data = take (nat sz) buffer, sdu_size = sz,
        sdu_retx_count = -1, sdu_ref_count = 1, sdu_free_count = 0, sdu_time_of_arrival = 0\<rparr>"
  let ?s = "\<lparr>seg_addr = ?a + 1, seg_sdu = ?a, seg_size = sz, seg_so = 0, seg_is_first = True, seg_is_last = True\<rparr>"
  let ?h = "(heap_put h ?a ?sdu)\<lparr>heap_next := ?a + 2\<rparr>"
  have fresh: "heap_sdus h ?a = None" using assms(1) by (rule heap_ok_fresh) simp
  have none: "refs ?a M = 0"
    using assms(1) fresh by (auto simp: heap_ok_def refs_eq_0)
  have addr: "addr_uses (Suc ?a) M = 0"
    using heap_okD(3) [OF assms(1)] by (fastforce simp: addr_uses_eq_0)
  have "heap_ok ?h (add_mset ?s M)"
  proof (rule heap_okI)
    show "addr_uses a (add_mset ?s M) \<le> 1" for a
      using heap_okD(4) [OF assms(1), of a] addr by (cases "Suc (heap_next h) = a") simp_all
    show "heap_sdus ?h (seg_sdu x) \<noteq> None \<and> seg_addr x < heap_next ?h" if "x \<in># add_mset ?s M" for x
      using heap_okD(3) [OF assms(1), of x] that by (auto simp: heap_put_def)
    show "sdu_ref_count x - sdu_free_count x = int (refs a (add_mset ?s M)) \<and> 0 < refs a (add_mset ?s M)"
      if "heap_sdus ?h a = Some x" for a x
      using heap_okD(5) [OF assms(1), of a x] that none by (auto simp: heap_put_def split: if_splits)
    show "a < heap_next ?h" if "heap_sdus ?h a = Some x" for a x
      using heap_okD(2) [OF assms(1), of a x] that by (auto simp: heap_put_def split: if_splits)
  qed (use heap_okD(1) [OF assms(1)] in \<open>simp_all add: heap_put_def\<close>)
  moreover have "heap_bytes ?h = heap_bytes h + sz"
  proof -
    have "finite (dom (heap_sdus h))" using assms(1) by (simp add: heap_ok_def)
    moreover have "?a \<notin> dom (heap_sdus h)" using fresh by auto
    ultimately show ?thesis
      by (auto simp: heap_bytes_def heap_put_def intro!: sum.cong)
  qed
  moreover have "nr_rlc_new_sdu h buffer sz uid = Some (?s, ?h)"
    using assms(2,3) by (simp add: nr_rlc_new_sdu_def Let_def mem_simps)
  ultimately show ?thesis using that by (simp add: heap_put_def)
qed


lemma free_segment:
  assumes "heap_ok h (add_mset s M)" "heap_sdus h (seg_sdu s) = Some sdu"
  obtains h' where "nr_rlc_free_sdu_segment h s = Some (refs (seg_sdu s) M = 0, h')"
    "heap_ok h' M" "heap_next h' = heap_next h"
    "heap_bytes h' = heap_bytes h - (if refs (seg_sdu s) M = 0 then sdu_size sdu else 0)"
    "heap_sdus h' = (heap_sdus h)(seg_sdu s :=
       if refs (seg_sdu s) M = 0 then None else Some (sdu\<lparr>sdu_free_count := sdu_free_count sdu + 1\<rparr>))"
proof -
  let ?a = "seg_sdu s" and ?sdu = "sdu\<lparr>sdu_free_count := sdu_free_count sdu + 1\<rparr>"
  have cnt: "sdu_ref_count sdu - sdu_free_count sdu = int (refs ?a M) + 1"
    using heap_okD(5) [OF assms] by simp
  have keep: "addr_uses a M \<le> 1" for a
    using heap_okD(4) [OF assms(1), of a] by simp
  have other: "0 < refs a M" if "heap_sdus h a = Some x" "a \<noteq> ?a" for a x
    using heap_okD(5) [OF assms(1) that(1)] that(2) by simp
  have inM: "x \<in># M \<Longrightarrow> 0 < refs (seg_sdu x) M" for x by (rule refs_pos)
  show ?thesis
  proof (cases "refs ?a M = 0")
    case True
    let ?h = "h\<lparr>heap_sdus := (heap_sdus h)(?a := None)\<rparr>"
    have "nr_rlc_free_sdu_segment h s = Some (True, ?h)"
      using assms(2) cnt True by (simp add: nr_rlc_free_sdu_segment_def Let_def)
    moreover have "heap_ok ?h M"
    proof (rule heap_okI)
      show "heap_sdus ?h (seg_sdu x) \<noteq> None \<and> seg_addr x < heap_next ?h" if "x \<in># M" for x
        using heap_okD(3) [OF assms(1), of x] inM [OF that] True that by auto
      show "sdu_ref_count x - sdu_free_count x = int (refs a M) \<and> 0 < refs a M"
        if "heap_sdus ?h a = Some x" for a x
        using heap_okD(5) [OF assms(1), of a x] that by (auto split: if_splits)
      show "a < heap_next ?h" if "heap_sdus ?h a = Some x" for a x
        using heap_okD(2) [OF assms(1), of a x] that by (auto split: if_splits)
    qed (use heap_okD(1) [OF assms(1)] keep in simp_all)
    moreover have "heap_bytes ?h = heap_bytes h - sdu_size sdu"
    proof -
      have "finite (dom (heap_sdus h))" using assms(1) by (simp add: heap_ok_def)
      moreover have "?a \<in> dom (heap_sdus h)" using assms(2) by auto
      ultimately have "heap_bytes h = sdu_size sdu + (\<Sum>a \<in> dom (heap_sdus h) - {?a}. sdu_size (the (heap_sdus h a)))"
        using assms(2) by (simp add: heap_bytes_def sum.remove)
      moreover have "heap_bytes ?h = (\<Sum>a \<in> dom (heap_sdus h) - {?a}. sdu_size (the (heap_sdus h a)))"
        unfolding heap_bytes_def by (rule sum.cong) auto
      ultimately show ?thesis by simp
    qed
    ultimately show ?thesis using True that by simp
  next
    case False
    have "nr_rlc_free_sdu_segment h s = Some (False, heap_put h ?a ?sdu)"
      using assms(2) cnt False by (simp add: nr_rlc_free_sdu_segment_def Let_def)
    moreover have "heap_ok (heap_put h ?a ?sdu) M"
    proof (rule heap_okI)
      show "heap_sdus (heap_put h ?a ?sdu) (seg_sdu x) \<noteq> None \<and> seg_addr x < heap_next (heap_put h ?a ?sdu)"
        if "x \<in># M" for x
        using heap_okD(3) [OF assms(1), of x] that by (auto simp: heap_put_def)
      show "sdu_ref_count x - sdu_free_count x = int (refs a M) \<and> 0 < refs a M"
        if "heap_sdus (heap_put h ?a ?sdu) a = Some x" for a x
        using heap_okD(5) [OF assms(1), of a x] that cnt False by (auto simp: heap_put_def split: if_splits)
      show "a < heap_next (heap_put h ?a ?sdu)" if "heap_sdus (heap_put h ?a ?sdu) a = Some x" for a x
        using heap_okD(2) [OF assms(1), of a] that assms(2) by (auto simp: heap_put_def split: if_splits)
    qed (use heap_okD(1) [OF assms(1)] keep in \<open>simp_all add: heap_put_def\<close>)
    moreover have "heap_bytes (heap_put h ?a ?sdu) = heap_bytes h"
      using assms by (intro heap_bytes_put) auto
    ultimately show ?thesis using False that by (simp add: heap_put_def)
  qed
qed

text \<open>A second segment of the same SDU: one more reference.\<close>

lemma heap_ok_split:
  assumes "heap_ok h M" "s \<in># M" "heap_sdus h (seg_sdu s) = Some sdu"
    and "seg_sdu new = seg_sdu s" "seg_addr new = heap_next h"
    and "h' = (heap_put h (seg_sdu s) (sdu\<lparr>sdu_ref_count := sdu_ref_count sdu + 1\<rparr>))\<lparr>heap_next := heap_next h + 1\<rparr>"
  shows "heap_ok h' (add_mset new M)" "heap_bytes h' = heap_bytes h"
proof -
  have "addr_uses (heap_next h) M = 0"
    using heap_okD(3) [OF assms(1)] by (fastforce simp: addr_uses_eq_0)
  then have au: "addr_uses a (add_mset new M) \<le> 1" for a
    using heap_okD(4) [OF assms(1), of a] assms(5) by (cases "heap_next h = a") simp_all
  show "heap_ok h' (add_mset new M)"
  proof (rule heap_okI)
    show "heap_sdus h' (seg_sdu x) \<noteq> None \<and> seg_addr x < heap_next h'" if "x \<in># add_mset new M" for x
      using heap_okD(3) [OF assms(1), of x] that assms(3-6) by (auto simp: heap_put_def)
    show "sdu_ref_count x - sdu_free_count x = int (refs a (add_mset new M)) \<and> 0 < refs a (add_mset new M)"
      if "heap_sdus h' a = Some x" for a x
      using heap_okD(5) [OF assms(1), of a] that assms(3-6) by (auto simp: heap_put_def split: if_splits)
    show "a < heap_next h'" if "heap_sdus h' a = Some x" for a x
      using heap_okD(2) [OF assms(1), of a] that assms(3,6) by (auto simp: heap_put_def less_SucI split: if_splits)
  qed (use heap_okD(1) [OF assms(1)] au assms(6) in \<open>simp_all add: heap_put_def\<close>)
  show "heap_bytes h' = heap_bytes h"
    using heap_bytes_put [OF assms(1,3), of "sdu\<lparr>sdu_ref_count := sdu_ref_count sdu + 1\<rparr>"]
    by (simp add: assms(6) heap_bytes_def)
qed

text \<open>Replacing a segment by one of the same SDU at the same address.\<close>

lemma heap_ok_replace:
  assumes "heap_ok h (add_mset s M)" "seg_sdu s' = seg_sdu s" "seg_addr s' = seg_addr s"
  shows "heap_ok h (add_mset s' M)"
proof (rule heap_okI)
  show "addr_uses a (add_mset s' M) \<le> 1" for a
    using heap_okD(4) [OF assms(1), of a] assms(3) by simp
  show "heap_sdus h (seg_sdu x) \<noteq> None \<and> seg_addr x < heap_next h" if "x \<in># add_mset s' M" for x
    using heap_okD(3) [OF assms(1), of x] heap_okD(3) [OF assms(1), of s] that assms(2,3) by auto
  show "sdu_ref_count x - sdu_free_count x = int (refs a (add_mset s' M)) \<and> 0 < refs a (add_mset s' M)"
    if "heap_sdus h a = Some x" for a x
    using heap_okD(5) [OF assms(1) that] assms(2) by simp
qed (use heap_okD(1,2) [OF assms(1)] in auto)

lemma free_segment_list:
  assumes "heap_ok h (mset l + M)"
  shows "\<exists>h'. nr_rlc_free_sdu_segment_list h l = Some h' \<and> heap_ok h' M"
  using assms
proof (induction l arbitrary: h)
  case Nil
  then show ?case by simp
next
  case (Cons s l)
  then have ok: "heap_ok h (add_mset s (mset l + M))" by simp
  then obtain sdu where "heap_sdus h (seg_sdu s) = Some sdu" by (auto dest: heap_okD(3) [of _ _ s])
  from free_segment [OF ok this] obtain b h1
    where "nr_rlc_free_sdu_segment h s = Some (b, h1)" "heap_ok h1 (mset l + M)" by blast
  with Cons.IH [of h1] show ?case by simp
qed

lemma heap_ok_no_segments: "heap_ok h {#} \<Longrightarrow> heap_sdus h = Map.empty"
  by (auto simp: heap_ok_def refs_def)

section \<open>Segments cover a part of their SDU\<close>

definition seg_fits :: "nr_rlc_sdu_t \<Rightarrow> seg \<Rightarrow> bool" where
  "seg_fits sdu s \<longleftrightarrow> 0 \<le> seg_so s \<and> 0 \<le> seg_size s \<and> seg_so s + seg_size s \<le> sdu_size sdu \<and>
     int (length (sdu_data sdu)) = sdu_size sdu \<and>
     (seg_is_first s \<longleftrightarrow> seg_so s = 0) \<and> (seg_is_last s \<longleftrightarrow> seg_so s + seg_size s = sdu_size sdu)"

definition segs_fit :: "sdu_heap \<Rightarrow> seg multiset \<Rightarrow> bool" where
  "segs_fit h M \<longleftrightarrow> (\<forall>s \<in># M. \<forall>sdu. heap_sdus h (seg_sdu s) = Some sdu \<longrightarrow> seg_fits sdu s)"

lemma segs_fit_empty [simp]: "segs_fit h {#}"
  by (simp add: segs_fit_def)

lemma segs_fit_add [simp]:
  "segs_fit h (add_mset s M) \<longleftrightarrow> (\<forall>sdu. heap_sdus h (seg_sdu s) = Some sdu \<longrightarrow> seg_fits sdu s) \<and> segs_fit h M"
  by (auto simp: segs_fit_def)

lemma segs_fit_union [simp]: "segs_fit h (M + N) \<longleftrightarrow> segs_fit h M \<and> segs_fit h N"
  by (auto simp: segs_fit_def)

lemma seg_fits_cong:
  "sdu_size sdu' = sdu_size sdu \<Longrightarrow> sdu_data sdu' = sdu_data sdu \<Longrightarrow> seg_fits sdu' s = seg_fits sdu s"
  by (simp add: seg_fits_def)

text \<open>Storing an SDU with the same bytes, or removing one, keeps what the other segments cover.\<close>

lemma segs_fit_upd:
  assumes "segs_fit h M" "heap_sdus h a = Some old"
    and "heap_sdus h' = (heap_sdus h)(a := x)"
    and "x = None \<or> (\<exists>new. x = Some new \<and> sdu_size new = sdu_size old \<and> sdu_data new = sdu_data old)"
  shows "segs_fit h' M"
  unfolding segs_fit_def
proof (intro ballI allI impI)
  fix s sdu
  assume "s \<in># M" "heap_sdus h' (seg_sdu s) = Some sdu"
  then show "seg_fits sdu s"
    using assms by (cases "seg_sdu s = a") (auto simp: segs_fit_def seg_fits_def)
qed

end
