(* ===== verification/Time_Stat.thy ===== *)
theory Time_Stat
  imports L2_Prelude
begin

text \<open>
  The sliding-window average of \<open>common/utils/time_stat.c\<close>, with which an RLC entity measures how
  long its SDUs wait. A window is a ring buffer of time-stamped values that doubles when it is
  full; the sum of the values in the ring is kept beside it. Proved here: the ring of a
  well-formed window always holds the values added and not yet dropped, in their order (adding,
  also when the buffer is reallocated, appends; dropping removes a prefix of old entries), and the
  accumulated value is their sum.
\<close>

record time_value_t =
  tv_time :: u64
  tv_value :: u64

record time_ring_t =
  tr_head :: int
  tr_tail :: int
  tr_buffer :: "time_value_t list"
  tr_maxsize :: int
  tr_size :: int

record time_average_t =
  ta_duration :: int
  ta_r :: time_ring_t
  ta_accumulated_value :: u64

definition tv_zero :: time_value_t where
  "tv_zero = \<lparr>tv_time = 0, tv_value = 0\<rparr>"

definition time_average_new :: "int \<Rightarrow> int \<Rightarrow> time_average_t option" where
  "time_average_new duration initial_size = do {
     check (initial_size AND (initial_size - 1) = 0);
     Some \<lparr>ta_duration = duration,
       ta_r = \<lparr>tr_head = initial_size - 1, tr_tail = 0,
         tr_buffer = replicate (nat initial_size) tv_zero,
         tr_maxsize = initial_size, tr_size = 0\<rparr>,
       ta_accumulated_value = 0\<rparr>
   }"

definition time_average_reset :: "time_average_t \<Rightarrow> time_average_t" where
  "time_average_reset t =
     t\<lparr>ta_r := (ta_r t)\<lparr>tr_head := tr_maxsize (ta_r t) - 1, tr_tail := 0, tr_size := 0\<rparr>,
       ta_accumulated_value := 0\<rparr>"

text \<open>
  The loop of \<open>remove_old\<close> runs at most \<open>size\<close> times: it ends when the size reaches zero. The
  comparison with \<open>time - duration\<close> is on unsigned 64-bit values.
\<close>

fun remove_old_loop :: "nat \<Rightarrow> time_average_t \<Rightarrow> u64 \<Rightarrow> time_average_t option" where
  "remove_old_loop 0 t time = Some t"
| "remove_old_loop (Suc n) t time = do {
     let r = ta_r t;
     v \<leftarrow> mem_read (tr_buffer r) (tr_tail r);
     if tv_time v < time - of_int (ta_duration t)
     then remove_old_loop n
            (t\<lparr>ta_accumulated_value := ta_accumulated_value t - tv_value v,
               ta_r := r\<lparr>tr_size := tr_size r - 1,
                         tr_tail := cmod (tr_tail r + 1) (tr_maxsize r)\<rparr>\<rparr>) time
     else Some t
   }"

definition remove_old :: "time_average_t \<Rightarrow> u64 \<Rightarrow> time_average_t option" where
  "remove_old t time = remove_old_loop (nat (tr_size (ta_r t))) t time"

definition time_ring_grow :: "time_ring_t \<Rightarrow> time_ring_t option" where
  "time_ring_grow r =
     (if tr_size r = tr_maxsize r
      then do {
        let buffer = tr_buffer r @ replicate (nat (tr_maxsize r)) tv_zero;
        let r' = r\<lparr>tr_maxsize := tr_maxsize r * 2, tr_buffer := buffer\<rparr>;
        if tr_head r < tr_tail r
        then do {
          moved \<leftarrow> mem_slice buffer 0 (tr_head r + 1);
          buffer \<leftarrow> mem_blit buffer (tr_size r) moved;
          Some (r'\<lparr>tr_buffer := buffer, tr_head := tr_head r + tr_size r\<rparr>)
        }
        else Some r'
      }
      else Some r)"

definition time_average_add :: "time_average_t \<Rightarrow> u64 \<Rightarrow> u64 \<Rightarrow> time_average_t option" where
  "time_average_add t time value = do {
     t \<leftarrow> remove_old t time;
     r \<leftarrow> time_ring_grow (ta_r t);
     let head = cmod (tr_head r + 1) (tr_maxsize r);
     buffer \<leftarrow> mem_write (tr_buffer r) head \<lparr>tv_time = time, tv_value = value\<rparr>;
     Some (t\<lparr>ta_r := r\<lparr>tr_head := head, tr_buffer := buffer, tr_size := tr_size r + 1\<rparr>,
             ta_accumulated_value := ta_accumulated_value t + value\<rparr>)
   }"

text \<open>
  The average is returned as a floating-point quotient; the model keeps numerator and denominator
  apart, \<open>None\<close> in the first component standing for the result 0 of an empty window.
\<close>

definition time_average_get_average ::
  "time_average_t \<Rightarrow> u64 \<Rightarrow> ((u64 \<times> int) option \<times> time_average_t) option" where
  "time_average_get_average t time = do {
     t \<leftarrow> remove_old t time;
     Some (if tr_size (ta_r t) = 0 then None
           else Some (ta_accumulated_value t, tr_size (ta_r t)), t)
   }"

section \<open>The values a window holds\<close>

definition ring_values :: "time_ring_t \<Rightarrow> time_value_t list" where
  "ring_values r = map (\<lambda>i. tr_buffer r ! nat ((tr_tail r + int i) mod tr_maxsize r)) [0..<nat (tr_size r)]"

definition ring_ok :: "time_ring_t \<Rightarrow> bool" where
  "ring_ok r \<longleftrightarrow> 0 < tr_maxsize r \<and> int (length (tr_buffer r)) = tr_maxsize r \<and>
     0 \<le> tr_tail r \<and> tr_tail r < tr_maxsize r \<and> 0 \<le> tr_size r \<and> tr_size r \<le> tr_maxsize r \<and>
     tr_head r = (tr_tail r + tr_size r - 1) mod tr_maxsize r"

definition window_ok :: "time_average_t \<Rightarrow> bool" where
  "window_ok t \<longleftrightarrow> ring_ok (ta_r t) \<and>
     ta_accumulated_value t = (\<Sum>v\<leftarrow>ring_values (ta_r t). tv_value v)"


lemma mod_shift_neq:
  fixes a :: int
  assumes "0 \<le> i" "i < j" "j < m"
  shows "(a + i) mod m \<noteq> (a + j) mod m"
proof
  assume "(a + i) mod m = (a + j) mod m"
  then have "(a + j - (a + i)) mod m = 0" by (simp add: mod_eq_dvd_iff mod_eq_0_iff_dvd dvd_diff_commute)
  then have "(j - i) mod m = 0" by (simp add: algebra_simps)
  moreover have "(j - i) mod m = j - i" using assms by simp
  ultimately show False using assms by simp
qed

lemma map_upt_Cons: "0 < n \<Longrightarrow> map f [0..<n] = f 0 # map (\<lambda>i. f (Suc i)) [0..<n - 1]"
  by (cases n) (auto simp del: upt_Suc simp: upt_conv_Cons map_Suc_upt [symmetric])

definition ring_pop :: "time_ring_t \<Rightarrow> time_ring_t" where
  "ring_pop r = r\<lparr>tr_size := tr_size r - 1, tr_tail := cmod (tr_tail r + 1) (tr_maxsize r)\<rparr>"

lemma ring_pop:
  assumes "ring_ok r" "0 < tr_size r"
  shows "ring_ok (ring_pop r)"
    and "ring_values r = tr_buffer r ! nat (tr_tail r) # ring_values (ring_pop r)"
proof -
  have tail: "cmod (tr_tail r + 1) (tr_maxsize r) = (tr_tail r + 1) mod tr_maxsize r"
    using assms by (simp add: ring_ok_def)
  have "(tr_tail r + tr_size r - 1) mod tr_maxsize r =
      ((tr_tail r + 1) mod tr_maxsize r + (tr_size r - 1) - 1) mod tr_maxsize r"
    using mod_add_left_eq [of "tr_tail r + 1" "tr_maxsize r" "tr_size r - 2"]
    by (simp add: algebra_simps)
  then show "ring_ok (ring_pop r)"
    using assms by (auto simp: ring_ok_def ring_pop_def tail)
  have idx: "(tr_tail r + int (Suc i)) mod tr_maxsize r =
      ((tr_tail r + 1) mod tr_maxsize r + int i) mod tr_maxsize r" for i
    by (simp add: mod_simps algebra_simps)
  have "nat (tr_size r) - 1 = nat (tr_size r - 1)" using assms by simp
  then show "ring_values r = tr_buffer r ! nat (tr_tail r) # ring_values (ring_pop r)"
    using assms
    by (subst ring_values_def, subst map_upt_Cons) (simp_all only: idx, simp_all add: ring_values_def ring_pop_def tail ring_ok_def)
qed

lemma ring_push:
  assumes "ring_ok r" "tr_size r < tr_maxsize r"
    and "head = cmod (tr_head r + 1) (tr_maxsize r)"
    and "r' = r\<lparr>tr_head := head, tr_buffer := (tr_buffer r)[nat head := v], tr_size := tr_size r + 1\<rparr>"
  shows "mem_write (tr_buffer r) head v = Some ((tr_buffer r)[nat head := v])"
    and "ring_ok r'" and "ring_values r' = ring_values r @ [v]"
proof -
  let ?M = "tr_maxsize r" and ?t = "tr_tail r" and ?n = "tr_size r"
  have M: "0 < ?M" "int (length (tr_buffer r)) = ?M" using assms(1) by (auto simp: ring_ok_def)
  have "0 \<le> tr_head r" using assms(1) by (simp add: ring_ok_def)
  then have head: "head = (?t + ?n) mod ?M"
    using M assms(1,3) by (simp add: ring_ok_def mod_simps)
  then have hb: "0 \<le> head" "head < ?M" using M by simp_all
  then show "mem_write (tr_buffer r) head v = Some ((tr_buffer r)[nat head := v])"
    using M by (simp add: mem_simps)
  show "ring_ok r'" using assms M hb head by (auto simp: ring_ok_def)
  have keep: "(tr_buffer r)[nat head := v] ! nat ((?t + int i) mod ?M) =
      tr_buffer r ! nat ((?t + int i) mod ?M)" if "i < nat ?n" for i
  proof -
    have "(?t + int i) mod ?M \<noteq> head"
      using mod_shift_neq [of "int i" ?n ?M ?t] that assms(1,2) head by (auto simp: ring_ok_def)
    then have "nat ((?t + int i) mod ?M) \<noteq> nat head" using M hb by (simp add: nat_eq_iff)
    then show ?thesis by simp
  qed
  have new: "(tr_buffer r)[nat head := v] ! nat ((?t + int (nat ?n)) mod ?M) = v"
    using assms(1) M hb head by (simp add: ring_ok_def nat_less_iff)
  have "ring_values r' = map (\<lambda>i. (tr_buffer r)[nat head := v] ! nat ((?t + int i) mod ?M)) [0..<Suc (nat ?n)]"
    using assms(1,4) by (simp add: ring_values_def ring_ok_def nat_add_distrib del: upt_Suc)
  also have "\<dots> = ring_values r @ [v]"
    using keep new by (simp add: ring_values_def)
  finally show "ring_values r' = ring_values r @ [v]" .
qed

lemma ring_grow_full:
  assumes "ring_ok r" "tr_size r = tr_maxsize r"
  shows "\<exists>r'. time_ring_grow r = Some r' \<and> ring_ok r' \<and> tr_size r' < tr_maxsize r' \<and>
    ring_values r' = ring_values r"
proof -
  let ?M = "tr_maxsize r" and ?t = "tr_tail r"
  let ?big = "tr_buffer r @ replicate (nat ?M) tv_zero"
  have M: "0 < ?M" "length (tr_buffer r) = nat ?M" "0 \<le> ?t" "?t < ?M"
    using assms(1) by (auto simp: ring_ok_def)
  have small: "(?t + int i) mod (?M * 2) = ?t + int i" if "i < nat ?M" for i
    using that M by (intro mod_pos_pos_trivial) auto
  have "tr_head r = (?t - 1 + ?M) mod ?M"
    using assms by (simp add: ring_ok_def algebra_simps)
  then have hd: "tr_head r = (if ?t = 0 then ?M - 1 else ?t - 1)"
    using M by (simp add: zmod_minus1)
  show ?thesis
  proof (cases "?t = 0")
    case True
    let ?r = "r\<lparr>tr_maxsize := ?M * 2, tr_buffer := ?big\<rparr>"
    have "time_ring_grow r = Some ?r"
      using True M assms hd by (simp add: time_ring_grow_def Let_def)
    moreover have "ring_values ?r = ring_values r"
      using assms M True by (auto simp: ring_values_def nth_append)
    moreover have "ring_ok ?r" using assms M True hd by (auto simp: ring_ok_def)
    ultimately show ?thesis using assms M by auto
  next
    case False
    define buf where "buf = take (nat ?M) ?big @ take (nat ?t) ?big @ drop (nat ?M + nat ?t) ?big"
    let ?r = "r\<lparr>tr_maxsize := ?M * 2, tr_buffer := buf, tr_head := ?t - 1 + ?M\<rparr>"
    have grow: "time_ring_grow r = Some ?r"
      using False M assms hd
      by (simp add: time_ring_grow_def Let_def mem_slice_in mem_blit_in nat_add_distrib buf_def)
    have nth: "buf ! nat (?t + int i) = tr_buffer r ! nat ((?t + int i) mod ?M)"
      if i: "i < nat ?M" for i
    proof (cases "?t + int i < ?M")
      case True
      then show ?thesis using M by (simp add: nth_append buf_def)
    next
      case False
      have "(?t + int i) mod ?M = (?t + int i - ?M) mod ?M" by simp
      also have "\<dots> = ?t + int i - ?M" using False i M by (intro mod_pos_pos_trivial) auto
      finally show ?thesis using M i False by (simp add: nth_append nat_diff_distrib buf_def)
    qed
    have "ring_values ?r = ring_values r"
      using assms M by (auto simp: ring_values_def small nth)
    moreover have "ring_ok ?r"
      using assms M False by (auto simp: ring_ok_def algebra_simps buf_def)
    ultimately show ?thesis using grow assms M by auto
  qed
qed


lemma time_ring_grow:
  assumes "ring_ok r"
  shows "\<exists>r'. time_ring_grow r = Some r' \<and> ring_ok r' \<and> tr_size r' < tr_maxsize r' \<and>
    ring_values r' = ring_values r"
proof (cases "tr_size r = tr_maxsize r")
  case True
  with assms show ?thesis by (rule ring_grow_full)
next
  case False
  with assms show ?thesis by (auto simp: time_ring_grow_def ring_ok_def)
qed

definition tv_old :: "time_average_t \<Rightarrow> u64 \<Rightarrow> time_value_t \<Rightarrow> bool" where
  "tv_old t time v \<longleftrightarrow> tv_time v < time - of_int (ta_duration t)"

lemma remove_old_loop:
  assumes "window_ok t" "tr_size (ta_r t) = int n"
  shows "\<exists>t'. remove_old_loop n t time = Some t' \<and> window_ok t' \<and> ta_duration t' = ta_duration t \<and>
    ring_values (ta_r t') = dropWhile (tv_old t time) (ring_values (ta_r t))"
  using assms
proof (induction n arbitrary: t)
  case 0
  then show ?case by (simp add: ring_values_def)
next
  case (Suc n)
  let ?r = "ta_r t" and ?v = "tr_buffer (ta_r t) ! nat (tr_tail (ta_r t))"
  have ok: "ring_ok ?r" and pos: "0 < tr_size ?r"
    using Suc.prems by (simp_all add: window_ok_def)
  note pop = ring_pop [OF ok pos]
  have rd: "mem_read (tr_buffer ?r) (tr_tail ?r) = Some ?v"
    using ok by (auto simp: ring_ok_def mem_simps)
  let ?t = "t\<lparr>ta_accumulated_value := ta_accumulated_value t - tv_value ?v, ta_r := ring_pop ?r\<rparr>"
  have step: "remove_old_loop (Suc n) t time = (if tv_old t time ?v then remove_old_loop n ?t time else Some t)"
    by (simp add: rd Let_def ring_pop_def tv_old_def)
  have "window_ok ?t" "tr_size (ta_r ?t) = int n"
    using Suc.prems pop by (auto simp: window_ok_def ring_pop_def)
  from Suc.IH [OF this] show ?case
    using Suc.prems pop step by (auto simp: tv_old_def [abs_def])
qed

lemma remove_old:
  assumes "window_ok t"
  shows "\<exists>t'. remove_old t time = Some t' \<and> window_ok t' \<and> ta_duration t' = ta_duration t \<and>
    ring_values (ta_r t') = dropWhile (tv_old t time) (ring_values (ta_r t))"
  unfolding remove_old_def
  by (rule remove_old_loop [OF assms]) (use assms in \<open>simp add: window_ok_def ring_ok_def\<close>)

lemma time_average_add_window:
  assumes "window_ok t"
  shows "\<exists>t'. time_average_add t time value = Some t' \<and> window_ok t' \<and> ta_duration t' = ta_duration t \<and>
    ring_values (ta_r t') =
      dropWhile (tv_old t time) (ring_values (ta_r t)) @ [\<lparr>tv_time = time, tv_value = value\<rparr>]"
proof -
  from remove_old [OF assms] obtain t1 where t1: "remove_old t time = Some t1" "window_ok t1"
    "ta_duration t1 = ta_duration t"
    "ring_values (ta_r t1) = dropWhile (tv_old t time) (ring_values (ta_r t))" by blast
  from time_ring_grow [of "ta_r t1"] t1(2) obtain r where r: "time_ring_grow (ta_r t1) = Some r"
    "ring_ok r" "tr_size r < tr_maxsize r" "ring_values r = ring_values (ta_r t1)"
    by (auto simp: window_ok_def)
  note push = ring_push [OF r(2,3) refl refl]
  show ?thesis
    using t1 r push by (auto simp: time_average_add_def Let_def window_ok_def)
qed

lemma time_average_new_ok:
  assumes "time_average_new duration n = Some t" "0 < n"
  shows "window_ok t" "ring_values (ta_r t) = []"
  using assms
  by (auto simp: time_average_new_def window_ok_def ring_ok_def ring_values_def bind_Some_iff zmod_minus1)

text \<open>
  A window that is fed and read with times that never decrease, none of them earlier than the
  duration, so that \<open>time - duration\<close> does not wrap around.
\<close>

fun time_average_adds :: "time_average_t \<Rightarrow> time_value_t list \<Rightarrow> time_average_t option" where
  "time_average_adds t [] = Some t"
| "time_average_adds t (v # vs) = do {
     t \<leftarrow> time_average_add t (tv_time v) (tv_value v);
     time_average_adds t vs
   }"

definition live_at :: "int \<Rightarrow> u64 \<Rightarrow> time_value_t \<Rightarrow> bool" where
  "live_at duration now v \<longleftrightarrow> now - of_int duration \<le> tv_time v"

lemma tv_old_live: "tv_old t now v \<longleftrightarrow> \<not> live_at (ta_duration t) now v"
  by (auto simp: tv_old_def live_at_def)

lemma live_at_mono:
  "of_int d \<le> t1 \<Longrightarrow> t1 \<le> t2 \<Longrightarrow> live_at d t2 v \<Longrightarrow> live_at d t1 v"
  unfolding live_at_def by (meson order.trans word_le_minus_mono_left)

lemma dropWhile_sorted_live:
  assumes "sorted (map tv_time vs)"
  shows "dropWhile (\<lambda>v. \<not> live_at d now v) vs = filter (live_at d now) vs"
  using assms by (induction vs) (auto simp: live_at_def intro!: filter_True [symmetric])

lemma sorted_filter_map: "sorted (map f xs) \<Longrightarrow> sorted (map f (filter q xs))"
  by (induction xs) auto

lemma dropWhile_live_filter:
  assumes "sorted (map tv_time vs)" "of_int d \<le> t1" "t1 \<le> t2"
  shows "dropWhile (\<lambda>v. \<not> live_at d t2 v) (filter (live_at d t1) vs) = filter (live_at d t2) vs"
  using assms live_at_mono
  by (auto simp: dropWhile_sorted_live sorted_filter_map intro!: filter_cong)

lemma time_average_adds_window:
  assumes "window_ok t" "ta_duration t = d"
    and "ring_values (ta_r t) = filter (live_at d t0) us" "of_int d \<le> t0"
    and "sorted (map tv_time us @ t0 # map tv_time vs)"
  shows "\<exists>t'. time_average_adds t vs = Some t' \<and> window_ok t' \<and> ta_duration t' = d \<and>
    ring_values (ta_r t') = filter (live_at d (last (t0 # map tv_time vs))) (us @ vs)"
  using assms
proof (induction vs arbitrary: t t0 us)
  case Nil
  then show ?case by simp
next
  case (Cons v vs)
  let ?now = "tv_time v"
  from time_average_add_window [OF Cons.prems(1), of ?now "tv_value v"] obtain t1 where t1:
    "time_average_add t ?now (tv_value v) = Some t1" "window_ok t1"
    "ring_values (ta_r t1) = dropWhile (tv_old t ?now) (ring_values (ta_r t)) @ [v]"
    "ta_duration t1 = ta_duration t" by auto
  have old: "tv_old t ?now = (\<lambda>x. \<not> live_at d ?now x)" using Cons.prems(2) by (auto simp: tv_old_live)
  have le: "t0 \<le> ?now" using Cons.prems(5) by (simp add: sorted_append)
  then have "?now - of_int d \<le> ?now"
    using Cons.prems(4) word_sub_le [of "of_int d" ?now] by simp
  then have "filter (live_at d ?now) [v] = [v]" by (simp add: live_at_def)
  then have "ring_values (ta_r t1) = filter (live_at d ?now) (us @ [v])"
    using Cons.prems(3-5) t1(3) dropWhile_live_filter [of us d t0 ?now] by (simp add: old sorted_append)
  moreover have "of_int d \<le> ?now" using Cons.prems(4) le by simp
  moreover have "sorted (map tv_time (us @ [v]) @ ?now # map tv_time vs)"
    using Cons.prems(5) by (auto simp: sorted_append)
  ultimately show ?case
    using Cons.IH [of t1 ?now "us @ [v]"] Cons.prems(2) t1 by simp
qed

text \<open>
  C7. A window that starts empty and is fed the values \<open>vs\<close> at times that do not decrease holds, when
  it is read at \<open>now\<close>, exactly the values not older than the duration, whatever the initial size of
  its ring: the average it reports is their sum over their number, and the result is 0 when there
  are none. No access to the ring is out of bounds.
\<close>

theorem time_average_reports_window:
  assumes "time_average_new d n = Some t" "0 < n"
    and "sorted (map tv_time vs @ [now])" "\<forall>v \<in> set vs. of_int d \<le> tv_time v" "of_int d \<le> now"
  defines "live \<equiv> filter (live_at d now) vs"
  shows "\<exists>t1 t2. time_average_adds t vs = Some t1 \<and>
    time_average_get_average t1 now =
      Some (if live = [] then None else Some ((\<Sum>v\<leftarrow>live. tv_value v), int (length live)), t2)"
proof -
  note new = time_average_new_ok [OF assms(1,2)]
  have dur: "ta_duration t = d" using assms(1) by (auto simp: time_average_new_def bind_Some_iff)
  let ?last = "last (of_int d # map tv_time vs)"
  from time_average_adds_window [OF new(1) dur, of "of_int d" "[]" vs] new(2) assms(3,4)
  obtain t1 where t1: "time_average_adds t vs = Some t1" "window_ok t1" "ta_duration t1 = d"
    "ring_values (ta_r t1) = filter (live_at d ?last) vs"
    by (auto simp: sorted_append)
  from remove_old [OF t1(2), of now] obtain t2 where t2: "remove_old t1 now = Some t2" "window_ok t2"
    "ring_values (ta_r t2) = dropWhile (tv_old t1 now) (ring_values (ta_r t1))" by blast
  have old: "tv_old t1 now = (\<lambda>x. \<not> live_at d now x)" using t1(3) by (auto simp: tv_old_live)
  have "?last \<le> now" "of_int d \<le> ?last"
    using assms(3-5) by (auto simp: sorted_append last_map)
  then have live: "ring_values (ta_r t2) = live"
    unfolding live_def using t2(3) t1(4) old assms(3) dropWhile_live_filter [of vs d ?last now]
    by (simp add: sorted_append)
  have sz: "tr_size (ta_r t2) = int (length live)"
    using t2(2) by (simp add: live [symmetric] ring_values_def window_ok_def ring_ok_def)
  show ?thesis
    using t1(1) t2 live sz by (auto simp: time_average_get_average_def window_ok_def)
qed

theorem time_average_reports_window_witness:
  "\<exists>t t1 t2. time_average_new 100 2 = Some t \<and>
     time_average_adds t [\<lparr>tv_time = 150, tv_value = 5\<rparr>, \<lparr>tv_time = 200, tv_value = 6\<rparr>,
       \<lparr>tv_time = 210, tv_value = 7\<rparr>] = Some t1 \<and>
     time_average_get_average t1 300 = Some (Some (13, 2), t2)"
proof -
  obtain t where "time_average_new 100 2 = Some t" by (simp add: time_average_new_def)
  from time_average_reports_window [OF this, of
      "[\<lparr>tv_time = 150, tv_value = 5\<rparr>, \<lparr>tv_time = 200, tv_value = 6\<rparr>, \<lparr>tv_time = 210, tv_value = 7\<rparr>]" 300]
  show ?thesis using \<open>time_average_new 100 2 = Some t\<close> by (simp add: live_at_def)
qed

end
