(* ===== verification/RLC_Common.thy ===== *)
theory RLC_Common
  imports RLC_Pdu RLC_Sdu Time_Stat
begin

text \<open>
  \<open>openair2/LAYER2/nr_rlc/nr_rlc_entity.h\<close>: what the entities of the three RLC modes have in common.

  An entity of a mode extends \<open>nr_rlc_entity_t\<close>, as its struct embeds it. The calls an entity makes
  to its user (\<open>deliver_sdu\<close>, \<open>sdu_successful_delivery\<close>, \<open>max_retx_reached\<close>) are appended to \<open>ev\<close>
  in their order. The SDU store \<open>sdus\<close> is the part of the memory that the segments of the entity
  point into. The function pointers are the operations of the theories that model them.
\<close>

datatype nr_rlc_mode_t = NR_RLC_AM | NR_RLC_UM | NR_RLC_TM

record nr_rlc_statistics_t =
  st_mode :: nr_rlc_mode_t
  txpdu_pkts :: u32
  txpdu_bytes :: u32
  txpdu_wt_ms :: u32
  txpdu_dd_pkts :: u32
  txpdu_dd_bytes :: u32
  txpdu_retx_pkts :: u32
  txpdu_retx_bytes :: u32
  txpdu_segmented :: u32
  txpdu_status_pkts :: u32
  txpdu_status_bytes :: u32
  txbuf_occ_bytes :: u32
  txbuf_occ_pkts :: u32
  rxpdu_pkts :: u32
  rxpdu_bytes :: u32
  rxpdu_dup_pkts :: u32
  rxpdu_dup_bytes :: u32
  rxpdu_dd_pkts :: u32
  rxpdu_dd_bytes :: u32
  rxpdu_ow_pkts :: u32
  rxpdu_ow_bytes :: u32
  rxpdu_status_pkts :: u32
  rxpdu_status_bytes :: u32
  rxbuf_occ_bytes :: u32
  rxbuf_occ_pkts :: u32
  txsdu_pkts :: u32
  txsdu_bytes :: u64
  st_txsdu_avg_time_to_tx :: "(u64 \<times> int) option"
  txsdu_wt_us :: u32
  rxsdu_pkts :: u32
  rxsdu_bytes :: u64
  rxsdu_dd_pkts :: u32
  rxsdu_dd_bytes :: u32

record nr_rlc_entity_buffer_status_t =
  status_size :: int
  bs_tx_size :: int
  bs_retx_size :: int

datatype rlc_event =
    Deliver_sdu "byte list"
  | Sdu_successful_delivery int
  | Max_retx_reached

record nr_rlc_entity_t =
  bstatus :: nr_rlc_entity_buffer_status_t
  stats :: nr_rlc_statistics_t
  txsdu_avg_time_to_tx :: time_average_t
  avg_time_is_on :: bool
  sdus :: sdu_heap
  ev :: "rlc_event list"

definition stats_zero :: "nr_rlc_mode_t \<Rightarrow> nr_rlc_statistics_t" where
  "stats_zero mode = \<lparr>st_mode = mode, txpdu_pkts = 0, txpdu_bytes = 0, txpdu_wt_ms = 0,
     txpdu_dd_pkts = 0, txpdu_dd_bytes = 0, txpdu_retx_pkts = 0, txpdu_retx_bytes = 0,
     txpdu_segmented = 0, txpdu_status_pkts = 0, txpdu_status_bytes = 0, txbuf_occ_bytes = 0,
     txbuf_occ_pkts = 0, rxpdu_pkts = 0, rxpdu_bytes = 0, rxpdu_dup_pkts = 0, rxpdu_dup_bytes = 0,
     rxpdu_dd_pkts = 0, rxpdu_dd_bytes = 0, rxpdu_ow_pkts = 0, rxpdu_ow_bytes = 0,
     rxpdu_status_pkts = 0, rxpdu_status_bytes = 0, rxbuf_occ_bytes = 0, rxbuf_occ_pkts = 0,
     txsdu_pkts = 0, txsdu_bytes = 0, st_txsdu_avg_time_to_tx = None, txsdu_wt_us = 0,
     rxsdu_pkts = 0, rxsdu_bytes = 0, rxsdu_dd_pkts = 0, rxsdu_dd_bytes = 0\<rparr>"

definition bstatus_zero :: nr_rlc_entity_buffer_status_t where
  "bstatus_zero = \<lparr>status_size = 0, bs_tx_size = 0, bs_retx_size = 0\<rparr>"

abbreviation emit :: "rlc_event \<Rightarrow> 'a nr_rlc_entity_t_scheme \<Rightarrow> 'a nr_rlc_entity_t_scheme" where
  "emit x e \<equiv> e\<lparr>ev := ev e @ [x]\<rparr>"

definition NR_SDU_MAX :: int where
  "NR_SDU_MAX = 16000"

text \<open>The walk of the \<open>discard_sdu\<close> operations: the segments passed, and the list from the one with the id on.\<close>

fun find_sdu_id :: "sdu_heap \<Rightarrow> int \<Rightarrow> seg list \<Rightarrow> (seg list \<times> seg list) option" where
  "find_sdu_id h sdu_id [] = Some ([], [])"
| "find_sdu_id h sdu_id (cur # l) = do {
     sdu \<leftarrow> heap_sdus h (seg_sdu cur);
     if sdu_upper_layer_id sdu \<noteq> sdu_id
     then do {
       (passed, rest) \<leftarrow> find_sdu_id h sdu_id l;
       Some (cur # passed, rest)
     }
     else Some ([], cur # l)
   }"

lemma find_sdu_id_split:
  assumes "\<forall>s \<in> set l. heap_sdus h (seg_sdu s) \<noteq> None"
  obtains passed rest where "find_sdu_id h sdu_id l = Some (passed, rest)" "l = passed @ rest"
    "\<forall>s \<in> set passed. map_option sdu_upper_layer_id (heap_sdus h (seg_sdu s)) \<noteq> Some sdu_id"
    "rest \<noteq> [] \<Longrightarrow> map_option sdu_upper_layer_id (heap_sdus h (seg_sdu (hd rest))) = Some sdu_id"
proof -
  have "\<exists>passed rest. find_sdu_id h sdu_id l = Some (passed, rest) \<and> l = passed @ rest \<and>
      (\<forall>s \<in> set passed. map_option sdu_upper_layer_id (heap_sdus h (seg_sdu s)) \<noteq> Some sdu_id) \<and>
      (rest \<noteq> [] \<longrightarrow> map_option sdu_upper_layer_id (heap_sdus h (seg_sdu (hd rest))) = Some sdu_id)"
    using assms
  proof (induction l)
    case Nil
    then show ?case by simp
  next
    case (Cons cur l)
    then obtain sdu passed rest where "heap_sdus h (seg_sdu cur) = Some sdu" "find_sdu_id h sdu_id l = Some (passed, rest)" "l = passed @ rest"
      "\<forall>s \<in> set passed. map_option sdu_upper_layer_id (heap_sdus h (seg_sdu s)) \<noteq> Some sdu_id"
      "rest \<noteq> [] \<longrightarrow> map_option sdu_upper_layer_id (heap_sdus h (seg_sdu (hd rest))) = Some sdu_id" by auto
    then show ?case by (cases "sdu_upper_layer_id sdu = sdu_id") auto
  qed
  then show ?thesis using that by blast
qed

end
