(* ===== verification/RLC_Segments.thy ===== *)
theory RLC_Segments
  imports RLC_Common
begin

text \<open>
  The loops over the received segments of one SDU. The AM and the UM entity have the same ones
  (\<open>segment_already_received\<close>, \<open>sdu_full\<close>, \<open>sdu_has_missing_bytes\<close>, \<open>reassemble_and_deliver\<close>); a
  segment list is ordered by offset.

  \<open>bytes_of l\<close> is the set of byte positions the segments cover, \<open>piece_of d p\<close> says that \<open>p\<close> is a
  part of the SDU \<open>d\<close>. Proved: the duplicate check answers whether every byte of a segment is
  covered, whatever the overlaps; the fullness check answers whether every byte of the SDU is
  covered; and reassembly of a full list yields the SDU, byte for byte.
\<close>

section \<open>The loops\<close>

fun already_received_loop :: "nr_rlc_pdu_t list \<Rightarrow> int \<Rightarrow> int \<Rightarrow> bool" where
  "already_received_loop [] so sz \<longleftrightarrow> sz \<le> 0"
| "already_received_loop (l # ls) so sz \<longleftrightarrow>
     (if sz \<le> 0 then True
      else if pdu_so l \<le> so \<and> so < pdu_so l + pdu_size l
      then (let covered = pdu_size l - (so - pdu_so l)
            in already_received_loop ls (so + covered) (sz - covered))
      else if pdu_so l \<le> so + sz - 1 \<and> so + sz - 1 < pdu_so l + pdu_size l
      then (let covered = sz - (pdu_so l - so) in already_received_loop ls so (sz - covered))
      else already_received_loop ls so sz)"

definition already_processed :: "nr_rlc_pdu_t list \<Rightarrow> bool" where
  "already_processed l \<longleftrightarrow> (case l of [] \<Rightarrow> False | p # _ \<Rightarrow> pdu_data p = None)"

fun sdu_full_loop :: "nr_rlc_pdu_t list \<Rightarrow> int \<Rightarrow> bool" where
  "sdu_full_loop [] last_byte \<longleftrightarrow> False"
| "sdu_full_loop (l # ls) last_byte \<longleftrightarrow>
     (if pdu_so l > last_byte + 1 then False
      else if pdu_is_last l then True
      else sdu_full_loop ls (max last_byte (pdu_so l + pdu_size l - 1)))"

fun missing_bytes_loop :: "nr_rlc_pdu_t list \<Rightarrow> int \<Rightarrow> bool" where
  "missing_bytes_loop [] last_byte \<longleftrightarrow> False"
| "missing_bytes_loop (l # ls) last_byte \<longleftrightarrow>
     (if pdu_so l > last_byte + 1 then True
      else missing_bytes_loop ls (max last_byte (pdu_so l + pdu_size l - 1)))"

text \<open>
  \<open>sdu\<close> is the part of the local buffer of \<open>NR_SDU_MAX\<close> bytes that was filled, its first \<open>so\<close>
  bytes. Copying from a segment whose data was freed is a call that does not return.
\<close>

fun reassemble_loop ::
  "nr_rlc_pdu_t list \<Rightarrow> int \<Rightarrow> bool \<Rightarrow> byte list \<Rightarrow> int \<Rightarrow>
     (nr_rlc_pdu_t list \<times> int \<times> bool \<times> byte list \<times> int) option" where
  "reassemble_loop [] so bad sdu rx_size = Some ([], so, bad, sdu, rx_size)"
| "reassemble_loop (pdu # l) so bad sdu rx_size = do {
     let bad = (if pdu_so pdu > so \<and> \<not> bad then True else bad);
     let len = pdu_size pdu - (so - pdu_so pdu);
     let bad = (if so + len > NR_SDU_MAX \<and> \<not> bad then True else bad);
     (so, sdu) \<leftarrow> (if \<not> bad \<and> len > 0
       then do {
         data \<leftarrow> pdu_data pdu;
         bytes \<leftarrow> mem_slice data (so - pdu_so pdu) len;
         Some (so + len, sdu @ bytes)
       }
       else Some (so, sdu));
     let rx_size = rx_size - pdu_size pdu;
     (l, so, bad, sdu, rx_size) \<leftarrow> reassemble_loop l so bad sdu rx_size;
     Some (pdu\<lparr>pdu_data := None\<rparr> # l, so, bad, sdu, rx_size)
   }"

section \<open>Byte coverage\<close>

definition bytes_of :: "nr_rlc_pdu_t list \<Rightarrow> int set" where
  "bytes_of l = (\<Union>p \<in> set l. {pdu_so p..<pdu_so p + pdu_size p})"

definition so_sorted :: "nr_rlc_pdu_t list \<Rightarrow> bool" where
  "so_sorted l \<longleftrightarrow> sorted_wrt (\<lambda>p q. pdu_so p \<le> pdu_so q) l"

lemma bytes_of_Nil [simp]: "bytes_of [] = {}"
  by (simp add: bytes_of_def)

lemma bytes_of_Cons [simp]: "bytes_of (p # l) = {pdu_so p..<pdu_so p + pdu_size p} \<union> bytes_of l"
  by (simp add: bytes_of_def)

lemma bytes_of_append [simp]: "bytes_of (l @ l') = bytes_of l \<union> bytes_of l'"
  by (simp add: bytes_of_def)

lemma bytes_of_list_add_before [simp]:
  "bytes_of (list_add_before q p l) = {pdu_so p..<pdu_so p + pdu_size p} \<union> bytes_of l"
  by (simp add: bytes_of_def)

lemma so_sorted_Nil [simp]: "so_sorted []"
  by (simp add: so_sorted_def)

lemma so_sorted_Cons [simp]: "so_sorted (p # l) \<longleftrightarrow> (\<forall>q \<in> set l. pdu_so p \<le> pdu_so q) \<and> so_sorted l"
  by (simp add: so_sorted_def)

lemma so_sorted_add:
  "so_sorted l \<Longrightarrow> so_sorted (list_add_before (\<lambda>cur. pdu_so cur > pdu_so p) p l)"
  unfolding so_sorted_def by (rule sorted_list_add_before) auto

lemma ivl_front:
  fixes a :: int
  assumes "a \<le> s"
  shows "{s..<t} \<subseteq> {a..<e} \<union> B \<longleftrightarrow> {max s e..<t} \<subseteq> B"
proof
  assume l: "{s..<t} \<subseteq> {a..<e} \<union> B"
  show "{max s e..<t} \<subseteq> B"
  proof
    fix x assume "x \<in> {max s e..<t}"
    then have "x \<in> {s..<t}" "x \<notin> {a..<e}" by auto
    with l show "x \<in> B" by blast
  qed
next
  assume r: "{max s e..<t} \<subseteq> B"
  show "{s..<t} \<subseteq> {a..<e} \<union> B"
  proof
    fix x assume "x \<in> {s..<t}"
    then have "x \<in> {a..<e} \<or> x \<in> {max s e..<t}" using assms by auto
    with r show "x \<in> {a..<e} \<union> B" by blast
  qed
qed

lemma before_all_not_covered: "\<forall>q \<in> set l. b < pdu_so q \<Longrightarrow> b \<notin> bytes_of l"
  by (auto simp: bytes_of_def)

lemma already_received_iff:
  assumes "so_sorted l" "\<forall>p \<in> set l. 0 < pdu_size p"
  shows "already_received_loop l so sz \<longleftrightarrow> {so..<so + sz} \<subseteq> bytes_of l"
  using assms
proof (induction l arbitrary: so sz)
  case Nil
  then show ?case by auto
next
  case (Cons p l)
  let ?e = "pdu_so p + pdu_size p"
  have after: "b \<notin> bytes_of l" if "b < pdu_so p" for b
    using Cons.prems(1) that by (intro before_all_not_covered) fastforce
  note IH = Cons.IH [OF Cons.prems(1) [unfolded so_sorted_Cons, THEN conjunct2]]
  have pos: "\<forall>p \<in> set l. 0 < pdu_size p" using Cons.prems(2) by simp
  consider "sz \<le> 0" | "0 < sz" "pdu_so p \<le> so" "so < ?e" | "0 < sz" "?e \<le> so" | "0 < sz" "so < pdu_so p"
    by linarith
  then show ?case
  proof cases
    case 2
    have "{so..<so + sz} \<subseteq> bytes_of (p # l) \<longleftrightarrow> {?e..<so + sz} \<subseteq> bytes_of l"
      using 2 ivl_front [of "pdu_so p" so "so + sz" ?e "bytes_of l"] by (simp add: max_def)
    moreover have "so + (pdu_size p - (so - pdu_so p)) = ?e" by simp
    ultimately show ?thesis
      using 2 IH [OF pos, of ?e "so + sz - ?e"] by (simp add: algebra_simps Let_def)
  next
    case 3
    then have "already_received_loop (p # l) so sz \<longleftrightarrow> already_received_loop l so sz" by simp
    moreover have "{so..<so + sz} \<subseteq> bytes_of (p # l) \<longleftrightarrow> {so..<so + sz} \<subseteq> bytes_of l"
      using 3 by (auto simp: subset_iff)
    ultimately show ?thesis using IH [OF pos] by simp
  next
    case 4
    have so: "so \<notin> bytes_of (p # l)" "so \<notin> bytes_of l" using 4 after by auto
    have "\<not> already_received_loop l so n" if "0 < n" for n
      using IH [OF pos, of so n] so(2) that by (auto simp: subset_iff)
    then have "\<not> already_received_loop (p # l) so sz" using 4 by (simp add: Let_def)
    moreover have "\<not> {so..<so + sz} \<subseteq> bytes_of (p # l)"
      using so(1) 4 atLeastLessThan_iff by (metis order_refl less_add_same_cancel1 subsetD)
    ultimately show ?thesis by simp
  qed auto
qed

section \<open>Segments of a given SDU\<close>

definition piece_of :: "byte list \<Rightarrow> nr_rlc_pdu_t \<Rightarrow> bool" where
  "piece_of d p \<longleftrightarrow> 0 \<le> pdu_so p \<and> 0 < pdu_size p \<and> pdu_so p + pdu_size p \<le> int (length d) \<and>
     (pdu_is_last p \<longleftrightarrow> pdu_so p + pdu_size p = int (length d)) \<and>
     (pdu_data p = None \<or> pdu_data p = Some (take (nat (pdu_size p)) (drop (nat (pdu_so p)) d)))"

definition pdu_processed :: "nr_rlc_pdu_t \<Rightarrow> nr_rlc_pdu_t" where
  "pdu_processed p = p\<lparr>pdu_data := None\<rparr>"

lemma pdu_processed_sel [simp]:
  "pdu_sn (pdu_processed p) = pdu_sn p" "pdu_so (pdu_processed p) = pdu_so p"
  "pdu_size (pdu_processed p) = pdu_size p" "pdu_is_last (pdu_processed p) = pdu_is_last p"
  "pdu_is_first (pdu_processed p) = pdu_is_first p" "pdu_data (pdu_processed p) = None"
  by (simp_all add: pdu_processed_def)

lemma sdu_full_iff:
  assumes "so_sorted l" "\<forall>p \<in> set l. piece_of d p" "last_byte + 1 < int (length d)"
  shows "sdu_full_loop l last_byte \<longleftrightarrow> {last_byte + 1..<int (length d)} \<subseteq> bytes_of l"
  using assms
proof (induction l arbitrary: last_byte)
  case Nil
  then show ?case by auto
next
  case (Cons p l)
  let ?e = "pdu_so p + pdu_size p" and ?n = "int (length d)"
  have p: "piece_of d p" using Cons.prems(2) by simp
  consider "last_byte + 1 < pdu_so p" | "pdu_so p \<le> last_byte + 1" "pdu_is_last p"
    | "pdu_so p \<le> last_byte + 1" "\<not> pdu_is_last p" by linarith
  then show ?case
  proof cases
    case 1
    then have "last_byte + 1 \<notin> bytes_of (p # l)"
      using Cons.prems(1) by (intro before_all_not_covered) fastforce
    then show ?thesis using 1 Cons.prems(3) by (auto simp: subset_iff)
  next
    case 2
    then have "{last_byte + 1..<?n} \<subseteq> {pdu_so p..<?e}" using p by (auto simp: piece_of_def)
    then show ?thesis using 2 by auto
  next
    case 3
    let ?b = "max last_byte (?e - 1)"
    have lt: "?e < ?n" using p 3(2) by (auto simp: piece_of_def)
    have "{last_byte + 1..<?n} \<subseteq> bytes_of (p # l) \<longleftrightarrow> {?b + 1..<?n} \<subseteq> bytes_of l"
      using ivl_front [OF 3(1), of ?n ?e "bytes_of l"] by (simp add: max_def)
    then show ?thesis using 3 Cons.IH [of ?b] Cons.prems lt by simp
  qed
qed

lemma reassemble_full:
  assumes "\<forall>p \<in> set l. piece_of d p \<and> pdu_data p \<noteq> None" "int (length d) \<le> NR_SDU_MAX"
    and "0 \<le> so" "so = int (length d) \<or> so < int (length d) \<and> sdu_full_loop l (so - 1)"
  shows "reassemble_loop l so False (take (nat so) d) rx_size =
    Some (map pdu_processed l, int (length d), False, d, rx_size - (\<Sum>p\<leftarrow>l. pdu_size p))"
  using assms(1,3,4)
proof (induction l arbitrary: so rx_size)
  case Nil
  then show ?case by simp
next
  case (Cons p l)
  let ?n = "int (length d)" and ?e = "pdu_so p + pdu_size p"
  have p: "piece_of d p" "pdu_data p = Some (take (nat (pdu_size p)) (drop (nat (pdu_so p)) d))"
    using Cons.prems(1) by (auto simp: piece_of_def)
  have le: "pdu_so p \<le> so" using Cons.prems(3) p(1) by (auto simp: piece_of_def split: if_splits)
  have en: "?e \<le> ?n" "0 \<le> pdu_so p" using p(1) by (simp_all add: piece_of_def)
  define so' where "so' = (if so < ?e then ?e else so)"
  have mx: "max (so - 1) (?e - 1) = so' - 1" by (simp add: so'_def max_def)
  have nxt: "0 \<le> so'" "so' = ?n \<or> so' < ?n \<and> sdu_full_loop l (so' - 1)"
    using Cons.prems p(1) by (auto simp: mx piece_of_def so'_def split: if_splits)
  have len: "pdu_size p - (so - pdu_so p) = ?e - so" by simp
  have "(if 0 < ?e - so then do {
         data \<leftarrow> pdu_data p;
         bytes \<leftarrow> mem_slice data (so - pdu_so p) (?e - so);
         Some (so + (?e - so), take (nat so) d @ bytes)
       } else Some (so, take (nat so) d)) = Some (so', take (nat so') d)"
  proof (cases "so < ?e")
    case True
    have "nat (pdu_so p) + nat (so - pdu_so p) = nat so" "nat ?e = nat so + nat (?e - so)"
      "nat (pdu_size p) - nat (so - pdu_so p) = nat (?e - so)" using le en True by auto
    moreover have "so - pdu_so p + (?e - so) \<le> int (min (length d - nat (pdu_so p)) (nat (pdu_size p)))"
      using en True le by (simp add: min_def)
    ultimately show ?thesis
      using True le Cons.prems(2) by (simp add: p(2) mem_slice_in so'_def take_add drop_take ac_simps)
  qed (simp add: so'_def)
  then show ?case
    using Cons.IH [OF _ nxt, of "rx_size - pdu_size p"] Cons.prems(1) le en assms(2)
    by (simp add: Let_def len pdu_processed_def cong: if_cong)
qed

section \<open>Arbitrary segments\<close>

text \<open>
  What holds of the segments of any PDUs, also of ones that a well-behaved sender never produces:
  the first segment decides whether the SDU was processed.
\<close>

definition pdu_ok :: "nr_rlc_pdu_t \<Rightarrow> bool" where
  "pdu_ok p \<longleftrightarrow> 0 \<le> pdu_so p \<and> 0 < pdu_size p \<and>
     (\<forall>b. pdu_data p = Some b \<longrightarrow> int (length b) = pdu_size p)"

definition pdus_ok :: "int \<Rightarrow> nr_rlc_pdu_t list \<Rightarrow> bool" where
  "pdus_ok sn l \<longleftrightarrow> so_sorted l \<and> (\<forall>p \<in> set l. pdu_ok p \<and> pdu_sn p = sn) \<and>
     (if already_processed l then pdu_so (hd l) = 0
      else (\<forall>p \<in> set l. pdu_data p \<noteq> None) \<and> \<not> sdu_full_loop l (-1))"

definition stored_bytes :: "nr_rlc_pdu_t list \<Rightarrow> int" where
  "stored_bytes l = (\<Sum>p\<leftarrow>l. if pdu_data p = None then 0 else pdu_size p)"

lemma already_processed_simps [simp]:
  "\<not> already_processed []" "already_processed (p # l) \<longleftrightarrow> pdu_data p = None"
  by (simp_all add: already_processed_def)

lemma pdus_ok_Nil [simp]: "pdus_ok sn []"
  by (simp add: pdus_ok_def)

lemma stored_bytes_Nil [simp]: "stored_bytes [] = 0"
  by (simp add: stored_bytes_def)

lemma stored_bytes_all: "\<forall>p \<in> set l. pdu_data p \<noteq> None \<Longrightarrow> stored_bytes l = (\<Sum>p\<leftarrow>l. pdu_size p)"
  by (induction l) (auto simp: stored_bytes_def)

lemma stored_bytes_add:
  "pdu_data p \<noteq> None \<Longrightarrow> stored_bytes (list_add_before q p l) = pdu_size p + stored_bytes l"
  by (induction l) (auto simp: stored_bytes_def)

lemma stored_bytes_processed [simp]: "stored_bytes (map pdu_processed l) = 0"
  by (induction l) (auto simp: stored_bytes_def)

lemma stored_bytes_nonneg: "\<forall>p \<in> set l. pdu_ok p \<Longrightarrow> 0 \<le> stored_bytes l"
  by (induction l) (auto simp: stored_bytes_def pdu_ok_def)

lemma so_sorted_processed [simp]: "so_sorted (map pdu_processed l) = so_sorted l"
  by (induction l) auto

lemma bytes_of_processed [simp]: "bytes_of (map pdu_processed l) = bytes_of l"
  by (simp add: bytes_of_def)

lemma hd_list_add_before:
  "l \<noteq> [] \<Longrightarrow> \<not> q (hd l) \<Longrightarrow> hd (list_add_before q p l) = hd l"
  by (cases l) auto

lemma sdu_full_head: "sdu_full_loop l (-1) \<Longrightarrow> \<forall>p \<in> set l. pdu_ok p \<Longrightarrow> l \<noteq> [] \<and> pdu_so (hd l) = 0"
  by (cases l) (auto simp: pdu_ok_def split: if_splits)

lemma reassemble_returns:
  assumes "\<forall>p \<in> set l. pdu_ok p \<and> pdu_data p \<noteq> None" "0 \<le> so"
  shows "\<exists>so' bad' sdu'. reassemble_loop l so bad sdu rx_size =
    Some (map pdu_processed l, so', bad', sdu', rx_size - (\<Sum>p\<leftarrow>l. pdu_size p))"
  using assms
proof (induction l arbitrary: so bad sdu rx_size)
  case Nil
  then show ?case by simp
next
  case (Cons p l)
  from Cons.prems obtain b where b: "pdu_data p = Some b" "int (length b) = pdu_size p" "0 \<le> pdu_so p"
    by (auto simp: pdu_ok_def)
  have IH: "\<exists>so' bad' sdu'. reassemble_loop l so1 bad1 sdu1 (rx_size - pdu_size p) =
      Some (map pdu_processed l, so', bad', sdu', rx_size - pdu_size p - (\<Sum>p\<leftarrow>l. pdu_size p))"
    if "0 \<le> so1" for so1 bad1 sdu1
    using Cons.IH [OF _ that] Cons.prems(1) by simp
  let ?len = "pdu_size p - (so - pdu_so p)"
  have rd: "pdu_so p \<le> so \<Longrightarrow> 0 < ?len \<Longrightarrow>
      mem_slice b (so - pdu_so p) ?len = Some (take (nat ?len) (drop (nat (so - pdu_so p)) b))"
    using b by (intro mem_slice_in) auto
  show ?case
  proof (cases "pdu_so p \<le> so \<and> \<not> bad \<and> so + ?len \<le> NR_SDU_MAX \<and> 0 < ?len")
    case True
    with IH [of "so + ?len" False "sdu @ take (nat ?len) (drop (nat (so - pdu_so p)) b)"] rd b
    show ?thesis using Cons.prems(2) by (auto simp: Let_def pdu_processed_def)
  next
    case False
    from IH [OF Cons.prems(2), of "bad \<or> pdu_so p > so \<or> so + ?len > NR_SDU_MAX" sdu] False
    show ?thesis by (auto simp: Let_def pdu_processed_def split: if_splits)
  qed
qed

text \<open>A segment that is not yet there is inserted, whether or not the SDU was delivered.\<close>

lemma pdus_ok_add:
  assumes "pdus_ok sn l" "pdu_ok p" "pdu_sn p = sn" "pdu_data p \<noteq> None"
  defines "l' \<equiv> list_add_before (\<lambda>cur. pdu_so cur > pdu_so p) p l"
  shows "already_processed l' = already_processed l"
    "so_sorted l'" "\<forall>p \<in> set l'. pdu_ok p \<and> pdu_sn p = sn"
    "already_processed l \<Longrightarrow> pdus_ok sn l'"
    "\<not> already_processed l \<Longrightarrow> \<not> sdu_full_loop l' (-1) \<Longrightarrow> pdus_ok sn l'"
    "\<not> already_processed l \<Longrightarrow> \<forall>p \<in> set l'. pdu_data p \<noteq> None"
proof -
  have hd0: "hd l' = hd l" if "already_processed l"
  proof -
    have "l \<noteq> []" using that by (cases l) auto
    moreover have "pdu_so (hd l) \<le> pdu_so p" using assms(1,2) that by (simp add: pdus_ok_def pdu_ok_def)
    ultimately show ?thesis unfolding l'_def by (intro hd_list_add_before) auto
  qed
  show data: "\<forall>p \<in> set l'. pdu_data p \<noteq> None" if "\<not> already_processed l"
    using that assms(1,4) by (auto simp: l'_def pdus_ok_def)
  have ne: "l' \<noteq> []" by (simp add: l'_def)
  show proc: "already_processed l' = already_processed l"
  proof (cases "already_processed l")
    case True
    then have "l \<noteq> []" by auto
    then show ?thesis using hd0 True ne by (cases l; cases l') auto
  next
    case False
    then show ?thesis using data ne by (cases l') auto
  qed
  show srt: "so_sorted l'" using assms(1) by (auto simp: l'_def pdus_ok_def so_sorted_add)
  show all: "\<forall>p \<in> set l'. pdu_ok p \<and> pdu_sn p = sn" using assms(1-3) by (auto simp: l'_def pdus_ok_def)
  show "pdus_ok sn l'" if "already_processed l"
    using that hd0 proc srt all assms(1) by (simp add: pdus_ok_def)
  show "pdus_ok sn l'" if "\<not> already_processed l" "\<not> sdu_full_loop l' (-1)"
    using that data proc srt all by (simp add: pdus_ok_def)
qed

lemma pdus_ok_processed:
  assumes "so_sorted l" "\<forall>p \<in> set l. pdu_ok p \<and> pdu_sn p = sn" "sdu_full_loop l (-1)"
  shows "pdus_ok sn (map pdu_processed l)" "already_processed (map pdu_processed l)"
proof -
  have "l \<noteq> []" "pdu_so (hd l) = 0" using sdu_full_head assms(2,3) by auto
  then show "pdus_ok sn (map pdu_processed l)" "already_processed (map pdu_processed l)"
    using assms(1,2) by (auto simp: pdus_ok_def pdu_ok_def hd_map already_processed_def split: list.splits)
qed

end
