(* ===== verification/RLC_Rx_Manager.thy ===== *)
theory RLC_Rx_Manager
  imports RLC_Pdu
begin

text \<open>
  \<open>openair2/LAYER2/nr_rlc/nr_rlc_rx_manager.c\<close>: the reception window of an AM entity, a circular
  buffer with one list of received segments per sequence number, ordered by segment offset.

  The locale \<open>sn_store\<close> is what the entity relies on: the store is a row of slots, slot \<open>d\<close> for the
  sequence number \<open>d\<close> after the first one; inserting and clearing change one slot, and advancing
  rotates the row. Its lemmas say what a lookup returns after each operation and after the window
  has moved. The circular buffer of the code is an instance (interpretation \<open>rxm\<close>).
\<close>

section \<open>Data and operations\<close>

record nr_rlc_rx_manager_t =
  rxm_rx_list :: "nr_rlc_pdu_t list list"
  rxm_size :: int
  rxm_start :: int
  rxm_sn_start :: int

definition nr_rlc_new_rx_manager :: "int \<Rightarrow> nr_rlc_rx_manager_t" where
  "nr_rlc_new_rx_manager sz =
     \<lparr>rxm_rx_list = replicate (nat sz) [], rxm_size = sz, rxm_start = 0, rxm_sn_start = 0\<rparr>"

definition nr_rlc_clear_rx_manager :: "nr_rlc_rx_manager_t \<Rightarrow> nr_rlc_rx_manager_t" where
  "nr_rlc_clear_rx_manager m =
     m\<lparr>rxm_rx_list := replicate (nat (rxm_size m)) [] @ drop (nat (rxm_size m)) (rxm_rx_list m),
       rxm_start := 0, rxm_sn_start := 0\<rparr>"

definition get_pos :: "nr_rlc_rx_manager_t \<Rightarrow> int \<Rightarrow> int" where
  "get_pos m sn = cmod (rxm_start m + (sn - rxm_sn_start m + rxm_size m * 2)) (rxm_size m)"

definition nr_rlc_rx_manager_get_pdu_from_sn ::
  "nr_rlc_rx_manager_t \<Rightarrow> int \<Rightarrow> nr_rlc_pdu_t list option" where
  "nr_rlc_rx_manager_get_pdu_from_sn m sn = mem_read (rxm_rx_list m) (get_pos m sn)"

definition nr_rlc_rx_manager_clear_pdu ::
  "nr_rlc_rx_manager_t \<Rightarrow> int \<Rightarrow> nr_rlc_rx_manager_t option" where
  "nr_rlc_rx_manager_clear_pdu m sn = do {
     l \<leftarrow> mem_write (rxm_rx_list m) (get_pos m sn) [];
     Some (m\<lparr>rxm_rx_list := l\<rparr>)
   }"

definition nr_rlc_rx_manager_advance :: "nr_rlc_rx_manager_t \<Rightarrow> int \<Rightarrow> nr_rlc_rx_manager_t" where
  "nr_rlc_rx_manager_advance m cnt = m\<lparr>rxm_start := cmod (rxm_start m + cnt) (rxm_size m)\<rparr>"

definition nr_rlc_rx_manager_set_start :: "nr_rlc_rx_manager_t \<Rightarrow> int \<Rightarrow> nr_rlc_rx_manager_t" where
  "nr_rlc_rx_manager_set_start m sn_start = m\<lparr>rxm_sn_start := sn_start\<rparr>"

definition nr_rlc_rx_manager_add_pdu ::
  "nr_rlc_rx_manager_t \<Rightarrow> nr_rlc_pdu_t \<Rightarrow> nr_rlc_rx_manager_t option" where
  "nr_rlc_rx_manager_add_pdu m pdu = do {
     let pos = get_pos m (pdu_sn pdu);
     l \<leftarrow> mem_read (rxm_rx_list m) pos;
     rx_list \<leftarrow> mem_write (rxm_rx_list m) pos (list_add_before (\<lambda>cur. pdu_so cur > pdu_so pdu) pdu l);
     Some (m\<lparr>rxm_rx_list := rx_list\<rparr>)
   }"

text \<open>
  The segments of one sequence number are changed in place while they are read
  (\<open>reassemble_and_deliver\<close> frees their data): the list found at its position is replaced.
\<close>

definition rx_manager_store ::
  "nr_rlc_rx_manager_t \<Rightarrow> int \<Rightarrow> nr_rlc_pdu_t list \<Rightarrow> nr_rlc_rx_manager_t option" where
  "rx_manager_store m sn l = do {
     rx_list \<leftarrow> mem_write (rxm_rx_list m) (get_pos m sn) l;
     Some (m\<lparr>rxm_rx_list := rx_list\<rparr>)
   }"

section \<open>A window of slots\<close>

locale sn_store =
  fixes inv :: "'m \<Rightarrow> bool"
    and capacity :: "'m \<Rightarrow> int"
    and first :: "'m \<Rightarrow> int"
    and slot :: "'m \<Rightarrow> int \<Rightarrow> 'p list"
    and lookup :: "'m \<Rightarrow> int \<Rightarrow> 'p list option"
    and store :: "'m \<Rightarrow> int \<Rightarrow> 'p list \<Rightarrow> 'm option"
    and shift :: "'m \<Rightarrow> int \<Rightarrow> int \<Rightarrow> 'm"
  assumes capacity_pos: "inv m \<Longrightarrow> 0 < capacity m"
    and first_range: "inv m \<Longrightarrow> 0 \<le> first m \<and> first m < 2 * capacity m"
    and lookup_slot: "inv m \<Longrightarrow> 0 \<le> sn \<Longrightarrow> sn < 2 * capacity m \<Longrightarrow>
      lookup m sn = Some (slot m (circ_dist (2 * capacity m) (first m) sn mod capacity m))"
    and store_slot: "inv m \<Longrightarrow> 0 \<le> sn \<Longrightarrow> sn < 2 * capacity m \<Longrightarrow>
      \<exists>m'. store m sn l = Some m' \<and> inv m' \<and> capacity m' = capacity m \<and> first m' = first m \<and>
        (\<forall>d. 0 \<le> d \<and> d < capacity m \<longrightarrow> slot m' d =
          (if d = circ_dist (2 * capacity m) (first m) sn mod capacity m then l else slot m d))"
    and shift_slot: "inv m \<Longrightarrow> 0 \<le> n \<Longrightarrow> 0 \<le> sn \<Longrightarrow> sn < 2 * capacity m \<Longrightarrow>
      inv (shift m n sn) \<and> capacity (shift m n sn) = capacity m \<and> first (shift m n sn) = sn \<and>
        (\<forall>d. 0 \<le> d \<and> d < capacity m \<longrightarrow> slot (shift m n sn) d = slot m ((d + n) mod capacity m))"
begin

definition idx :: "'m \<Rightarrow> int \<Rightarrow> int" where
  "idx m sn = circ_dist (2 * capacity m) (first m) sn"

definition in_window :: "'m \<Rightarrow> int \<Rightarrow> bool" where
  "in_window m sn \<longleftrightarrow> 0 \<le> sn \<and> sn < 2 * capacity m \<and> idx m sn < capacity m"

lemma idx_range: "inv m \<Longrightarrow> 0 \<le> idx m sn \<and> idx m sn < 2 * capacity m"
  using capacity_pos [of m] circ_dist_bounds [of "2 * capacity m" "first m" sn] by (simp add: idx_def)

lemma lookup_in: "inv m \<Longrightarrow> in_window m sn \<Longrightarrow> lookup m sn = Some (slot m (idx m sn))"
  using lookup_slot [of m sn] idx_range [of m sn] by (simp add: in_window_def idx_def)

lemma lookup_defined: "inv m \<Longrightarrow> 0 \<le> sn \<Longrightarrow> sn < 2 * capacity m \<Longrightarrow> \<exists>l. lookup m sn = Some l"
  using lookup_slot [of m sn] by simp

lemma idx_inj:
  assumes "inv m" "in_window m sn" "in_window m sn'" "idx m sn = idx m sn'"
  shows "sn = sn'"
  using circ_dist_inj [of sn "2 * capacity m" sn' "first m"] first_range [OF assms(1)] assms
  by (simp add: in_window_def idx_def)

lemma store_lookup:
  assumes "inv m" "in_window m sn" "store m sn l = Some m'"
  shows "inv m'" "capacity m' = capacity m" "first m' = first m"
    "lookup m' sn = Some l"
    "in_window m sn' \<Longrightarrow> sn' \<noteq> sn \<Longrightarrow> lookup m' sn' = lookup m sn'"
    "0 \<le> d \<Longrightarrow> d < capacity m \<Longrightarrow> slot m' d = (if d = idx m sn then l else slot m d)"
proof -
  have r: "0 \<le> idx m sn" "idx m sn < capacity m" using idx_range [OF assms(1), of sn] assms(2)
    by (auto simp: in_window_def)
  from store_slot [of m sn l] assms r show m': "inv m'" "capacity m' = capacity m" "first m' = first m"
    and sl: "0 \<le> d \<Longrightarrow> d < capacity m \<Longrightarrow> slot m' d = (if d = idx m sn then l else slot m d)" for d
    by (auto simp: in_window_def idx_def)
  have same: "idx m' = idx m" "in_window m' = in_window m"
    using m' by (auto simp: fun_eq_iff idx_def in_window_def)
  show "lookup m' sn = Some l"
    using lookup_in [OF m'(1), of sn] same assms(2) sl [of "idx m sn"] r by simp
  show "lookup m' sn' = lookup m sn'" if "in_window m sn'" "sn' \<noteq> sn"
    using lookup_in [OF m'(1), of sn'] lookup_in [OF assms(1) that(1)] same that sl [of "idx m sn'"]
      idx_inj [OF assms(1) that(1) assms(2)] idx_range [OF assms(1), of sn']
    by (auto simp: in_window_def)
qed

lemma store_defined: "inv m \<Longrightarrow> in_window m sn \<Longrightarrow> \<exists>m'. store m sn l = Some m'"
  using store_slot [of m sn l] by (auto simp: in_window_def)

text \<open>The window moves by \<open>n\<close>: its first \<open>n\<close> slots become the last ones.\<close>

lemma shift_window:
  assumes "inv m" "0 \<le> n" "n \<le> capacity m"
  defines "m' \<equiv> shift m n ((first m + n) mod (2 * capacity m))"
  shows "inv m'" "capacity m' = capacity m" "first m' = (first m + n) mod (2 * capacity m)"
    "0 \<le> d \<Longrightarrow> d + n < capacity m \<Longrightarrow> slot m' d = slot m (d + n)"
    "d < capacity m \<Longrightarrow> capacity m \<le> d + n \<Longrightarrow> slot m' d = slot m (d + n - capacity m)"
proof -
  have sn: "0 \<le> (first m + n) mod (2 * capacity m)" "(first m + n) mod (2 * capacity m) < 2 * capacity m"
    using capacity_pos [OF assms(1)] by simp_all
  from shift_slot [OF assms(1,2) sn] show "inv m'" "capacity m' = capacity m"
    "first m' = (first m + n) mod (2 * capacity m)" by (auto simp: m'_def)
  have sl: "0 \<le> d \<Longrightarrow> d < capacity m \<Longrightarrow> slot m' d = slot m ((d + n) mod capacity m)" for d
    using shift_slot [OF assms(1,2) sn] by (simp add: m'_def)
  show "slot m' d = slot m (d + n)" if "0 \<le> d" "d + n < capacity m"
    using sl [of d] that assms(2) by simp
  show "slot m' d = slot m (d + n - capacity m)" if "d < capacity m" "capacity m \<le> d + n"
  proof -
    have "(d + n) mod capacity m = (d + n - capacity m) mod capacity m" by simp
    also have "\<dots> = d + n - capacity m" using that assms(2,3) by (intro mod_pos_pos_trivial) auto
    finally show ?thesis using sl [of d] that assms(3) by simp
  qed
qed

lemma shift_lookup:
  assumes "inv m" "0 \<le> n" "n \<le> capacity m" "\<forall>d. 0 \<le> d \<and> d < n \<longrightarrow> slot m d = []"
  defines "m' \<equiv> shift m n ((first m + n) mod (2 * capacity m))"
  shows "inv m' \<and> (\<forall>sn. in_window m' sn \<longrightarrow>
    lookup m' sn = (if in_window m sn then lookup m sn else Some []))"
proof (intro conjI allI impI)
  note sh = shift_window [OF assms(1-3)]
  show ok: "inv m'" using sh(1) by (simp add: m'_def)
  fix sn assume w: "in_window m' sn"
  let ?c = "capacity m" and ?d = "idx m' sn"
  have cap: "capacity m' = ?c" "first m' = (first m + n) mod (2 * ?c)" using sh by (simp_all add: m'_def)
  have d: "0 \<le> ?d" "?d < ?c" "0 \<le> sn" "sn < 2 * ?c"
    using idx_range [OF ok, of sn] w cap by (auto simp: in_window_def)
  have "idx m sn = (?d + n) mod (2 * ?c)"
    by (simp add: idx_def circ_dist_def cap mod_simps)
  then have i: "idx m sn = (if ?d + n < 2 * ?c then ?d + n else 0)" "?d + n < 2 * ?c"
    using d assms(2,3) by auto
  have "lookup m' sn = Some (slot m' ?d)" by (rule lookup_in [OF ok w])
  also have "slot m' ?d = (if ?d + n < ?c then slot m (?d + n) else [])"
    using sh(4,5) [of ?d] d assms(2-4) by (auto simp: m'_def)
  finally show "lookup m' sn = (if in_window m sn then lookup m sn else Some [])"
    using i d lookup_in [OF assms(1), of sn] by (auto simp: in_window_def)
qed

end

section \<open>The circular buffer is such a window\<close>

definition rxm_ok :: "nr_rlc_rx_manager_t \<Rightarrow> bool" where
  "rxm_ok m \<longleftrightarrow> 0 < rxm_size m \<and> int (length (rxm_rx_list m)) = rxm_size m \<and>
     0 \<le> rxm_start m \<and> rxm_start m < rxm_size m \<and>
     0 \<le> rxm_sn_start m \<and> rxm_sn_start m < 2 * rxm_size m"

definition rxm_slot :: "nr_rlc_rx_manager_t \<Rightarrow> int \<Rightarrow> nr_rlc_pdu_t list" where
  "rxm_slot m d = rxm_rx_list m ! nat ((rxm_start m + d) mod rxm_size m)"

definition rxm_shift :: "nr_rlc_rx_manager_t \<Rightarrow> int \<Rightarrow> int \<Rightarrow> nr_rlc_rx_manager_t" where
  "rxm_shift m n sn = nr_rlc_rx_manager_set_start (nr_rlc_rx_manager_advance m n) sn"

lemma get_pos_slot:
  assumes "rxm_ok m" "0 \<le> sn" "sn < 2 * rxm_size m"
  shows "get_pos m sn = (rxm_start m + circ_dist (2 * rxm_size m) (rxm_sn_start m) sn mod rxm_size m) mod rxm_size m"
    "0 \<le> get_pos m sn" "get_pos m sn < int (length (rxm_rx_list m))"
proof -
  let ?n = "rxm_size m"
  have pos: "0 < ?n" using assms(1) by (simp add: rxm_ok_def)
  have "0 \<le> rxm_start m + (sn - rxm_sn_start m + ?n * 2)" using assms by (simp add: rxm_ok_def)
  then have g: "get_pos m sn = (rxm_start m + (sn - rxm_sn_start m + ?n * 2)) mod ?n"
    using pos by (simp add: get_pos_def)
  have "circ_dist (2 * ?n) (rxm_sn_start m) sn mod ?n = (sn - rxm_sn_start m) mod ?n"
    by (simp add: circ_dist_def mod_mod_cancel)
  moreover have "(sn - rxm_sn_start m + ?n * 2) mod ?n = (sn - rxm_sn_start m) mod ?n"
    using mod_mult_self1 [of "sn - rxm_sn_start m" 2 ?n] by (simp add: mult.commute)
  ultimately show "get_pos m sn = (rxm_start m + circ_dist (2 * ?n) (rxm_sn_start m) sn mod ?n) mod ?n"
    unfolding g by (metis mod_add_right_eq)
  show "0 \<le> get_pos m sn" "get_pos m sn < int (length (rxm_rx_list m))"
    using g pos assms(1) by (simp_all add: rxm_ok_def)
qed

lemma pos_eq_iff:
  fixes n :: int
  assumes "0 < n" "0 \<le> d" "d < n" "0 \<le> d'" "d' < n"
  shows "(s + d) mod n = (s + d') mod n \<longleftrightarrow> d = d'"
proof
  assume "(s + d) mod n = (s + d') mod n"
  then have "(s + d - s) mod n = (s + d' - s) mod n" by (rule mod_diff_cong) simp
  then show "d = d'" using assms by simp
qed simp

lemma rx_manager_store_slot:
  assumes "rxm_ok m" "0 \<le> sn" "sn < 2 * rxm_size m"
  shows "\<exists>m'. rx_manager_store m sn l = Some m' \<and> rxm_ok m' \<and> rxm_size m' = rxm_size m \<and>
    rxm_sn_start m' = rxm_sn_start m \<and>
    (\<forall>d. 0 \<le> d \<and> d < rxm_size m \<longrightarrow> rxm_slot m' d =
      (if d = circ_dist (2 * rxm_size m) (rxm_sn_start m) sn mod rxm_size m then l else rxm_slot m d))"
proof -
  let ?n = "rxm_size m" and ?i = "circ_dist (2 * rxm_size m) (rxm_sn_start m) sn mod rxm_size m"
  note g = get_pos_slot [OF assms]
  have pos: "0 < ?n" "int (length (rxm_rx_list m)) = ?n" using assms(1) by (simp_all add: rxm_ok_def)
  have i: "0 \<le> ?i" "?i < ?n" using pos by simp_all
  let ?m = "m\<lparr>rxm_rx_list := (rxm_rx_list m)[nat (get_pos m sn) := l]\<rparr>"
  have "rxm_slot ?m d = (if d = ?i then l else rxm_slot m d)" if "0 \<le> d" "d < ?n" for d
  proof -
    have bnd: "0 \<le> (rxm_start m + d) mod ?n" "(rxm_start m + d) mod ?n < int (length (rxm_rx_list m))"
      using pos by simp_all
    have "nat (get_pos m sn) = nat ((rxm_start m + d) mod ?n) \<longleftrightarrow> d = ?i"
      using pos_eq_iff [OF pos(1) i that, of "rxm_start m"] g(1,2) bnd(1) by (auto simp: eq_nat_nat_iff)
    then show ?thesis using bnd by (auto simp: rxm_slot_def nth_list_update)
  qed
  then show ?thesis
    using g assms(1) by (simp add: rx_manager_store_def mem_simps rxm_ok_def)
qed

interpretation rxm: sn_store rxm_ok rxm_size rxm_sn_start rxm_slot
  nr_rlc_rx_manager_get_pdu_from_sn rx_manager_store rxm_shift
proof
  fix m sn n l
  assume ok: "rxm_ok m"
  then show "0 < rxm_size m" "0 \<le> rxm_sn_start m \<and> rxm_sn_start m < 2 * rxm_size m"
    by (simp_all add: rxm_ok_def)
  show "nr_rlc_rx_manager_get_pdu_from_sn m sn =
      Some (rxm_slot m (circ_dist (2 * rxm_size m) (rxm_sn_start m) sn mod rxm_size m))"
    if "0 \<le> sn" "sn < 2 * rxm_size m"
    using get_pos_slot [OF ok that] by (simp add: nr_rlc_rx_manager_get_pdu_from_sn_def mem_simps rxm_slot_def)
  show "\<exists>m'. rx_manager_store m sn l = Some m' \<and> rxm_ok m' \<and> rxm_size m' = rxm_size m \<and>
      rxm_sn_start m' = rxm_sn_start m \<and>
      (\<forall>d. 0 \<le> d \<and> d < rxm_size m \<longrightarrow> rxm_slot m' d =
        (if d = circ_dist (2 * rxm_size m) (rxm_sn_start m) sn mod rxm_size m then l else rxm_slot m d))"
    if "0 \<le> sn" "sn < 2 * rxm_size m"
    by (rule rx_manager_store_slot [OF ok that])
  show "rxm_ok (rxm_shift m n sn) \<and> rxm_size (rxm_shift m n sn) = rxm_size m \<and>
      rxm_sn_start (rxm_shift m n sn) = sn \<and>
      (\<forall>d. 0 \<le> d \<and> d < rxm_size m \<longrightarrow> rxm_slot (rxm_shift m n sn) d = rxm_slot m ((d + n) mod rxm_size m))"
    if "0 \<le> n" "0 \<le> sn" "sn < 2 * rxm_size m"
    using ok that
    by (auto simp: rxm_shift_def nr_rlc_rx_manager_set_start_def nr_rlc_rx_manager_advance_def
        rxm_ok_def rxm_slot_def mod_simps ac_simps)
qed

lemma clear_pdu_store: "nr_rlc_rx_manager_clear_pdu m sn = rx_manager_store m sn []"
  by (simp add: nr_rlc_rx_manager_clear_pdu_def rx_manager_store_def)

lemma add_pdu_store:
  "nr_rlc_rx_manager_get_pdu_from_sn m (pdu_sn pdu) = Some l \<Longrightarrow>
   nr_rlc_rx_manager_add_pdu m pdu =
     rx_manager_store m (pdu_sn pdu) (list_add_before (\<lambda>cur. pdu_so cur > pdu_so pdu) pdu l)"
  by (simp add: nr_rlc_rx_manager_add_pdu_def rx_manager_store_def
      nr_rlc_rx_manager_get_pdu_from_sn_def Let_def)

lemma new_rx_manager_ok:
  "0 < sz \<Longrightarrow> rxm_ok (nr_rlc_new_rx_manager sz)"
  "0 < sz \<Longrightarrow> rxm_slot (nr_rlc_new_rx_manager sz) d = []"
proof -
  assume "0 < sz"
  moreover from this have "nat (d mod sz) < nat sz" by simp
  ultimately show "rxm_ok (nr_rlc_new_rx_manager sz)" "rxm_slot (nr_rlc_new_rx_manager sz) d = []"
    by (simp_all add: nr_rlc_new_rx_manager_def rxm_ok_def rxm_slot_def)
qed

lemma clear_rx_manager_new: "rxm_ok m \<Longrightarrow> nr_rlc_clear_rx_manager m = nr_rlc_new_rx_manager (rxm_size m)"
  by (cases m) (auto simp: nr_rlc_clear_rx_manager_def nr_rlc_new_rx_manager_def rxm_ok_def)

text \<open>
  C9. The circular buffer is the reception window it stands for. Moving the window by \<open>n\<close> sequence
  numbers whose slots are empty keeps, for every sequence number of the new window, the segments
  stored for it before; a sequence number that enters the window starts without segments.
\<close>

theorem rx_manager_window_moves:
  assumes "rxm_ok m" "0 \<le> n" "n \<le> rxm_size m" "\<forall>d. 0 \<le> d \<and> d < n \<longrightarrow> rxm_slot m d = []"
  defines "m' \<equiv> nr_rlc_rx_manager_set_start (nr_rlc_rx_manager_advance m n)
      ((rxm_sn_start m + n) mod (2 * rxm_size m))"
  shows "rxm_ok m' \<and> (\<forall>sn. rxm.in_window m' sn \<longrightarrow>
    nr_rlc_rx_manager_get_pdu_from_sn m' sn =
      (if rxm.in_window m sn then nr_rlc_rx_manager_get_pdu_from_sn m sn else Some []))"
  using rxm.shift_lookup [OF assms(1-4)] by (simp add: m'_def rxm_shift_def)

theorem rx_manager_window_moves_witness:
  "\<exists>m l. rxm_ok m \<and> l \<noteq> [] \<and>
     nr_rlc_rx_manager_get_pdu_from_sn m 3 = Some l \<and>
     nr_rlc_rx_manager_get_pdu_from_sn
       (nr_rlc_rx_manager_set_start (nr_rlc_rx_manager_advance m 3) 3) 3 = Some l"
proof -
  define p :: nr_rlc_pdu_t where "p = \<lparr>pdu_sn = 3, pdu_data = Some [7], pdu_size = 1, pdu_so = 0,
    pdu_is_first = True, pdu_is_last = False\<rparr>"
  define m where "m = \<lparr>rxm_rx_list = [[], [], [], [p]], rxm_size = 4, rxm_start = 0, rxm_sn_start = 0\<rparr>"
  have "rxm_slot m 0 = []" "rxm_slot m 1 = []" "rxm_slot m 2 = []"
    by (simp_all add: m_def rxm_slot_def)
  moreover have "d = 0 \<or> d = 1 \<or> d = 2" if "0 \<le> d \<and> d < (3::int)" for d using that by auto
  ultimately have "\<forall>d. 0 \<le> d \<and> d < 3 \<longrightarrow> rxm_slot m d = []" by metis
  then have "nr_rlc_rx_manager_get_pdu_from_sn
      (nr_rlc_rx_manager_set_start (nr_rlc_rx_manager_advance m 3) 3) 3 =
      nr_rlc_rx_manager_get_pdu_from_sn m 3"
    using rx_manager_window_moves [of m 3]
    by (simp add: m_def rxm_ok_def rxm.in_window_def rxm.idx_def circ_dist_def
        nr_rlc_rx_manager_set_start_def nr_rlc_rx_manager_advance_def)
  then show ?thesis
    by (intro exI [of _ m] exI [of _ "[p]"])
      (simp add: m_def rxm_ok_def nr_rlc_rx_manager_get_pdu_from_sn_def get_pos_def mem_read_def)
qed

end
