(* ===== verification/RLC_AM.thy ===== *)
theory RLC_AM
  imports RLC_Segments RLC_Rx_Manager
begin

text \<open>
  \<open>openair2/LAYER2/nr_rlc/nr_rlc_entity_am.c\<close>, the acknowledged-mode entity: its state and the
  reception of data PDUs (\<open>segment_already_received\<close> to \<open>reception_actions\<close>, and the data part of
  \<open>nr_rlc_entity_am_recv_pdu\<close>).
\<close>

section \<open>The entity\<close>

record nr_rlc_entity_am_t = nr_rlc_entity_t +
  am_t_poll_retransmit :: int
  am_t_reassembly :: int
  am_t_status_prohibit :: int
  am_poll_pdu :: int
  am_poll_byte :: int
  am_max_retx_threshold :: int
  am_sn_field_length :: int
  am_sn_modulus :: int
  am_window_size :: int
  am_rx_next :: int
  am_rx_next_status_trigger :: int
  am_rx_highest_status :: int
  am_rx_next_highest :: int
  am_status_triggered :: bool
  am_tx_next :: int
  am_tx_next_ack :: int
  am_poll_sn :: int
  am_pdu_without_poll :: int
  am_byte_without_poll :: int
  am_force_poll :: bool
  am_t_current :: u64
  am_t_log_buffer_full :: u64
  am_sdu_rejected :: int
  am_t_poll_retransmit_start :: u64
  am_t_reassembly_start :: u64
  am_t_status_prohibit_start :: u64
  am_rx :: nr_rlc_rx_manager_t
  am_rx_size :: int
  am_rx_maxsize :: int
  am_tx_list :: "seg list"
  am_tx_end :: "seg option"
  am_tx_size :: int
  am_tx_maxsize :: int
  am_wait_list :: "seg list"
  am_wait_end :: "seg option"
  am_retransmit_list :: "seg list"

type_synonym am = nr_rlc_entity_am_t

definition am_compute_pdu_header_size :: "am \<Rightarrow> seg \<Rightarrow> int" where
  "am_compute_pdu_header_size e s =
     2 + (if am_sn_field_length e = 18 then 1 else 0) + (if \<not> seg_is_first s then 2 else 0)"

section \<open>Sequence numbers\<close>

definition am_modulus_rx :: "am \<Rightarrow> int \<Rightarrow> int" where
  "am_modulus_rx e a = (let r = a - am_rx_next e in if r < 0 then r + am_sn_modulus e else r)"

definition am_modulus_tx :: "am \<Rightarrow> int \<Rightarrow> int" where
  "am_modulus_tx e a = (let r = a - am_tx_next_ack e in if r < 0 then r + am_sn_modulus e else r)"

definition am_sn_in_recv_window :: "am \<Rightarrow> int \<Rightarrow> bool" where
  "am_sn_in_recv_window e sn \<longleftrightarrow> am_modulus_rx e sn < am_window_size e"

definition am_sn_compare_rx :: "am \<Rightarrow> int \<Rightarrow> int \<Rightarrow> int" where
  "am_sn_compare_rx e a b = am_modulus_rx e a - am_modulus_rx e b"

definition am_sn_compare_tx :: "am \<Rightarrow> int \<Rightarrow> int \<Rightarrow> int" where
  "am_sn_compare_tx e a b = am_modulus_tx e a - am_modulus_tx e b"

section \<open>Reception of data PDUs\<close>

definition segment_already_received :: "am \<Rightarrow> int \<Rightarrow> int \<Rightarrow> int \<Rightarrow> bool option" where
  "segment_already_received e sn so sz = do {
     l \<leftarrow> nr_rlc_rx_manager_get_pdu_from_sn (am_rx e) sn;
     Some (already_received_loop l so sz)
   }"

definition sdu_full :: "am \<Rightarrow> int \<Rightarrow> bool option" where
  "sdu_full e sn = do {
     l \<leftarrow> nr_rlc_rx_manager_get_pdu_from_sn (am_rx e) sn;
     Some (if already_processed l then False else sdu_full_loop l (-1))
   }"

definition sdu_delivered :: "am \<Rightarrow> int \<Rightarrow> bool option" where
  "sdu_delivered e sn = do {
     l \<leftarrow> nr_rlc_rx_manager_get_pdu_from_sn (am_rx e) sn;
     Some (already_processed l)
   }"

definition sdu_has_missing_bytes :: "am \<Rightarrow> int \<Rightarrow> bool option" where
  "sdu_has_missing_bytes e sn = do {
     l \<leftarrow> nr_rlc_rx_manager_get_pdu_from_sn (am_rx e) sn;
     Some (if already_processed l then False else missing_bytes_loop l (-1))
   }"

definition am_reassemble_and_deliver :: "am \<Rightarrow> int \<Rightarrow> am option" where
  "am_reassemble_and_deliver e sn = do {
     l \<leftarrow> nr_rlc_rx_manager_get_pdu_from_sn (am_rx e) sn;
     (l, so, bad_sdu, sdu, rx_size) \<leftarrow> reassemble_loop l 0 False [] (am_rx_size e);
     rx \<leftarrow> rx_manager_store (am_rx e) sn l;
     let e = e\<lparr>am_rx := rx, am_rx_size := rx_size\<rparr>;
     if bad_sdu then Some e
     else Some (stats_update (txsdu_pkts_update (\<lambda>n. n + 1)) (emit (Deliver_sdu sdu) e))
   }"

text \<open>
  The scan of \<open>rx_highest_status\<close> stops at the first sequence number that is not delivered; the loop
  over \<open>rx_next\<close> frees the delivered SDUs at the head of the window.
\<close>

partial_function (option) delivered_scan :: "am \<Rightarrow> int \<Rightarrow> int option" where
  "delivered_scan e sn = do {
     d \<leftarrow> sdu_delivered e sn;
     if d then delivered_scan e (cmod (sn + 1) (am_sn_modulus e)) else Some sn
   }"

declare delivered_scan.simps [code]

partial_function (option) free_delivered ::
  "int \<Rightarrow> nr_rlc_rx_manager_t \<Rightarrow> int \<Rightarrow> int \<Rightarrow> (nr_rlc_rx_manager_t \<times> int \<times> int) option" where
  "free_delivered sn_modulus rx rx_next cnt = do {
     l \<leftarrow> nr_rlc_rx_manager_get_pdu_from_sn rx rx_next;
     if already_processed l
     then do {
       rx \<leftarrow> nr_rlc_rx_manager_clear_pdu rx rx_next;
       free_delivered sn_modulus rx (cmod (rx_next + 1) sn_modulus) (cnt + 1)
     }
     else Some (rx, rx_next, cnt)
   }"

declare free_delivered.simps [code]

definition update_rx_highest_status :: "am \<Rightarrow> int \<Rightarrow> am option" where
  "update_rx_highest_status e x =
     (if x = am_rx_highest_status e
      then do {
        sn \<leftarrow> delivered_scan e (am_rx_highest_status e);
        Some (e\<lparr>am_rx_highest_status := sn\<rparr>)
      }
      else Some e)"

definition update_rx_next :: "am \<Rightarrow> int \<Rightarrow> am option" where
  "update_rx_next e x =
     (if x = am_rx_next e
      then do {
        (rx, rx_next, cnt) \<leftarrow> free_delivered (am_sn_modulus e) (am_rx e) (am_rx_next e) 0;
        Some (e\<lparr>am_rx_next := rx_next,
          am_rx := nr_rlc_rx_manager_set_start (nr_rlc_rx_manager_advance rx cnt) rx_next\<rparr>)
      }
      else Some e)"

definition stop_t_reassembly :: "am \<Rightarrow> am option" where
  "stop_t_reassembly e =
     (if am_t_reassembly_start e \<noteq> 0
      then do {
        near \<leftarrow> (if am_rx_next_status_trigger e = am_rx_next e then Some True
          else if am_rx_next_status_trigger e = cmod (am_rx_next e + 1) (am_sn_modulus e)
          then do { missing \<leftarrow> sdu_has_missing_bytes e (am_rx_next e); Some (\<not> missing) }
          else Some False);
        Some (if near \<or>
                 (\<not> am_sn_in_recv_window e (am_rx_next_status_trigger e) \<and>
                  am_rx_next_status_trigger e \<noteq> cmod (am_rx_next e + am_window_size e) (am_sn_modulus e))
              then e\<lparr>am_t_reassembly_start := 0\<rparr> else e)
      }
      else Some e)"

definition start_t_reassembly :: "am \<Rightarrow> am option" where
  "start_t_reassembly e =
     (if am_t_reassembly_start e = 0
      then do {
        gap \<leftarrow> (if am_sn_compare_rx e (am_rx_next_highest e) (cmod (am_rx_next e + 1) (am_sn_modulus e)) > 0
          then Some True
          else if am_rx_next_highest e = cmod (am_rx_next e + 1) (am_sn_modulus e)
          then sdu_has_missing_bytes e (am_rx_next e)
          else Some False);
        Some (if gap
              then e\<lparr>am_t_reassembly_start := am_t_current e,
                     am_rx_next_status_trigger := am_rx_next_highest e\<rparr> else e)
      }
      else Some e)"

definition reception_actions :: "am \<Rightarrow> nr_rlc_pdu_t \<Rightarrow> am option" where
  "reception_actions e pdu = do {
     let x = pdu_sn pdu;
     let e = (if am_sn_compare_rx e x (am_rx_next_highest e) \<ge> 0
              then e\<lparr>am_rx_next_highest := cmod (x + 1) (am_sn_modulus e)\<rparr> else e);
     full \<leftarrow> sdu_full e x;
     e \<leftarrow> (if full
       then do {
         e \<leftarrow> am_reassemble_and_deliver e x;
         e \<leftarrow> update_rx_highest_status e x;
         update_rx_next e x
       }
       else Some e);
     e \<leftarrow> stop_t_reassembly e;
     start_t_reassembly e
   }"

text \<open>
  The data part of \<open>nr_rlc_entity_am_recv_pdu\<close>.
\<close>

definition am_discard_pdu :: "am \<Rightarrow> int \<Rightarrow> int \<Rightarrow> am option" where
  "am_discard_pdu e sz p = (
     let e = (if p \<noteq> 0 then e\<lparr>am_status_triggered := True\<rparr> else e)
     in Some (stats_update (rxpdu_dd_pkts_update (\<lambda>n. n + 1) \<circ>
          rxpdu_dd_bytes_update (\<lambda>n. n + of_int sz)) e))"

definition am_recv_segment ::
  "am \<Rightarrow> byte list \<Rightarrow> int \<Rightarrow> int \<Rightarrow> int \<Rightarrow> int \<Rightarrow> bool \<Rightarrow> bool \<Rightarrow> nr_rlc_pdu_decoder_t \<Rightarrow> am option" where
  "am_recv_segment e buffer sz p sn so is_first is_last d = do {
     let data_size = sz - dec_byte d;
     if data_size \<le> 0 then am_discard_pdu e sz p
     else if am_rx_size e + data_size > am_rx_maxsize e then am_discard_pdu e sz p
     else if \<not> am_sn_in_recv_window e sn
     then am_discard_pdu (stats_update (rxpdu_ow_pkts_update (\<lambda>n. n + 1) \<circ>
            rxpdu_ow_bytes_update (\<lambda>n. n + of_int sz)) e) sz p
     else do {
       dup \<leftarrow> segment_already_received e sn so data_size;
       if dup
       then am_discard_pdu (stats_update (rxpdu_dup_pkts_update (\<lambda>n. n + 1) \<circ>
              rxpdu_dup_bytes_update (\<lambda>n. n + of_int sz)) e) sz p
       else do {
         data \<leftarrow> mem_slice buffer (sz - data_size) data_size;
         pdu \<leftarrow> nr_rlc_new_pdu sn so is_first is_last data data_size;
         rx \<leftarrow> nr_rlc_rx_manager_add_pdu (am_rx e) pdu;
         e \<leftarrow> reception_actions (e\<lparr>am_rx_size := am_rx_size e + data_size, am_rx := rx\<rparr>) pdu;
         Some (if p \<noteq> 0 then e\<lparr>am_status_triggered := True\<rparr> else e)
       }
     }
   }"

definition am_recv_data_pdu :: "am \<Rightarrow> byte list \<Rightarrow> int \<Rightarrow> nr_rlc_pdu_decoder_t \<Rightarrow> am option" where
  "am_recv_data_pdu e buffer sz d =
     get_field d 1 (am_discard_pdu e sz) (\<lambda>p d.
     get_field d 2 (\<lambda>_. am_discard_pdu e sz p) (\<lambda>si d.
     let is_first = (si AND 2 = 0); is_last = (si AND 1 = 0) in
     (\<lambda>k. if am_sn_field_length e = 18 then get_field d 2 (\<lambda>_. am_discard_pdu e sz p) (\<lambda>_. k) else k d) (\<lambda>d.
     get_field d (am_sn_field_length e) (\<lambda>_. am_discard_pdu e sz p) (\<lambda>sn d.
     if is_first then am_recv_segment e buffer sz p sn 0 is_first is_last d
     else get_field d 16 (\<lambda>_. am_discard_pdu e sz p) (\<lambda>so d.
     if so = 0 then am_discard_pdu e sz p
     else am_recv_segment e buffer sz p sn so is_first is_last d)))))"

end
