(* ===== verification/RLC_AM_Rx.thy ===== *)
theory RLC_AM_Rx
  imports RLC_AM
begin

text \<open>
  Correctness of the reception of data PDUs by an AM entity.

  \<open>am_rx_ok\<close> is the invariant of the receiving side: the reception window is aligned with \<open>rx_next\<close>,
  every slot is a well-formed segment list that is delivered as soon as it is complete, \<open>rx_next\<close>,
  \<open>rx_highest_status\<close> and \<open>rx_next_highest\<close> are in this order in the window, the running
  reassembly timer has its trigger between them, and the received bytes are accounted for. Every
  received PDU, also one no conforming peer sends, keeps it, and the call returns, unless every
  sequence number of the window is delivered at once (\<open>window_closes_forever\<close>).

  \<open>rx_holds f N e\<close> says that what the entity holds are pieces of the SDUs \<open>f c\<close> of a peer, \<open>N\<close> being
  the count of \<open>rx_next\<close>; under it, the SDUs are delivered intact and at most once.
\<close>

section \<open>Configuration and window\<close>

definition am_cfg :: "am \<Rightarrow> bool" where
  "am_cfg e \<longleftrightarrow> (am_sn_field_length e = 12 \<or> am_sn_field_length e = 18) \<and>
     am_sn_modulus e = 2 ^ nat (am_sn_field_length e) \<and>
     am_window_size e = 2 ^ nat (am_sn_field_length e - 1)"

lemma am_cfg_facts:
  assumes "am_cfg e"
  shows "am_sn_modulus e = 2 * am_window_size e" "0 < am_window_size e" "1 < am_window_size e"
  using assms by (auto simp: am_cfg_def)

definition am_rx_base :: "am \<Rightarrow> bool" where
  "am_rx_base e \<longleftrightarrow> am_cfg e \<and> rxm_ok (am_rx e) \<and> rxm_size (am_rx e) = am_window_size e \<and>
     rxm_sn_start (am_rx e) = am_rx_next e"

definition rx_dist :: "am \<Rightarrow> int \<Rightarrow> int" where
  "rx_dist e sn = circ_dist (am_sn_modulus e) (am_rx_next e) sn"

abbreviation rx_slot :: "am \<Rightarrow> int \<Rightarrow> nr_rlc_pdu_t list" where
  "rx_slot e d \<equiv> rxm_slot (am_rx e) d"

definition rx_sn :: "am \<Rightarrow> int \<Rightarrow> int" where
  "rx_sn e d = (am_rx_next e + d) mod am_sn_modulus e"

definition sn_valid :: "am \<Rightarrow> int \<Rightarrow> bool" where
  "sn_valid e sn \<longleftrightarrow> 0 \<le> sn \<and> sn < am_sn_modulus e"

lemma am_rx_baseD:
  assumes "am_rx_base e"
  shows "rxm_ok (am_rx e)" "rxm_size (am_rx e) = am_window_size e" "rxm_sn_start (am_rx e) = am_rx_next e"
    "am_cfg e" "am_sn_modulus e = 2 * am_window_size e" "1 < am_window_size e" "sn_valid e (am_rx_next e)"
  using assms am_cfg_facts [of e] rxm.first_range [of "am_rx e"]
  by (auto simp: am_rx_base_def sn_valid_def)

lemma am_modulus_rx_dist:
  "sn_valid e (am_rx_next e) \<Longrightarrow> sn_valid e a \<Longrightarrow> am_modulus_rx e a = rx_dist e a"
  by (simp add: am_modulus_rx_def rx_dist_def circ_dist_wrap sn_valid_def Let_def)

interpretation amrx: sn_order am_rx_base am_sn_modulus am_rx_next am_sn_compare_rx
proof
  fix e assume "am_rx_base e"
  note b = am_rx_baseD [OF this]
  show "0 < am_sn_modulus e" using b(5,6) by simp
  show "0 \<le> am_rx_next e \<and> am_rx_next e < am_sn_modulus e" using b(7) by (simp add: sn_valid_def)
  show "am_sn_compare_rx e a c = circ_dist (am_sn_modulus e) (am_rx_next e) a - circ_dist (am_sn_modulus e) (am_rx_next e) c"
    if "0 \<le> a" "a < am_sn_modulus e" "0 \<le> c" "c < am_sn_modulus e" for a c
    using am_modulus_rx_dist [OF b(7), of a] am_modulus_rx_dist [OF b(7), of c] that
    by (simp add: am_sn_compare_rx_def sn_valid_def rx_dist_def)
qed

lemma rx_dist_range: "am_rx_base e \<Longrightarrow> 0 \<le> rx_dist e sn \<and> rx_dist e sn < am_sn_modulus e"
  using amrx.modulus_pos [of e] by (simp add: rx_dist_def circ_dist_def)

lemma rx_sn_valid [simp]: "am_rx_base e \<Longrightarrow> sn_valid e (rx_sn e d)"
  using amrx.modulus_pos [of e] by (simp add: sn_valid_def rx_sn_def)

lemma rx_dist_sn: "am_rx_base e \<Longrightarrow> 0 \<le> d \<Longrightarrow> d < am_sn_modulus e \<Longrightarrow> rx_dist e (rx_sn e d) = d"
  by (simp add: rx_dist_def rx_sn_def circ_dist_def mod_simps)

lemma rx_sn_dist: "am_rx_base e \<Longrightarrow> sn_valid e sn \<Longrightarrow> rx_sn e (rx_dist e sn) = sn"
  by (simp add: rx_dist_def rx_sn_def circ_dist_def mod_simps sn_valid_def)

lemma rx_sn_0: "am_rx_base e \<Longrightarrow> rx_sn e 0 = am_rx_next e"
  using amrx.base_range [of e] by (simp add: rx_sn_def)

lemma rx_sn_Suc:
  "am_rx_base e \<Longrightarrow> cmod (rx_sn e d + 1) (am_sn_modulus e) = rx_sn e (d + 1)"
  using amrx.modulus_pos [of e] by (simp add: rx_sn_def mod_simps add.assoc)

lemma sn_compare_rx_dist:
  "am_rx_base e \<Longrightarrow> sn_valid e a \<Longrightarrow> sn_valid e b \<Longrightarrow> am_sn_compare_rx e a b = rx_dist e a - rx_dist e b"
  using amrx.cmp_dist [of e a b] by (simp add: rx_dist_def sn_valid_def)

lemma sn_in_recv_window_dist:
  "am_rx_base e \<Longrightarrow> sn_valid e sn \<Longrightarrow> am_sn_in_recv_window e sn \<longleftrightarrow> rx_dist e sn < am_window_size e"
  using am_rx_baseD(7) by (simp add: am_sn_in_recv_window_def am_modulus_rx_dist)

lemma rxm_idx_dist: "am_rx_base e \<Longrightarrow> rxm.idx (am_rx e) sn = rx_dist e sn"
  by (simp add: rxm.idx_def rx_dist_def am_rx_baseD)

lemma rxm_in_window:
  "am_rx_base e \<Longrightarrow> rxm.in_window (am_rx e) sn \<longleftrightarrow> sn_valid e sn \<and> rx_dist e sn < am_window_size e"
  by (auto simp: rxm.in_window_def rxm_idx_dist am_rx_baseD sn_valid_def)

lemma rx_lookup:
  assumes "am_rx_base e" "sn_valid e sn"
  shows "nr_rlc_rx_manager_get_pdu_from_sn (am_rx e) sn = Some (rx_slot e (rx_dist e sn mod am_window_size e))"
  using rxm.lookup_slot [of "am_rx e" sn] assms
  by (simp add: am_rx_baseD sn_valid_def rx_dist_def)

lemma rx_lookup_in:
  "am_rx_base e \<Longrightarrow> sn_valid e sn \<Longrightarrow> rx_dist e sn < am_window_size e \<Longrightarrow>
   nr_rlc_rx_manager_get_pdu_from_sn (am_rx e) sn = Some (rx_slot e (rx_dist e sn))"
  using rx_dist_range [of e sn] by (simp add: rx_lookup)

lemma rx_base_cong:
  assumes "am_rx_base e" "am_rx e' = am_rx e" "am_rx_next e' = am_rx_next e"
    "am_sn_field_length e' = am_sn_field_length e" "am_sn_modulus e' = am_sn_modulus e"
    "am_window_size e' = am_window_size e"
  shows "am_rx_base e'" "rx_dist e' = rx_dist e" "sn_valid e' = sn_valid e" "rx_sn e' = rx_sn e"
  using assms by (auto simp: am_rx_base_def am_cfg_def rx_dist_def sn_valid_def rx_sn_def fun_eq_iff)

section \<open>The loops that look for delivered SDUs\<close>

definition slot_done :: "am \<Rightarrow> int \<Rightarrow> bool" where
  "slot_done e d \<longleftrightarrow> already_processed (rx_slot e (d mod am_window_size e))"

lemma sdu_delivered_slot:
  "am_rx_base e \<Longrightarrow> 0 \<le> d \<Longrightarrow> d < am_sn_modulus e \<Longrightarrow> sdu_delivered e (rx_sn e d) = Some (slot_done e d)"
  by (simp add: sdu_delivered_def rx_lookup rx_dist_sn slot_done_def)

lemma delivered_scan_stops:
  assumes "am_rx_base e" "0 \<le> i" "i \<le> j" "j \<le> am_window_size e"
    and "\<forall>k. i \<le> k \<and> k < j \<longrightarrow> slot_done e k" "\<not> slot_done e j"
  shows "delivered_scan e (rx_sn e i) = Some (rx_sn e j)"
  using assms(2,3,5)
proof (induction "nat (j - i)" arbitrary: i)
  case 0
  then have "i = j" by simp
  moreover have "j < am_sn_modulus e" using assms(1,4) am_rx_baseD(5,6) [of e] by simp
  ultimately show ?case
    using assms(1,6) 0(2) by (subst delivered_scan.simps) (simp add: sdu_delivered_slot)
next
  case (Suc n)
  then have lt: "i < j" by simp
  then have "i < am_sn_modulus e" using assms(1,4) am_rx_baseD(5,6) [of e] by simp
  then have "sdu_delivered e (rx_sn e i) = Some True"
    using Suc.prems lt assms(1) by (simp add: sdu_delivered_slot)
  moreover have "delivered_scan e (rx_sn e (i + 1)) = Some (rx_sn e j)"
    using Suc.hyps(1) [of "i + 1"] Suc.hyps(2) Suc.prems lt by simp
  ultimately show ?case
    using assms(1) by (subst delivered_scan.simps) (simp add: rx_sn_Suc)
qed

lemma slot_done_all:
  assumes "am_rx_base e" "\<forall>d. 0 \<le> d \<and> d < am_window_size e \<longrightarrow> slot_done e d"
  shows "slot_done e k"
proof -
  have "0 < am_window_size e" using am_rx_baseD(6) [OF assms(1)] by simp
  then have "slot_done e (k mod am_window_size e)" using assms(2) by simp
  then show ?thesis by (simp add: slot_done_def)
qed

lemma delivered_scan_diverges:
  assumes "am_rx_base e" "\<forall>d. 0 \<le> d \<and> d < am_window_size e \<longrightarrow> slot_done e d" "sn_valid e sn"
  shows "delivered_scan e sn = None"
proof (rule ccontr)
  let ?P = "\<lambda>e sn. am_rx_base e \<and> (\<forall>d. 0 \<le> d \<and> d < am_window_size e \<longrightarrow> slot_done e d) \<and> sn_valid e sn"
  assume "delivered_scan e sn \<noteq> None"
  then obtain y where "delivered_scan e sn = Some y" by auto
  then have "\<not> ?P e sn"
  proof (rule delivered_scan.raw_induct [where P = "\<lambda>e sn y. \<not> ?P e sn", rotated])
    fix scan e sn y
    assume IH: "\<And>e sn y. scan e sn = Some y \<Longrightarrow> \<not> ?P e sn"
      and body: "do { d \<leftarrow> sdu_delivered e sn;
        if d then scan e (cmod (sn + 1) (am_sn_modulus e)) else Some sn } = Some y"
    show "\<not> ?P e sn"
    proof
      assume P: "?P e sn"
      then have "sdu_delivered e sn = Some True"
        using slot_done_all [of e] sdu_delivered_slot [of e "rx_dist e sn"] by (simp add: rx_sn_dist rx_dist_range)
      then have "scan e (cmod (sn + 1) (am_sn_modulus e)) = Some y" using body by simp
      moreover have "sn_valid e (cmod (sn + 1) (am_sn_modulus e))"
        using P amrx.modulus_pos [of e] by (simp add: sn_valid_def)
      ultimately show False using IH P by blast
    qed
  qed
  then show False using assms by simp
qed

definition rx_stored :: "nr_rlc_rx_manager_t \<Rightarrow> int" where
  "rx_stored m = (\<Sum>l\<leftarrow>rxm_rx_list m. stored_bytes l)"

lemma rx_stored_store:
  assumes "nr_rlc_rx_manager_get_pdu_from_sn m sn = Some l" "rx_manager_store m sn l' = Some m'"
  shows "rx_stored m' = rx_stored m - stored_bytes l + stored_bytes l'"
proof -
  let ?i = "nat (get_pos m sn)"
  have i: "?i < length (rxm_rx_list m)" "l = rxm_rx_list m ! ?i" "m' = m\<lparr>rxm_rx_list := (rxm_rx_list m)[?i := l']\<rparr>"
    using assms by (auto simp: nr_rlc_rx_manager_get_pdu_from_sn_def rx_manager_store_def mem_read_def
        mem_write_def split: if_splits)
  then show ?thesis
    by (simp add: rx_stored_def sum_list_list_update)
qed

lemma rx_stored_shift [simp]: "rx_stored (rxm_shift m n sn) = rx_stored m"
  by (simp add: rx_stored_def rxm_shift_def nr_rlc_rx_manager_set_start_def nr_rlc_rx_manager_advance_def)

lemma free_delivered_run:
  assumes "rxm_ok m" "rxm_size m = W" "0 \<le> c" "c \<le> n" "n \<le> W"
    and "\<forall>k. c \<le> k \<and> k < n \<longrightarrow> already_processed (rxm_slot m k)" "\<forall>k. 0 \<le> k \<and> k < c \<longrightarrow> rxm_slot m k = []"
    and "n < W \<Longrightarrow> \<not> already_processed (rxm_slot m n)"
  shows "\<exists>m'. free_delivered (2 * W) m ((rxm_sn_start m + c) mod (2 * W)) c =
      Some (m', (rxm_sn_start m + n) mod (2 * W), n) \<and> rxm_ok m' \<and> rxm_size m' = W \<and>
      rxm_sn_start m' = rxm_sn_start m \<and>
      rx_stored m' = rx_stored m - (\<Sum>k = c..<n. stored_bytes (rxm_slot m k)) \<and>
      (\<forall>k. 0 \<le> k \<and> k < W \<longrightarrow> rxm_slot m' k = (if k < n then [] else rxm_slot m k))"
  using assms(1-4,6-8)
proof (induction "nat (n - c)" arbitrary: c m)
  case 0
  then have [simp]: "c = n" by simp
  have W: "0 < W" using 0 rxm.capacity_pos by auto
  let ?sn = "(rxm_sn_start m + n) mod (2 * W)"
  have "circ_dist (2 * W) (rxm_sn_start m) ?sn = n"
    using 0 assms(5) W by (simp add: circ_dist_def mod_simps)
  then have "nr_rlc_rx_manager_get_pdu_from_sn m ?sn = Some (rxm_slot m (n mod W))"
    using rxm.lookup_slot [of m ?sn] 0 W by simp
  moreover have "\<not> already_processed (rxm_slot m (n mod W))"
    using 0 assms(5) W by (cases "n = W") auto
  ultimately show ?case
    using 0 by (subst free_delivered.simps) auto
next
  case (Suc k)
  then have lt: "c < n" "c < W" using assms(5) by simp_all
  have W: "0 < W" using lt Suc.prems by simp
  let ?sn = "(rxm_sn_start m + c) mod (2 * W)"
  have d: "circ_dist (2 * W) (rxm_sn_start m) ?sn = c"
    using Suc.prems(3) lt W by (simp add: circ_dist_def mod_simps)
  have win: "rxm.in_window m ?sn" "rxm.idx m ?sn = c"
    using d lt W Suc.prems(2) by (simp_all add: rxm.in_window_def rxm.idx_def)
  have l: "nr_rlc_rx_manager_get_pdu_from_sn m ?sn = Some (rxm_slot m c)"
    using rxm.lookup_in [OF Suc.prems(1) win(1)] win(2) by simp
  from rxm.store_defined [OF Suc.prems(1) win(1)] obtain m1 where
    m1: "rx_manager_store m ?sn [] = Some m1" by blast
  note st = rxm.store_lookup [OF Suc.prems(1) win(1) m1]
  have slot1: "rxm_slot m1 k = (if k = c then [] else rxm_slot m k)" if "0 \<le> k" "k < W" for k
    using st(6) [of k] that Suc.prems(2) win(2) by simp
  have nxt: "cmod (?sn + 1) (2 * W) = (rxm_sn_start m + (c + 1)) mod (2 * W)"
    using W by (simp add: mod_simps add.assoc)
  have sums: "(\<Sum>k = c + 1..<n. stored_bytes (rxm_slot m1 k)) = (\<Sum>k = c + 1..<n. stored_bytes (rxm_slot m k))"
    using Suc.prems(3) assms(5) slot1 by (intro sum.cong) auto
  have unfold: "free_delivered (2 * W) m ?sn c = free_delivered (2 * W) m1 ((rxm_sn_start m + (c + 1)) mod (2 * W)) (c + 1)"
    using Suc.prems(5) lt by (subst free_delivered.simps) (simp add: l m1 clear_pdu_store nxt)
  have "k = nat (n - (c + 1))" "0 \<le> c + 1" "c + 1 \<le> n" "rxm_size m1 = W"
    using Suc.hyps(2) Suc.prems(2,3) lt st(2) by simp_all
  moreover have "\<forall>k. c + 1 \<le> k \<and> k < n \<longrightarrow> already_processed (rxm_slot m1 k)"
    using Suc.prems(3,5) slot1 assms(5) by auto
  moreover have "\<forall>k. 0 \<le> k \<and> k < c + 1 \<longrightarrow> rxm_slot m1 k = []" using Suc.prems(6) slot1 lt by auto
  moreover have "\<not> already_processed (rxm_slot m1 n)" if "n < W"
    using Suc.prems(3,7) slot1 [of n] lt that by auto
  ultimately obtain m' where m': "free_delivered (2 * W) m1 ((rxm_sn_start m + (c + 1)) mod (2 * W)) (c + 1) =
      Some (m', (rxm_sn_start m + n) mod (2 * W), n)" "rxm_ok m'" "rxm_size m' = W"
      "rxm_sn_start m' = rxm_sn_start m"
      "rx_stored m' = rx_stored m1 - (\<Sum>k = c + 1..<n. stored_bytes (rxm_slot m1 k))"
      "\<forall>k. 0 \<le> k \<and> k < W \<longrightarrow> rxm_slot m' k = (if k < n then [] else rxm_slot m1 k)"
    using Suc.hyps(1) [of "c + 1" m1] st(1,3) by auto
  have "rxm_slot m' k = (if k < n then [] else rxm_slot m k)" if "0 \<le> k" "k < W" for k
    using m'(6) slot1 [of k] lt that by auto
  then show ?case
    using m'(1-5) unfold sums rx_stored_store [OF l m1] sum_int_first [OF lt(1), of "\<lambda>k. stored_bytes (rxm_slot m k)"]
    by auto
qed

section \<open>The invariant of the receiving side\<close>

definition am_slots_ok :: "am \<Rightarrow> bool" where
  "am_slots_ok e \<longleftrightarrow> (\<forall>d. 0 \<le> d \<and> d < am_window_size e \<longrightarrow> pdus_ok (rx_sn e d) (rx_slot e d))"

definition am_rx_window :: "am \<Rightarrow> bool" where
  "am_rx_window e \<longleftrightarrow> sn_valid e (am_rx_highest_status e) \<and> sn_valid e (am_rx_next_highest e) \<and>
     sn_valid e (am_rx_next_status_trigger e) \<and>
     rx_dist e (am_rx_highest_status e) \<le> rx_dist e (am_rx_next_highest e) \<and>
     rx_dist e (am_rx_next_highest e) \<le> am_window_size e \<and>
     (\<forall>d. rx_dist e (am_rx_next_highest e) \<le> d \<and> d < am_window_size e \<longrightarrow> rx_slot e d = []) \<and>
     (0 < rx_dist e (am_rx_next_highest e) \<longrightarrow> rx_slot e (rx_dist e (am_rx_next_highest e) - 1) \<noteq> [])"

definition am_rx_open :: "am \<Rightarrow> bool" where
  "am_rx_open e \<longleftrightarrow> \<not> slot_done e 0 \<and> \<not> slot_done e (rx_dist e (am_rx_highest_status e))"

definition am_timer_ok :: "am \<Rightarrow> bool" where
  "am_timer_ok e \<longleftrightarrow> am_t_reassembly_start e \<noteq> 0 \<longrightarrow>
     0 < rx_dist e (am_rx_next_status_trigger e) \<and>
     rx_dist e (am_rx_next_status_trigger e) \<le> rx_dist e (am_rx_next_highest e)"

definition am_rx_acct :: "am \<Rightarrow> bool" where
  "am_rx_acct e \<longleftrightarrow> rx_stored (am_rx e) \<le> am_rx_size e \<and> am_rx_size e \<le> am_rx_maxsize e"

definition am_rx_ok :: "am \<Rightarrow> bool" where
  "am_rx_ok e \<longleftrightarrow> am_rx_base e \<and> am_slots_ok e \<and> am_rx_window e \<and> am_rx_open e \<and> am_timer_ok e \<and> am_rx_acct e"

lemma first_open:
  fixes q :: "int \<Rightarrow> bool"
  assumes "i \<le> W"
  obtains j where "i \<le> j" "j \<le> W" "\<forall>k. i \<le> k \<and> k < j \<longrightarrow> q k" "j < W \<Longrightarrow> \<not> q j"
proof -
  have "\<exists>j. i \<le> j \<and> j \<le> W \<and> (\<forall>k. i \<le> k \<and> k < j \<longrightarrow> q k) \<and> (j < W \<longrightarrow> \<not> q j)"
    using assms
  proof (induction "nat (W - i)" arbitrary: i)
    case 0
    then show ?case by (intro exI [of _ i]) auto
  next
    case (Suc n)
    show ?case
    proof (cases "q i")
      case True
      have "n = nat (W - (i + 1))" "i + 1 \<le> W" using Suc.hyps(2) by simp_all
      from Suc.hyps(1) [OF this] obtain j where
        j: "i + 1 \<le> j" "j \<le> W" "\<forall>k. i + 1 \<le> k \<and> k < j \<longrightarrow> q k" "j < W \<longrightarrow> \<not> q j" by blast
      have "q k" if "i \<le> k" "k < j" for k using j(3) that True by (cases "k = i") auto
      then show ?thesis using j by (intro exI [of _ j]) auto
    next
      case False
      then show ?thesis using Suc.prems by (intro exI [of _ i]) auto
    qed
  qed
  then show ?thesis using that by blast
qed

section \<open>The steps of a reception\<close>

lemma am_stop_effect:
  assumes "sdu_has_missing_bytes e (am_rx_next e) = Some missing"
  shows "\<exists>near. (am_rx_next_status_trigger e = am_rx_next e \<longrightarrow> near) \<and>
    stop_t_reassembly e = Some (e\<lparr>am_t_reassembly_start :=
      if am_t_reassembly_start e \<noteq> 0 \<and> (near \<or> \<not> am_sn_in_recv_window e (am_rx_next_status_trigger e) \<and>
        am_rx_next_status_trigger e \<noteq> cmod (am_rx_next e + am_window_size e) (am_sn_modulus e))
      then 0 else am_t_reassembly_start e\<rparr>)"
proof -
  obtain near where near: "(if am_rx_next_status_trigger e = am_rx_next e then Some True
      else if am_rx_next_status_trigger e = cmod (am_rx_next e + 1) (am_sn_modulus e)
      then do { missing \<leftarrow> sdu_has_missing_bytes e (am_rx_next e); Some (\<not> missing) }
      else Some False) = Some near" "am_rx_next_status_trigger e = am_rx_next e \<longrightarrow> near"
    using assms by (cases "am_rx_next_status_trigger e = am_rx_next e";
        cases "am_rx_next_status_trigger e = cmod (am_rx_next e + 1) (am_sn_modulus e)") auto
  show ?thesis
    by (intro exI [of _ near] conjI near(2), unfold stop_t_reassembly_def near(1)) simp
qed

lemma am_start_effect:
  assumes "sdu_has_missing_bytes e (am_rx_next e) = Some missing"
    and "gap \<longleftrightarrow> am_t_reassembly_start e = 0 \<and>
    (am_sn_compare_rx e (am_rx_next_highest e) (cmod (am_rx_next e + 1) (am_sn_modulus e)) > 0 \<or>
     am_rx_next_highest e = cmod (am_rx_next e + 1) (am_sn_modulus e) \<and> missing)"
  shows "start_t_reassembly e = Some (e\<lparr>am_t_reassembly_start := if gap then am_t_current e else am_t_reassembly_start e,
    am_rx_next_status_trigger := if gap then am_rx_next_highest e else am_rx_next_status_trigger e\<rparr>)"
  unfolding start_t_reassembly_def assms by simp

lemma am_timers:
  assumes "am_rx_base e" "am_rx_window e"
    and "am_t_reassembly_start e \<noteq> 0 \<Longrightarrow>
      rx_dist e (am_rx_next_status_trigger e) = 0 \<or> rx_dist e (am_rx_next_status_trigger e) > am_window_size e \<or>
      rx_dist e (am_rx_next_status_trigger e) \<le> rx_dist e (am_rx_next_highest e)"
  obtains e1 ts trig where "stop_t_reassembly e = Some e1" "start_t_reassembly e1 =
      Some (e\<lparr>am_t_reassembly_start := ts, am_rx_next_status_trigger := trig\<rparr>)"
    "sn_valid e trig" "ts \<noteq> 0 \<Longrightarrow> 0 < rx_dist e trig \<and> rx_dist e trig \<le> rx_dist e (am_rx_next_highest e)"
proof -
  note b = am_rx_baseD [OF assms(1)]
  note w = assms(2) [unfolded am_rx_window_def]
  have one: "cmod (am_rx_next e + 1) (am_sn_modulus e) = rx_sn e 1"
    using rx_sn_Suc [OF assms(1), of 0] by (simp add: rx_sn_0 assms(1))
  have far: "cmod (am_rx_next e + am_window_size e) (am_sn_modulus e) = rx_sn e (am_window_size e)"
    using b(5-7) by (simp add: rx_sn_def sn_valid_def)
  have sub: "rx_dist e (rx_sn e 1) = 1" "rx_dist e (rx_sn e (am_window_size e)) = am_window_size e"
    using b(5,6) by (simp_all add: rx_dist_sn assms(1))
  obtain missing where miss: "sdu_has_missing_bytes e (am_rx_next e) = Some missing"
    using rx_lookup [OF assms(1) b(7)] by (auto simp: sdu_has_missing_bytes_def)
  have self: "rx_dist e (am_rx_next e) = 0" by (simp add: rx_dist_def)
  let ?t = "am_rx_next_status_trigger e"
  from am_stop_effect [OF miss] obtain near where
    near: "?t = am_rx_next e \<Longrightarrow> near" and stop: "stop_t_reassembly e = Some (e\<lparr>am_t_reassembly_start :=
      if am_t_reassembly_start e \<noteq> 0 \<and> (near \<or> \<not> am_sn_in_recv_window e ?t \<and> ?t \<noteq> rx_sn e (am_window_size e))
      then 0 else am_t_reassembly_start e\<rparr>)" unfolding far by blast
  define ts where "ts = (if am_t_reassembly_start e \<noteq> 0 \<and>
    (near \<or> \<not> am_sn_in_recv_window e ?t \<and> ?t \<noteq> rx_sn e (am_window_size e)) then 0 else am_t_reassembly_start e)"
  note stop = stop [folded ts_def]
  have ts: "0 < rx_dist e ?t \<and> rx_dist e ?t \<le> rx_dist e (am_rx_next_highest e)" if "ts \<noteq> 0"
  proof -
    have run: "am_t_reassembly_start e \<noteq> 0" "?t \<noteq> am_rx_next e"
      "am_sn_in_recv_window e ?t \<or> ?t = rx_sn e (am_window_size e)"
      using that near by (auto simp: ts_def split: if_splits)
    have "rx_dist e ?t \<noteq> 0" using run(2) rx_sn_dist [OF assms(1), of ?t] w by (auto simp: rx_sn_0 assms(1))
    moreover have "rx_dist e ?t \<le> am_window_size e"
      using run(3) sn_in_recv_window_dist [OF assms(1), of ?t] w sub(2) by auto
    ultimately show ?thesis using assms(3) [OF run(1)] rx_dist_range [OF assms(1), of ?t] by auto
  qed
  let ?e1 = "e\<lparr>am_t_reassembly_start := ts\<rparr>"
  have same: "am_rx_base ?e1" "rx_dist ?e1 = rx_dist e" "sn_valid ?e1 = sn_valid e"
    using rx_base_cong [OF assms(1), of ?e1] by simp_all
  have miss1: "sdu_has_missing_bytes ?e1 (am_rx_next e) = Some missing"
    using miss by (simp add: sdu_has_missing_bytes_def)
  have cmp: "am_sn_compare_rx ?e1 (am_rx_next_highest e) (rx_sn e 1) = rx_dist e (am_rx_next_highest e) - 1"
    using sn_compare_rx_dist [OF same(1), of "am_rx_next_highest e" "rx_sn e 1"] same(2,3) w sub(1)
    by (simp add: assms(1))
  define gap where "gap \<longleftrightarrow> ts = 0 \<and> (rx_dist e (am_rx_next_highest e) > 1 \<or> am_rx_next_highest e = rx_sn e 1 \<and> missing)"
  have g: "gap \<longleftrightarrow> am_t_reassembly_start ?e1 = 0 \<and>
      (am_sn_compare_rx ?e1 (am_rx_next_highest ?e1) (cmod (am_rx_next ?e1 + 1) (am_sn_modulus ?e1)) > 0 \<or>
       am_rx_next_highest ?e1 = cmod (am_rx_next ?e1 + 1) (am_sn_modulus ?e1) \<and> missing)"
    using cmp by (simp add: gap_def one)
  have start: "start_t_reassembly ?e1 = Some (e\<lparr>am_t_reassembly_start := if gap then am_t_current e else ts,
      am_rx_next_status_trigger := if gap then am_rx_next_highest e else ?t\<rparr>)"
    using am_start_effect [OF _ g] miss1 by simp
  show ?thesis
  proof (rule that [OF stop start])
    show "sn_valid e (if gap then am_rx_next_highest e else ?t)" using w by simp
    show "0 < rx_dist e (if gap then am_rx_next_highest e else ?t) \<and>
        rx_dist e (if gap then am_rx_next_highest e else ?t) \<le> rx_dist e (am_rx_next_highest e)"
      if "(if gap then am_t_current e else ts) \<noteq> 0"
      using that ts sub(1) by (auto simp: gap_def split: if_splits)
  qed
qed

lemma slot_done_in: "0 \<le> d \<Longrightarrow> d < am_window_size e \<Longrightarrow> slot_done e d \<longleftrightarrow> already_processed (rx_slot e d)"
  by (simp add: slot_done_def)

lemma am_update_hs:
  assumes "am_rx_base e" "am_rx_window e" "sn_valid e x" "rx_dist e x < am_window_size e"
    and "slot_done e (rx_dist e x)" "0 < rx_dist e x \<Longrightarrow> \<not> slot_done e 0"
    and "x \<noteq> am_rx_highest_status e \<Longrightarrow> rx_dist e (am_rx_highest_status e) < am_window_size e \<Longrightarrow>
      \<not> slot_done e (rx_dist e (am_rx_highest_status e))"
    and "x = am_rx_next e \<Longrightarrow> x = am_rx_highest_status e \<Longrightarrow> \<exists>k. 0 < k \<and> k < am_window_size e \<and> \<not> slot_done e k"
  obtains hs where "update_rx_highest_status e x = Some (e\<lparr>am_rx_highest_status := hs\<rparr>)" "sn_valid e hs"
    "rx_dist e hs \<le> rx_dist e (am_rx_next_highest e)"
    "rx_dist e hs < am_window_size e \<Longrightarrow> \<not> slot_done e (rx_dist e hs)"
proof (cases "x = am_rx_highest_status e")
  case False
  then show ?thesis
    using that [of "am_rx_highest_status e"] assms(2,7)
    by (simp add: update_rx_highest_status_def am_rx_window_def)
next
  case True
  note b = am_rx_baseD [OF assms(1)]
  let ?d = "rx_dist e x" and ?W = "am_window_size e" and ?nh = "rx_dist e (am_rx_next_highest e)"
  have d0: "0 \<le> ?d" using rx_dist_range [OF assms(1)] by simp
  obtain j where j: "?d \<le> j" "j \<le> ?W" "\<forall>k. ?d \<le> k \<and> k < j \<longrightarrow> slot_done e k" "j < ?W \<Longrightarrow> \<not> slot_done e j"
    using first_open [of ?d ?W "slot_done e"] assms(4) by (metis less_imp_le)
  have stop: "\<not> slot_done e j"
  proof (cases "j = ?W")
    case W: True
    have "?d \<noteq> 0"
    proof
      assume z: "?d = 0"
      then have "x = am_rx_next e" using rx_sn_dist [OF assms(1,3)] by (simp add: rx_sn_0 assms(1))
      then show False using assms(8) True j(3) W z by auto
    qed
    then have "\<not> slot_done e 0" using assms(6) d0 by simp
    then show ?thesis using W by (simp add: slot_done_def)
  qed (use j in auto)
  have scan: "delivered_scan e x = Some (rx_sn e j)"
    using delivered_scan_stops [OF assms(1) d0 j(1,2,3) stop] rx_sn_dist [OF assms(1,3)] by simp
  have dj: "rx_dist e (rx_sn e j) = j" using j d0 b(5,6) by (intro rx_dist_sn assms(1)) auto
  have "j \<le> ?nh"
  proof (rule ccontr)
    assume "\<not> j \<le> ?nh"
    have empty: "rx_slot e k = []" if "?nh \<le> k" "k < ?W" for k
      using assms(2) that by (simp add: am_rx_window_def)
    have "?d < ?nh" using empty [of ?d] assms(4,5) d0 by (cases "?d < ?nh") (auto simp: slot_done_in)
    then have "slot_done e ?nh" using j(3) \<open>\<not> j \<le> ?nh\<close> by auto
    moreover have "?nh < ?W" using \<open>\<not> j \<le> ?nh\<close> j(2) by simp
    ultimately show False using empty [of ?nh] rx_dist_range [OF assms(1)] by (simp add: slot_done_in)
  qed
  then show ?thesis
    using that [of "rx_sn e j"] scan dj stop True by (simp add: update_rx_highest_status_def assms(1))
qed

lemma rx_dist_moved:
  assumes "am_rx_base e" "am_sn_modulus e' = am_sn_modulus e" "am_rx_next e' = rx_sn e n"
    and "0 \<le> n" "n < am_sn_modulus e"
  shows "rx_dist e' a = (if n \<le> rx_dist e a then rx_dist e a - n else rx_dist e a - n + am_sn_modulus e)"
proof -
  let ?M = "am_sn_modulus e"
  have r: "0 \<le> rx_dist e a" "rx_dist e a < ?M" using rx_dist_range [OF assms(1)] by auto
  have "rx_dist e' a = (rx_dist e a - n) mod ?M"
    by (simp add: rx_dist_def circ_dist_def assms(2,3) rx_sn_def mod_simps algebra_simps)
  also have "\<dots> = (if n \<le> rx_dist e a then rx_dist e a - n else rx_dist e a - n + ?M)"
  proof (cases "n \<le> rx_dist e a")
    case False
    have "(rx_dist e a - n) mod ?M = (rx_dist e a - n + ?M) mod ?M" by simp
    also have "\<dots> = rx_dist e a - n + ?M" using False r assms(4,5) by (intro mod_pos_pos_trivial) auto
    finally show ?thesis using False by simp
  qed (use r assms(4) in simp)
  finally show ?thesis .
qed

lemma rx_sn_moved:
  "am_rx_base e \<Longrightarrow> am_sn_modulus e' = am_sn_modulus e \<Longrightarrow> am_rx_next e' = rx_sn e n \<Longrightarrow> rx_sn e' k = rx_sn e (k + n)"
  by (simp add: rx_sn_def mod_simps algebra_simps)

lemma am_free_delivered:
  assumes "am_rx_base e"
  obtains n m where "free_delivered (am_sn_modulus e) (am_rx e) (am_rx_next e) 0 = Some (m, rx_sn e n, n)"
    "0 \<le> n" "n \<le> am_window_size e" "\<forall>k. 0 \<le> k \<and> k < n \<longrightarrow> slot_done e k"
    "n < am_window_size e \<longrightarrow> \<not> slot_done e n"
    "rxm_ok m" "rxm_size m = am_window_size e" "rxm_sn_start m = am_rx_next e"
    "\<forall>k. 0 \<le> k \<and> k < am_window_size e \<longrightarrow> rxm_slot m k = (if k < n then [] else rx_slot e k)"
    "rx_stored m = rx_stored (am_rx e) - (\<Sum>k = 0..<n. stored_bytes (rx_slot e k))"
proof -
  note b = am_rx_baseD [OF assms]
  let ?W = "am_window_size e"
  obtain n where n: "0 \<le> n" "n \<le> ?W" "\<forall>k. 0 \<le> k \<and> k < n \<longrightarrow> slot_done e k" "n < ?W \<Longrightarrow> \<not> slot_done e n"
    using first_open [of 0 ?W "slot_done e"] b(6) by auto
  have run: "\<forall>k. 0 \<le> k \<and> k < n \<longrightarrow> already_processed (rx_slot e k)" using n by (auto simp: slot_done_in)
  moreover have "n < ?W \<Longrightarrow> \<not> already_processed (rx_slot e n)" using n by (auto simp: slot_done_in)
  moreover have "\<forall>k. 0 \<le> k \<and> k < 0 \<longrightarrow> rx_slot e k = []" by auto
  ultimately obtain m where m: "free_delivered (2 * ?W) (am_rx e) ((am_rx_next e + 0) mod (2 * ?W)) 0 =
      Some (m, (am_rx_next e + n) mod (2 * ?W), n)" "rxm_ok m" "rxm_size m = ?W" "rxm_sn_start m = am_rx_next e"
      "rx_stored m = rx_stored (am_rx e) - (\<Sum>k = 0..<n. stored_bytes (rx_slot e k))"
      "\<forall>k. 0 \<le> k \<and> k < ?W \<longrightarrow> rxm_slot m k = (if k < n then [] else rx_slot e k)"
    using free_delivered_run [OF b(1,2) order_refl n(1,2)] unfolding b(3) by blast
  have "(am_rx_next e + 0) mod (2 * ?W) = am_rx_next e" using b(5,7) by (simp add: sn_valid_def)
  then have "free_delivered (am_sn_modulus e) (am_rx e) (am_rx_next e) 0 = Some (m, rx_sn e n, n)"
    using m(1) b(5) by (simp add: rx_sn_def)
  then show ?thesis using that n m(2-6) by blast
qed

text \<open>The window has moved by \<open>n\<close> delivered SDUs.\<close>

lemma am_moved:
  assumes "am_rx_base e" "am_rx_window e" "am_slots_ok e"
    and "rx_dist e (am_rx_highest_status e) < am_window_size e \<Longrightarrow> \<not> slot_done e (rx_dist e (am_rx_highest_status e))"
    and n: "0 \<le> n" "n \<le> am_window_size e" "\<forall>k. 0 \<le> k \<and> k < n \<longrightarrow> slot_done e k"
      "n < am_window_size e \<longrightarrow> \<not> slot_done e n"
    and m: "rxm_ok m" "rxm_size m = am_window_size e" "rxm_sn_start m = rx_sn e n"
      "\<forall>k. 0 \<le> k \<and> k < am_window_size e \<longrightarrow>
        rxm_slot m k = (if k + n < am_window_size e then rx_slot e (k + n) else [])"
  defines "e' \<equiv> e\<lparr>am_rx := m, am_rx_next := rx_sn e n\<rparr>"
  shows "am_rx_base e'" "am_rx_window e'" "am_slots_ok e'" "am_rx_open e'"
proof -
  note b = am_rx_baseD [OF assms(1)]
  note w = assms(2) [unfolded am_rx_window_def]
  let ?W = "am_window_size e" and ?M = "am_sn_modulus e"
  have fields [simp]: "am_rx e' = m" "am_rx_next e' = rx_sn e n" "am_window_size e' = ?W" "am_sn_modulus e' = ?M"
    "am_rx_highest_status e' = am_rx_highest_status e" "am_rx_next_highest e' = am_rx_next_highest e"
    "am_rx_next_status_trigger e' = am_rx_next_status_trigger e" "sn_valid e' = sn_valid e"
    by (simp_all add: e'_def sn_valid_def fun_eq_iff)
  show base: "am_rx_base e'" using m(1-3) b(4) by (simp add: am_rx_base_def am_cfg_def e'_def)
  have nM: "n < ?M" using n(2) b(5,6) by simp
  have dist: "rx_dist e' a = (if n \<le> rx_dist e a then rx_dist e a - n else rx_dist e a - n + ?M)" for a
    by (rule rx_dist_moved [OF assms(1)]) (use n(1) nM in simp_all)
  have slot: "rxm_slot m k = (if k + n < ?W then rx_slot e (k + n) else [])" if "0 \<le> k" "k < ?W" for k
    using m(4) that by simp
  let ?hs = "rx_dist e (am_rx_highest_status e)" and ?nh = "rx_dist e (am_rx_next_highest e)"
  have nhs: "n \<le> ?hs"
  proof (rule ccontr)
    assume "\<not> n \<le> ?hs"
    then have "?hs < ?W" "slot_done e ?hs" using n(2,3) rx_dist_range [OF assms(1)] by auto
    then show False using assms(4) by simp
  qed
  show "am_rx_window e'"
    unfolding am_rx_window_def
  proof (intro conjI allI impI)
    show "rx_dist e' (am_rx_next_highest e') \<le> am_window_size e'" using nhs w n(1) by (simp add: dist)
    show "rx_slot e' d = []" if "rx_dist e' (am_rx_next_highest e') \<le> d \<and> d < am_window_size e'" for d
      using that nhs w rx_dist_range [OF base, of "am_rx_next_highest e"] by (auto simp: dist slot)
    show "rx_slot e' (rx_dist e' (am_rx_next_highest e') - 1) \<noteq> []" if "0 < rx_dist e' (am_rx_next_highest e')"
      using that nhs w n(1) slot [of "?nh - n - 1"] by (auto simp: dist)
  qed (use w nhs in \<open>simp_all add: dist\<close>)
  show "am_slots_ok e'"
    unfolding am_slots_ok_def
  proof (intro allI impI)
    fix d assume d: "0 \<le> d \<and> d < am_window_size e'"
    have "rx_sn e' d = rx_sn e (d + n)" by (rule rx_sn_moved [OF assms(1)]) simp_all
    then show "pdus_ok (rx_sn e' d) (rx_slot e' d)"
      using assms(3) d n(1) by (simp add: slot am_slots_ok_def)
  qed
  have "\<not> slot_done e' 0"
    using slot [of 0] b(6) n(4) n(1) by (cases "n < ?W") (simp_all add: slot_done_in)
  moreover have "\<not> slot_done e' (?hs - n)"
  proof (cases "?hs < ?W")
    case True
    then show ?thesis
      using assms(4) slot [of "?hs - n"] nhs n(1) rx_dist_range [OF assms(1)] by (simp add: slot_done_in)
  next
    case False
    then have W: "?hs = ?W" using w by simp
    show ?thesis
    proof (cases "n = 0")
      case True
      then show ?thesis using W \<open>\<not> slot_done e' 0\<close> by (simp add: slot_done_def)
    next
      case False
      then show ?thesis using W slot [of "?W - n"] n(1,2) by (simp add: slot_done_in)
    qed
  qed
  ultimately show "am_rx_open e'" using nhs by (simp add: am_rx_open_def dist)
qed

lemma am_update_rx_next:
  assumes "am_rx_base e" "am_rx_window e" "am_slots_ok e" "slot_done e 0 \<longleftrightarrow> x = am_rx_next e"
    and "rx_dist e (am_rx_highest_status e) < am_window_size e \<Longrightarrow> \<not> slot_done e (rx_dist e (am_rx_highest_status e))"
  obtains n m e' where "update_rx_next e x = Some e'" "e' = e\<lparr>am_rx := m, am_rx_next := rx_sn e n\<rparr>"
    "0 \<le> n" "n \<le> am_window_size e" "\<forall>k. 0 \<le> k \<and> k < n \<longrightarrow> slot_done e k"
    "n < am_window_size e \<longrightarrow> \<not> slot_done e n"
    "\<forall>k. 0 \<le> k \<and> k < am_window_size e \<longrightarrow> rx_slot e' k = (if k + n < am_window_size e then rx_slot e (k + n) else [])"
    "rx_stored m = rx_stored (am_rx e) - (\<Sum>k = 0..<n. stored_bytes (rx_slot e k))"
    "am_rx_base e'" "am_rx_window e'" "am_slots_ok e'" "am_rx_open e'"
proof (cases "x = am_rx_next e")
  case True
  note b = am_rx_baseD [OF assms(1)]
  let ?W = "am_window_size e"
  obtain n m0 where
    free: "free_delivered (am_sn_modulus e) (am_rx e) (am_rx_next e) 0 = Some (m0, rx_sn e n, n)"
    and n: "0 \<le> n" "n \<le> ?W" "\<forall>k. 0 \<le> k \<and> k < n \<longrightarrow> slot_done e k" "n < ?W \<longrightarrow> \<not> slot_done e n"
    and m0: "rxm_ok m0" "rxm_size m0 = ?W" "rxm_sn_start m0 = am_rx_next e"
      "\<forall>k. 0 \<le> k \<and> k < ?W \<longrightarrow> rxm_slot m0 k = (if k < n then [] else rx_slot e k)"
      "rx_stored m0 = rx_stored (am_rx e) - (\<Sum>k = 0..<n. stored_bytes (rx_slot e k))"
    by (rule am_free_delivered [OF assms(1)], rule that)
  define m where "m = rxm_shift m0 n (rx_sn e n)"
  have sh: "rx_sn e n = (rxm_sn_start m0 + n) mod (2 * rxm_size m0)" using m0(2,3) b(5) by (simp add: rx_sn_def)
  note shift = rxm.shift_window [OF m0(1) n(1) n(2) [folded m0(2)], folded sh, folded m_def]
  have slot: "\<forall>k. 0 \<le> k \<and> k < ?W \<longrightarrow> rxm_slot m k = (if k + n < ?W then rx_slot e (k + n) else [])"
    using shift(4,5) m0(2,4) n(1,2) by auto
  have m: "rxm_ok m" "rxm_size m = ?W" "rxm_sn_start m = rx_sn e n" using shift(1-3) m0(2) sh by simp_all
  have upd: "update_rx_next e x = Some (e\<lparr>am_rx := m, am_rx_next := rx_sn e n\<rparr>)"
    using True free by (simp add: update_rx_next_def m_def rxm_shift_def)
  show ?thesis
    by (rule that [OF upd refl n]) (use slot m0(5) am_moved [OF assms(1-3,5) n m slot] in \<open>simp_all add: m_def\<close>)
next
  case False
  have m: "rxm_ok (am_rx e)" "rxm_size (am_rx e) = am_window_size e" "rxm_sn_start (am_rx e) = rx_sn e 0"
    using am_rx_baseD(1-3) [OF assms(1)] by (simp_all add: rx_sn_0 assms(1))
  have e: "e\<lparr>am_rx := am_rx e, am_rx_next := rx_sn e 0\<rparr> = e" by (simp add: rx_sn_0 assms(1))
  have "\<not> slot_done e 0" using False assms(4) by simp
  moreover from this have n: "\<forall>k. 0 \<le> k \<and> k < 0 \<longrightarrow> slot_done e k" "0 < am_window_size e \<longrightarrow> \<not> slot_done e 0"
    "0 \<le> am_window_size e" using am_rx_baseD(6) [OF assms(1)] by auto
  moreover have upd: "update_rx_next e x = Some e" using False by (simp add: update_rx_next_def)
  moreover have slot: "\<forall>k. 0 \<le> k \<and> k < am_window_size e \<longrightarrow> rx_slot e k = (if k + 0 < am_window_size e then rx_slot e (k + 0) else [])"
    by simp
  ultimately show ?thesis
    by (intro that [OF upd e [symmetric] order_refl n(3,1,2) slot])
      (use am_moved [OF assms(1-3,5) order_refl n(3,1,2) m slot, unfolded e] in simp_all)
qed

text \<open>Storing a list for a sequence number of the window.\<close>

lemma rx_store:
  assumes "am_rx_base e" "sn_valid e sn" "rx_dist e sn < am_window_size e"
  obtains m where "rx_manager_store (am_rx e) sn l = Some m" "rxm_ok m" "rxm_size m = am_window_size e"
    "rxm_sn_start m = am_rx_next e"
    "\<forall>d. 0 \<le> d \<and> d < am_window_size e \<longrightarrow> rxm_slot m d = (if d = rx_dist e sn then l else rx_slot e d)"
    "rx_stored m = rx_stored (am_rx e) - stored_bytes (rx_slot e (rx_dist e sn)) + stored_bytes l"
proof -
  note b = am_rx_baseD [OF assms(1)]
  have win: "rxm.in_window (am_rx e) sn" using assms by (simp add: rxm_in_window)
  from rxm.store_defined [OF b(1) win] obtain m where m: "rx_manager_store (am_rx e) sn l = Some m" by blast
  note st = rxm.store_lookup [OF b(1) win m]
  show ?thesis
    by (rule that [OF m]) (use st b rx_stored_store [OF rx_lookup_in [OF assms] m] in \<open>auto simp: rxm_idx_dist assms(1)\<close>)
qed

lemma am_reassemble:
  assumes "am_rx_base e" "sn_valid e x" "rx_dist e x < am_window_size e"
    and "\<forall>p \<in> set (rx_slot e (rx_dist e x)). pdu_ok p \<and> pdu_data p \<noteq> None"
  obtains so bad sdu m st where
    "reassemble_loop (rx_slot e (rx_dist e x)) 0 False [] (am_rx_size e) = Some (map pdu_processed (rx_slot e (rx_dist e x)), so, bad, sdu,
       am_rx_size e - stored_bytes (rx_slot e (rx_dist e x)))"
    "am_reassemble_and_deliver e x = Some (e\<lparr>am_rx := m, am_rx_size := am_rx_size e - stored_bytes (rx_slot e (rx_dist e x)),
       ev := ev e @ (if bad then [] else [Deliver_sdu sdu]), stats := st\<rparr>)"
    "rxm_ok m" "rxm_size m = am_window_size e" "rxm_sn_start m = am_rx_next e"
    "\<forall>d. 0 \<le> d \<and> d < am_window_size e \<longrightarrow> rxm_slot m d = (if d = rx_dist e x then map pdu_processed (rx_slot e d) else rx_slot e d)"
    "rx_stored m = rx_stored (am_rx e) - stored_bytes (rx_slot e (rx_dist e x))"
proof -
  let ?l = "rx_slot e (rx_dist e x)"
  from reassemble_returns [OF assms(4), of 0 False "[]" "am_rx_size e"] obtain so bad sdu where
    r: "reassemble_loop ?l 0 False [] (am_rx_size e) = Some (map pdu_processed ?l, so, bad, sdu, am_rx_size e - stored_bytes ?l)"
    using assms(4) by (auto simp: stored_bytes_all)
  obtain m where m: "rx_manager_store (am_rx e) x (map pdu_processed ?l) = Some m" "rxm_ok m" "rxm_size m = am_window_size e"
    "rxm_sn_start m = am_rx_next e"
    "\<forall>d. 0 \<le> d \<and> d < am_window_size e \<longrightarrow> rxm_slot m d = (if d = rx_dist e x then map pdu_processed ?l else rx_slot e d)"
    "rx_stored m = rx_stored (am_rx e) - stored_bytes ?l + stored_bytes (map pdu_processed ?l)"
    by (rule rx_store [OF assms(1-3)], rule that)
  define st where "st = (if bad then stats e else txsdu_pkts_update (\<lambda>n. n + 1) (stats e))"
  have "am_reassemble_and_deliver e x = Some (e\<lparr>am_rx := m, am_rx_size := am_rx_size e - stored_bytes ?l,
       ev := ev e @ (if bad then [] else [Deliver_sdu sdu]), stats := st\<rparr>)"
    using m(1) r by (simp add: am_reassemble_and_deliver_def rx_lookup_in [OF assms(1-3)] st_def)
  then show ?thesis by (rule that [OF r]) (use m in auto)
qed

lemma rx_view_cong:
  "am_rx_next e' = am_rx_next e \<Longrightarrow> am_sn_modulus e' = am_sn_modulus e \<Longrightarrow>
   rx_dist e' = rx_dist e \<and> rx_sn e' = rx_sn e \<and> sn_valid e' = sn_valid e"
  by (simp add: rx_dist_def rx_sn_def sn_valid_def fun_eq_iff)

lemma sum_stored_nonneg:
  "am_slots_ok e \<Longrightarrow> n \<le> am_window_size e \<Longrightarrow> 0 \<le> (\<Sum>k = 0..<n. stored_bytes (rx_slot e k))"
  by (intro sum_nonneg stored_bytes_nonneg) (auto simp: am_slots_ok_def pdus_ok_def)

lemma am_processed:
  assumes base: "am_rx_base e" and win: "am_rx_window e"
    and x: "sn_valid e x" "rx_dist e x < am_window_size e"
    and others: "\<forall>k. 0 \<le> k \<and> k < am_window_size e \<and> k \<noteq> rx_dist e x \<longrightarrow> pdus_ok (rx_sn e k) (rx_slot e k)"
    and l: "so_sorted (rx_slot e (rx_dist e x))" "\<forall>p \<in> set (rx_slot e (rx_dist e x)). pdu_ok p \<and> pdu_sn p = x"
      "sdu_full_loop (rx_slot e (rx_dist e x)) (-1)"
    and m: "rxm_ok m" "rxm_size m = am_window_size e" "rxm_sn_start m = am_rx_next e"
      "\<forall>d. 0 \<le> d \<and> d < am_window_size e \<longrightarrow>
        rxm_slot m d = (if d = rx_dist e x then map pdu_processed (rx_slot e d) else rx_slot e d)"
    and e1: "e1 = e\<lparr>am_rx := m, am_rx_size := s, ev := v, stats := st\<rparr>"
  shows "am_rx_base e1" "am_rx_window e1" "am_slots_ok e1"
    "0 \<le> k \<Longrightarrow> k < am_window_size e \<Longrightarrow> slot_done e1 k \<longleftrightarrow> k = rx_dist e x \<or> slot_done e k"
proof -
  let ?d = "rx_dist e x" and ?W = "am_window_size e"
  have f1 [simp]: "am_rx e1 = m" "am_rx_next e1 = am_rx_next e" "am_window_size e1 = ?W"
    "am_rx_highest_status e1 = am_rx_highest_status e" "am_rx_next_highest e1 = am_rx_next_highest e"
    "am_rx_next_status_trigger e1 = am_rx_next_status_trigger e" "am_sn_modulus e1 = am_sn_modulus e"
    by (simp_all add: e1)
  have v1 [simp]: "rx_dist e1 = rx_dist e" "rx_sn e1 = rx_sn e" "sn_valid e1 = sn_valid e"
    using rx_view_cong [of e1 e] by simp_all
  have d0: "0 \<le> ?d" using rx_dist_range [OF base] by simp
  note proc = pdus_ok_processed [OF l(1) l(2) l(3)]
  show "am_rx_base e1" using m(1-3) am_rx_baseD(4) [OF base] by (simp add: am_rx_base_def am_cfg_def e1)
  show "slot_done e1 k \<longleftrightarrow> k = ?d \<or> slot_done e k" if "0 \<le> k" "k < ?W"
    using that m(4) proc(2) by (simp add: slot_done_in)
  have "rx_slot e ?d \<noteq> []" using l(3) by auto
  then have "?d < rx_dist e (am_rx_next_highest e)"
    using win x(2) by (auto simp: am_rx_window_def not_less)
  then show "am_rx_window e1"
    using win m(4) rx_dist_range [OF base, of "am_rx_next_highest e"] by (auto simp: am_rx_window_def)
  show "am_slots_ok e1"
    using others proc(1) m(4) rx_sn_dist [OF base x(1)] by (simp add: am_slots_ok_def)
qed

text \<open>A complete SDU is delivered and the window moves over the delivered SDUs at its start.\<close>

lemma am_deliver:
  assumes base: "am_rx_base e" and win: "am_rx_window e"
    and x: "sn_valid e x" "rx_dist e x < am_window_size e"
    and others: "\<forall>k. 0 \<le> k \<and> k < am_window_size e \<and> k \<noteq> rx_dist e x \<longrightarrow> pdus_ok (rx_sn e k) (rx_slot e k)"
    and l: "so_sorted (rx_slot e (rx_dist e x))" "\<forall>p \<in> set (rx_slot e (rx_dist e x)). pdu_ok p \<and> pdu_sn p = x"
      "\<forall>p \<in> set (rx_slot e (rx_dist e x)). pdu_data p \<noteq> None" "sdu_full_loop (rx_slot e (rx_dist e x)) (-1)"
    and opn: "am_rx_open e"
    and room: "x = am_rx_next e \<Longrightarrow> x = am_rx_highest_status e \<Longrightarrow> \<exists>k. 0 < k \<and> k < am_window_size e \<and> \<not> slot_done e k"
  defines "sl \<equiv> \<lambda>k. if k = rx_dist e x then map pdu_processed (rx_slot e k) else rx_slot e k"
  obtains e1 e2 e' n so bad sdu m st hs where
    "am_reassemble_and_deliver e x = Some e1" "update_rx_highest_status e1 x = Some e2" "update_rx_next e2 x = Some e'"
    "e' = e\<lparr>am_rx := m, am_rx_size := am_rx_size e - stored_bytes (rx_slot e (rx_dist e x)),
       ev := ev e @ (if bad then [] else [Deliver_sdu sdu]), stats := st, am_rx_highest_status := hs, am_rx_next := rx_sn e n\<rparr>"
    "reassemble_loop (rx_slot e (rx_dist e x)) 0 False [] (am_rx_size e) = Some (map pdu_processed (rx_slot e (rx_dist e x)), so, bad, sdu,
       am_rx_size e - stored_bytes (rx_slot e (rx_dist e x)))"
    "0 \<le> n" "n \<le> am_window_size e" "\<forall>k. 0 \<le> k \<and> k < n \<longrightarrow> already_processed (sl k)"
    "\<forall>k. 0 \<le> k \<and> k < am_window_size e \<longrightarrow> rx_slot e' k = (if k + n < am_window_size e then sl (k + n) else [])"
    "rx_stored m \<le> rx_stored (am_rx e) - stored_bytes (rx_slot e (rx_dist e x))"
    "am_rx_base e'" "am_rx_window e'" "am_slots_ok e'" "am_rx_open e'"
proof -
  let ?d = "rx_dist e x" and ?W = "am_window_size e"
  let ?l = "rx_slot e ?d"
  have d0: "0 \<le> ?d" using rx_dist_range [OF base] by simp
  have l': "\<forall>p \<in> set ?l. pdu_ok p \<and> pdu_data p \<noteq> None" using l by simp
  obtain so bad sdu m st where
    r: "reassemble_loop ?l 0 False [] (am_rx_size e) = Some (map pdu_processed ?l, so, bad, sdu, am_rx_size e - stored_bytes ?l)"
    and call1: "am_reassemble_and_deliver e x = Some (e\<lparr>am_rx := m, am_rx_size := am_rx_size e - stored_bytes ?l,
       ev := ev e @ (if bad then [] else [Deliver_sdu sdu]), stats := st\<rparr>)"
    and m: "rxm_ok m" "rxm_size m = ?W" "rxm_sn_start m = am_rx_next e"
      "\<forall>d. 0 \<le> d \<and> d < ?W \<longrightarrow> rxm_slot m d = (if d = ?d then map pdu_processed (rx_slot e d) else rx_slot e d)"
      "rx_stored m = rx_stored (am_rx e) - stored_bytes ?l"
    by (rule am_reassemble [OF base x l'], rule that)
  define e1 where "e1 = e\<lparr>am_rx := m, am_rx_size := am_rx_size e - stored_bytes ?l,
       ev := ev e @ (if bad then [] else [Deliver_sdu sdu]), stats := st\<rparr>"
  note p1 = am_processed [OF base win x others l(1,2,4) m(1-4) e1_def]
  have v1: "rx_dist e1 = rx_dist e" "rx_sn e1 = rx_sn e" "sn_valid e1 = sn_valid e"
    using rx_view_cong [of e1 e] by (simp_all add: e1_def)
  have f1: "am_window_size e1 = ?W" "am_rx_next e1 = am_rx_next e" "am_rx_next_highest e1 = am_rx_next_highest e"
    "am_rx_highest_status e1 = am_rx_highest_status e" "am_rx e1 = m" by (simp_all add: e1_def)
  have zero: "?d = 0 \<longleftrightarrow> x = am_rx_next e"
    using rx_sn_dist [OF base x(1)] rx_sn_0 [OF base] by (auto simp: rx_dist_def)
  have W: "0 < ?W" using am_rx_baseD(6) [OF base] by simp
  have start: "slot_done e1 0 \<longleftrightarrow> x = am_rx_next e"
    using p1(4) [of 0] W opn zero by (auto simp: am_rx_open_def)
  have prev: "\<not> slot_done e1 (rx_dist e (am_rx_highest_status e))"
    if "x \<noteq> am_rx_highest_status e" "rx_dist e (am_rx_highest_status e) < ?W"
  proof -
    have "rx_dist e (am_rx_highest_status e) \<noteq> ?d"
      using that(1) rx_sn_dist [OF base x(1)] rx_sn_dist [OF base, of "am_rx_highest_status e"] win
      by (auto simp: am_rx_window_def)
    then show ?thesis
      using p1(4) [of "rx_dist e (am_rx_highest_status e)"] that(2) opn rx_dist_range [OF base]
      by (auto simp: am_rx_open_def)
  qed
  have rm: "\<exists>k. 0 < k \<and> k < ?W \<and> \<not> slot_done e1 k" if "x = am_rx_next e" "x = am_rx_highest_status e"
    using room [OF that] p1(4) zero that(1) by force
  have dn: "slot_done e1 ?d" "0 < ?d \<Longrightarrow> \<not> slot_done e1 0" using p1(4) d0 x(2) start zero by auto
  obtain hs where call2: "update_rx_highest_status e1 x = Some (e1\<lparr>am_rx_highest_status := hs\<rparr>)"
    and hs: "sn_valid e hs" "rx_dist e hs \<le> rx_dist e (am_rx_next_highest e)"
      "rx_dist e hs < ?W \<Longrightarrow> \<not> slot_done e1 (rx_dist e hs)"
    using am_update_hs [OF p1(1,2), of x, unfolded v1 f1, OF x dn prev rm] by blast
  define e2 where "e2 = e1\<lparr>am_rx_highest_status := hs\<rparr>"
  have v2: "rx_dist e2 = rx_dist e" "rx_sn e2 = rx_sn e" "sn_valid e2 = sn_valid e" "slot_done e2 = slot_done e1"
    "am_window_size e2 = ?W" "am_rx_next e2 = am_rx_next e" "am_rx_highest_status e2 = hs" "am_rx e2 = m"
    using rx_view_cong [of e2 e1] v1 f1 by (simp_all add: e2_def slot_done_def fun_eq_iff)
  have p2: "am_rx_base e2" "am_rx_window e2" "am_slots_ok e2"
    using p1(1-3) hs(1,2) v1 v2(1-3) f1(3) by (simp_all add: am_rx_base_def am_cfg_def am_rx_window_def am_slots_ok_def e2_def)
  obtain n m' e' where call3: "update_rx_next e2 x = Some e'" and e': "e' = e2\<lparr>am_rx := m', am_rx_next := rx_sn e n\<rparr>"
    and n: "0 \<le> n" "n \<le> ?W" "\<forall>k. 0 \<le> k \<and> k < n \<longrightarrow> slot_done e1 k" 
    and slot: "\<forall>k. 0 \<le> k \<and> k < ?W \<longrightarrow> rx_slot e' k = (if k + n < ?W then rxm_slot m (k + n) else [])"
    and stored: "rx_stored m' = rx_stored m - (\<Sum>k = 0..<n. stored_bytes (rxm_slot m k))"
    and ok: "am_rx_base e'" "am_rx_window e'" "am_slots_ok e'" "am_rx_open e'"
    by (rule am_update_rx_next [OF p2, of x, unfolded v2, OF start hs(3)], assumption, rule that)
  have eq: "e' = e\<lparr>am_rx := m', am_rx_size := am_rx_size e - stored_bytes ?l,
      ev := ev e @ (if bad then [] else [Deliver_sdu sdu]), stats := st, am_rx_highest_status := hs, am_rx_next := rx_sn e n\<rparr>"
    by (simp add: e' e2_def e1_def)
  show ?thesis
  proof (rule that [OF call1 [folded e1_def] call2 [folded e2_def] call3 eq r n(1,2) _ _ _ ok])
    show "\<forall>k. 0 \<le> k \<and> k < n \<longrightarrow> already_processed (sl k)"
      using n m(4) by (simp add: slot_done_in f1 sl_def)
    show "\<forall>k. 0 \<le> k \<and> k < ?W \<longrightarrow> rx_slot e' k = (if k + n < ?W then sl (k + n) else [])"
      using slot m(4) n(1) by (simp add: sl_def)
    show "rx_stored m' \<le> rx_stored (am_rx e) - stored_bytes ?l"
      using stored m(5) sum_stored_nonneg [OF p1(3), of n] n(2) f1 by simp
  qed
qed

section \<open>The reception of a segment\<close>

text \<open>What a reception may change: the receiving side, the statistics and the calls to the user.\<close>

definition am_no_rx :: "am \<Rightarrow> am" where
  "am_no_rx e = e\<lparr>am_rx := nr_rlc_new_rx_manager 0, am_rx_size := 0, ev := [], stats := stats_zero NR_RLC_AM,
     am_rx_highest_status := 0, am_rx_next := 0, am_rx_next_highest := 0, am_rx_next_status_trigger := 0,
     am_t_reassembly_start := 0, am_status_triggered := False\<rparr>"

definition am_rx_frame :: "am \<Rightarrow> am \<Rightarrow> bool" where
  "am_rx_frame e e' \<longleftrightarrow> am_no_rx e' = am_no_rx e"

lemma am_rx_frame_field:
  assumes "am_rx_frame e e'" "\<And>e. f (am_no_rx e) = f e"
  shows "f e' = f e"
  using assms by (metis am_rx_frame_def)

lemma am_rx_frame_cfg:
  assumes "am_rx_frame e e'"
  shows "am_sn_field_length e' = am_sn_field_length e" "am_sn_modulus e' = am_sn_modulus e"
    "am_window_size e' = am_window_size e" "am_rx_maxsize e' = am_rx_maxsize e" "am_t_current e' = am_t_current e"
  using am_rx_frame_field [OF assms, of am_sn_field_length] am_rx_frame_field [OF assms, of am_sn_modulus]
    am_rx_frame_field [OF assms, of am_window_size] am_rx_frame_field [OF assms, of am_rx_maxsize]
    am_rx_frame_field [OF assms, of am_t_current]
  by (simp_all add: am_no_rx_def)

definition rx_insert :: "nr_rlc_pdu_t \<Rightarrow> nr_rlc_pdu_t list \<Rightarrow> nr_rlc_pdu_t list" where
  "rx_insert pdu l = list_add_before (\<lambda>cur. pdu_so cur > pdu_so pdu) pdu l"

definition rx_advance_highest :: "am \<Rightarrow> int \<Rightarrow> am" where
  "rx_advance_highest e x = (if am_sn_compare_rx e x (am_rx_next_highest e) \<ge> 0
     then e\<lparr>am_rx_next_highest := cmod (x + 1) (am_sn_modulus e)\<rparr> else e)"

text \<open>The state after the new segment was inserted and \<open>rx_next_highest\<close> was updated.\<close>

definition am_inserted :: "am \<Rightarrow> nr_rlc_pdu_t \<Rightarrow> am \<Rightarrow> bool" where
  "am_inserted e pdu e1 \<longleftrightarrow>
     (\<exists>m nh. e1 = e\<lparr>am_rx_size := am_rx_size e + pdu_size pdu, am_rx := m, am_rx_next_highest := nh\<rparr> \<and>
        rx_stored m = rx_stored (am_rx e) + pdu_size pdu \<and> rx_dist e (am_rx_next_highest e) \<le> rx_dist e nh) \<and>
     am_rx_base e1 \<and> am_rx_window e1 \<and> am_rx_open e1 \<and>
     (\<forall>k. 0 \<le> k \<and> k < am_window_size e \<longrightarrow> rx_slot e1 k =
        (if k = rx_dist e (pdu_sn pdu) then rx_insert pdu (rx_slot e k) else rx_slot e k))"

lemma am_insert:
  assumes ok: "am_rx_ok e" and sn: "sn_valid e (pdu_sn pdu)" "rx_dist e (pdu_sn pdu) < am_window_size e"
    and pdu: "pdu_ok pdu" "pdu_data pdu \<noteq> None"
  obtains m where "nr_rlc_rx_manager_add_pdu (am_rx e) pdu = Some m"
    "am_inserted e pdu (rx_advance_highest (e\<lparr>am_rx_size := am_rx_size e + pdu_size pdu, am_rx := m\<rparr>) (pdu_sn pdu))"
proof -
  have base: "am_rx_base e" and slots: "am_slots_ok e" and win: "am_rx_window e" and opn: "am_rx_open e"
    using ok by (simp_all add: am_rx_ok_def)
  note b = am_rx_baseD [OF base]
  let ?W = "am_window_size e" and ?sn = "pdu_sn pdu" and ?s = "am_rx_size e + pdu_size pdu"
  define d where "d = rx_dist e (pdu_sn pdu)"
  have d: "0 \<le> d" "d < ?W" "rx_sn e d = ?sn"
    using rx_dist_range [OF base] sn rx_sn_dist [OF base sn(1)] by (auto simp: d_def)
  obtain m where m: "rx_manager_store (am_rx e) ?sn (rx_insert pdu (rx_slot e d)) = Some m" "rxm_ok m" "rxm_size m = ?W"
    "rxm_sn_start m = am_rx_next e"
    "\<forall>k. 0 \<le> k \<and> k < ?W \<longrightarrow> rxm_slot m k = (if k = d then rx_insert pdu (rx_slot e d) else rx_slot e k)"
    "rx_stored m = rx_stored (am_rx e) - stored_bytes (rx_slot e d) + stored_bytes (rx_insert pdu (rx_slot e d))"
    by (rule rx_store [OF base sn, folded d_def], rule that)
  have add: "nr_rlc_rx_manager_add_pdu (am_rx e) pdu = Some m"
    using add_pdu_store [OF rx_lookup_in [OF base sn]] m(1) by (simp add: rx_insert_def d_def)
  have stored: "rx_stored m = rx_stored (am_rx e) + pdu_size pdu"
    using m(6) pdu(2) by (simp add: rx_insert_def stored_bytes_add)
  define nh where "nh = (if rx_dist e (am_rx_next_highest e) \<le> d then rx_sn e (d + 1) else am_rx_next_highest e)"
  have nhv: "sn_valid e nh" "rx_dist e nh = max (d + 1) (rx_dist e (am_rx_next_highest e))"
    using win d b(5,6) base by (auto simp: nh_def am_rx_window_def rx_dist_sn)
  let ?ea = "e\<lparr>am_rx_size := ?s, am_rx := m\<rparr>" and ?e = "e\<lparr>am_rx_size := ?s, am_rx := m, am_rx_next_highest := nh\<rparr>"
  have base0: "am_rx_base ?ea" "am_rx_base ?e" using m(2-4) b(4) by (simp_all add: am_rx_base_def am_cfg_def)
  have v: "rx_dist ?ea = rx_dist e" "sn_valid ?ea = sn_valid e" "rx_dist ?e = rx_dist e" "sn_valid ?e = sn_valid e"
    using rx_view_cong [of ?ea e] rx_view_cong [of ?e e] by simp_all
  have "cmod (?sn + 1) (am_sn_modulus e) = rx_sn e (d + 1)" using rx_sn_Suc [OF base, of d] d(3) by simp
  moreover have "am_sn_compare_rx ?ea ?sn (am_rx_next_highest e) = d - rx_dist e (am_rx_next_highest e)"
    using sn_compare_rx_dist [OF base0(1), of ?sn "am_rx_next_highest e"] v sn(1) win by (simp add: d_def am_rx_window_def)
  ultimately have adv: "rx_advance_highest ?ea ?sn = ?e" by (simp add: rx_advance_highest_def nh_def)
  have top: "rxm_slot m (max (d + 1) (rx_dist e (am_rx_next_highest e)) - 1) \<noteq> []"
  proof (cases "rx_dist e (am_rx_next_highest e) \<le> d + 1")
    case True
    then show ?thesis using m(5) d(1,2) by (simp add: max_def rx_insert_def)
  next
    case False
    then show ?thesis using win m(5) d(1) by (auto simp: max_def am_rx_window_def)
  qed
  have win': "am_rx_window ?e"
    using win nhv d m(5) top by (auto simp: am_rx_window_def v)
  have proc: "already_processed (rx_insert pdu (rx_slot e d)) = already_processed (rx_slot e d)"
    unfolding rx_insert_def
    by (rule pdus_ok_add(1) [OF _ pdu(1) refl pdu(2)]) (use slots d in \<open>auto simp: am_slots_ok_def\<close>)
  have "slot_done ?e k = slot_done e k" for k
    using m(5) [rule_format, of "k mod ?W"] b(6) proc by (simp add: slot_done_def split: if_splits)
  then have opn': "am_rx_open ?e" using opn by (simp add: am_rx_open_def v)
  show ?thesis
  proof (rule that [OF add], unfold adv am_inserted_def, intro conjI exI)
    show "?e = e\<lparr>am_rx_size := ?s, am_rx := m, am_rx_next_highest := nh\<rparr>" by simp
    show "rx_stored m = rx_stored (am_rx e) + pdu_size pdu" by (rule stored)
    show "rx_dist e (am_rx_next_highest e) \<le> rx_dist e nh" using nhv by simp
    show "\<forall>k. 0 \<le> k \<and> k < ?W \<longrightarrow> rx_slot ?e k =
        (if k = rx_dist e (pdu_sn pdu) then rx_insert pdu (rx_slot e k) else rx_slot e k)"
      using m(5) by (auto simp: d_def)
  qed (fact base0(2) win' opn')+
qed

text \<open>
  The effect of a stored segment. \<open>rx_after e pdu k\<close> is what slot \<open>k\<close> of the old window holds after
  it; then the window has moved by \<open>n\<close>.
\<close>

definition rx_completes :: "am \<Rightarrow> nr_rlc_pdu_t \<Rightarrow> bool" where
  "rx_completes e pdu \<longleftrightarrow> \<not> already_processed (rx_slot e (rx_dist e (pdu_sn pdu))) \<and>
     sdu_full_loop (rx_insert pdu (rx_slot e (rx_dist e (pdu_sn pdu)))) (-1)"

definition rx_after :: "am \<Rightarrow> nr_rlc_pdu_t \<Rightarrow> int \<Rightarrow> nr_rlc_pdu_t list" where
  "rx_after e pdu k =
     (if k = rx_dist e (pdu_sn pdu)
      then (if rx_completes e pdu then map pdu_processed (rx_insert pdu (rx_slot e k)) else rx_insert pdu (rx_slot e k))
      else rx_slot e k)"

definition rx_delivers :: "am \<Rightarrow> nr_rlc_pdu_t \<Rightarrow> rlc_event list \<Rightarrow> bool" where
  "rx_delivers e pdu out \<longleftrightarrow>
     (if rx_completes e pdu
      then \<exists>so bad sdu s. reassemble_loop (rx_insert pdu (rx_slot e (rx_dist e (pdu_sn pdu)))) 0 False []
               (am_rx_size e + pdu_size pdu) =
               Some (map pdu_processed (rx_insert pdu (rx_slot e (rx_dist e (pdu_sn pdu)))), so, bad, sdu, s) \<and>
             out = (if bad then [] else [Deliver_sdu sdu])
      else out = [])"

definition am_rx_received :: "am \<Rightarrow> nr_rlc_pdu_t \<Rightarrow> int \<Rightarrow> rlc_event list \<Rightarrow> am \<Rightarrow> bool" where
  "am_rx_received e pdu n out e' \<longleftrightarrow>
     am_rx_next e' = rx_sn e n \<and> 0 \<le> n \<and> n \<le> am_window_size e \<and>
     (\<forall>k. 0 \<le> k \<and> k < n \<longrightarrow> already_processed (rx_after e pdu k)) \<and>
     (\<forall>k. 0 \<le> k \<and> k < am_window_size e \<longrightarrow>
        rx_slot e' k = (if k + n < am_window_size e then rx_after e pdu (k + n) else [])) \<and>
     ev e' = ev e @ out \<and> rx_delivers e pdu out"

definition am_rx_room :: "am \<Rightarrow> int \<Rightarrow> bool" where
  "am_rx_room e sn \<longleftrightarrow> (sn = am_rx_next e \<and> sn = am_rx_highest_status e \<longrightarrow>
     (\<exists>k. 0 < k \<and> k < am_window_size e \<and> \<not> slot_done e k))"

lemma reception_actions_alt:
  "reception_actions e pdu = do {
     let e = rx_advance_highest e (pdu_sn pdu);
     full \<leftarrow> sdu_full e (pdu_sn pdu);
     e \<leftarrow> (if full
       then do {
         e \<leftarrow> am_reassemble_and_deliver e (pdu_sn pdu);
         e \<leftarrow> update_rx_highest_status e (pdu_sn pdu);
         update_rx_next e (pdu_sn pdu)
       }
       else Some e);
     e \<leftarrow> stop_t_reassembly e;
     start_t_reassembly e
   }"
  by (simp only: reception_actions_def rx_advance_highest_def Let_def)

text \<open>The timers at the end of a reception.\<close>

lemma am_reception_timers:
  assumes "am_rx_base e" "am_slots_ok e" "am_rx_window e" "am_rx_open e" "am_rx_acct e"
    and "am_t_reassembly_start e \<noteq> 0 \<Longrightarrow>
      rx_dist e (am_rx_next_status_trigger e) = 0 \<or> rx_dist e (am_rx_next_status_trigger e) > am_window_size e \<or>
      rx_dist e (am_rx_next_status_trigger e) \<le> rx_dist e (am_rx_next_highest e)"
  obtains e1 ts trig where "stop_t_reassembly e = Some e1" "start_t_reassembly e1 =
      Some (e\<lparr>am_t_reassembly_start := ts, am_rx_next_status_trigger := trig\<rparr>)"
    "am_rx_ok (e\<lparr>am_t_reassembly_start := ts, am_rx_next_status_trigger := trig\<rparr>)"
proof -
  obtain e1 ts trig where calls: "stop_t_reassembly e = Some e1" "start_t_reassembly e1 =
      Some (e\<lparr>am_t_reassembly_start := ts, am_rx_next_status_trigger := trig\<rparr>)"
    and t: "sn_valid e trig" "ts \<noteq> 0 \<Longrightarrow> 0 < rx_dist e trig \<and> rx_dist e trig \<le> rx_dist e (am_rx_next_highest e)"
    using am_timers [OF assms(1,3,6)] by blast
  let ?e = "e\<lparr>am_t_reassembly_start := ts, am_rx_next_status_trigger := trig\<rparr>"
  have v: "rx_dist ?e = rx_dist e" "sn_valid ?e = sn_valid e" "rx_sn ?e = rx_sn e" "slot_done ?e = slot_done e"
    using rx_view_cong [of ?e e] by (simp_all add: slot_done_def fun_eq_iff)
  have "am_rx_ok ?e"
    using assms(1-5) t v
    by (simp add: am_rx_ok_def am_rx_base_def am_cfg_def am_slots_ok_def am_rx_window_def am_rx_open_def
        am_timer_ok_def am_rx_acct_def)
  then show ?thesis using that calls by blast
qed

lemma am_insertedD:
  assumes "am_inserted e pdu e1"
  shows "rx_dist e1 = rx_dist e" "rx_sn e1 = rx_sn e" "sn_valid e1 = sn_valid e" "am_window_size e1 = am_window_size e"
    "am_rx_size e1 = am_rx_size e + pdu_size pdu" "am_rx_next e1 = am_rx_next e" "am_sn_modulus e1 = am_sn_modulus e"
    "am_rx_highest_status e1 = am_rx_highest_status e" "ev e1 = ev e" "am_rx_maxsize e1 = am_rx_maxsize e"
    "am_t_reassembly_start e1 = am_t_reassembly_start e" "am_rx_next_status_trigger e1 = am_rx_next_status_trigger e"
    "am_no_rx e1 = am_no_rx e" "rx_stored (am_rx e1) = rx_stored (am_rx e) + pdu_size pdu"
    "rx_dist e (am_rx_next_highest e) \<le> rx_dist e (am_rx_next_highest e1)"
    "am_rx_base e1" "am_rx_window e1" "am_rx_open e1"
    "\<forall>k. 0 \<le> k \<and> k < am_window_size e \<longrightarrow> rx_slot e1 k =
        (if k = rx_dist e (pdu_sn pdu) then rx_insert pdu (rx_slot e k) else rx_slot e k)"
  using assms rx_view_cong [of e1 e] unfolding am_inserted_def by (auto simp: am_no_rx_def)

lemma am_inserted_slot:
  assumes "am_rx_ok e" "sn_valid e (pdu_sn pdu)" "rx_dist e (pdu_sn pdu) < am_window_size e"
    and "pdu_ok pdu" "pdu_data pdu \<noteq> None" "am_inserted e pdu e1"
  shows "rx_slot e1 (rx_dist e (pdu_sn pdu)) = rx_insert pdu (rx_slot e (rx_dist e (pdu_sn pdu)))"
    "sdu_full e1 (pdu_sn pdu) = Some (rx_completes e pdu)"
    "so_sorted (rx_slot e1 (rx_dist e (pdu_sn pdu)))"
    "\<forall>p \<in> set (rx_slot e1 (rx_dist e (pdu_sn pdu))). pdu_ok p \<and> pdu_sn p = pdu_sn pdu"
    "rx_completes e pdu \<Longrightarrow> \<forall>p \<in> set (rx_slot e1 (rx_dist e (pdu_sn pdu))). pdu_data p \<noteq> None"
    "\<not> rx_completes e pdu \<Longrightarrow> pdus_ok (pdu_sn pdu) (rx_slot e1 (rx_dist e (pdu_sn pdu)))"
    "already_processed (rx_slot e1 (rx_dist e (pdu_sn pdu))) = already_processed (rx_slot e (rx_dist e (pdu_sn pdu)))"
proof -
  note i = am_insertedD [OF assms(6)]
  let ?d = "rx_dist e (pdu_sn pdu)"
  have base: "am_rx_base e" and slots: "am_slots_ok e" using assms(1) by (simp_all add: am_rx_ok_def)
  have d: "0 \<le> ?d" "rx_sn e ?d = pdu_sn pdu" using rx_dist_range [OF base] rx_sn_dist [OF base assms(2)] by auto
  show s: "rx_slot e1 ?d = rx_insert pdu (rx_slot e ?d)" using i(19) d(1) assms(3) by simp
  have "pdus_ok (pdu_sn pdu) (rx_slot e ?d)" using slots d assms(3) by (auto simp: am_slots_ok_def)
  note a = pdus_ok_add [OF this assms(4) refl assms(5), folded rx_insert_def]
  show "so_sorted (rx_slot e1 ?d)" "\<forall>p \<in> set (rx_slot e1 ?d). pdu_ok p \<and> pdu_sn p = pdu_sn pdu"
    using a(2,3) s by simp_all
  show "already_processed (rx_slot e1 ?d) = already_processed (rx_slot e ?d)" using a(1) s by simp
  show "\<forall>p \<in> set (rx_slot e1 ?d). pdu_data p \<noteq> None" if "rx_completes e pdu"
    using a(6) that s by (simp add: rx_completes_def)
  show "pdus_ok (pdu_sn pdu) (rx_slot e1 ?d)" if "\<not> rx_completes e pdu"
    using a(4,5) that s by (auto simp: rx_completes_def)
  show "sdu_full e1 (pdu_sn pdu) = Some (rx_completes e pdu)"
    using rx_lookup_in [OF i(16), of "pdu_sn pdu"] i(1,3,4) assms(2,3) s a(1)
    by (simp add: sdu_full_def rx_completes_def)
qed

lemma am_inserted_acct:
  assumes "am_rx_acct e" "am_inserted e pdu e1" "am_rx_size e + pdu_size pdu \<le> am_rx_maxsize e"
  shows "am_rx_acct e1"
  using assms am_insertedD [OF assms(2)] by (simp add: am_rx_acct_def)

lemma am_inserted_others:
  assumes "am_rx_ok e" "am_inserted e pdu e1"
  shows "\<forall>k. 0 \<le> k \<and> k < am_window_size e \<and> k \<noteq> rx_dist e (pdu_sn pdu) \<longrightarrow> pdus_ok (rx_sn e k) (rx_slot e1 k)"
  using assms am_insertedD(19) [OF assms(2)] by (simp add: am_rx_ok_def am_slots_ok_def)

lemma am_received_complete:
  assumes ok: "am_rx_ok e" and sn: "sn_valid e (pdu_sn pdu)" "rx_dist e (pdu_sn pdu) < am_window_size e"
    and pdu: "pdu_ok pdu" "pdu_data pdu \<noteq> None" and size: "am_rx_size e + pdu_size pdu \<le> am_rx_maxsize e"
    and room: "am_rx_room e (pdu_sn pdu)" and ins: "am_inserted e pdu e1" and full: "rx_completes e pdu"
  obtains e2 e3 e4 n out where "am_reassemble_and_deliver e1 (pdu_sn pdu) = Some e2"
    "update_rx_highest_status e2 (pdu_sn pdu) = Some e3" "update_rx_next e3 (pdu_sn pdu) = Some e4"
    "am_rx_base e4" "am_slots_ok e4" "am_rx_window e4" "am_rx_open e4" "am_rx_acct e4"
    "am_rx_received e pdu n out e4" "am_no_rx e4 = am_no_rx e" 
    "am_t_reassembly_start e4 = am_t_reassembly_start e" "am_rx_next_status_trigger e4 = am_rx_next_status_trigger e"
    "am_rx_next_highest e4 = am_rx_next_highest e1"
proof -
  let ?x = "pdu_sn pdu" and ?d = "rx_dist e (pdu_sn pdu)" and ?W = "am_window_size e"
  note i = am_insertedD [OF ins] and sl = am_inserted_slot [OF ok sn pdu ins]
  have base: "am_rx_base e" using ok by (simp add: am_rx_ok_def)
  have f: "sdu_full_loop (rx_slot e1 ?d) (-1)" using full sl(1) by (simp add: rx_completes_def)
  have rm: "\<exists>k. 0 < k \<and> k < ?W \<and> \<not> slot_done e1 k" if "?x = am_rx_next e" "?x = am_rx_highest_status e"
  proof -
    from room that obtain k where k: "0 < k" "k < ?W" "\<not> slot_done e k" by (auto simp: am_rx_room_def)
    have "rx_dist e ?x = 0" using that(1) by (simp add: rx_dist_def)
    then have "rx_slot e1 k = rx_slot e k" using i(19) k by simp
    then show ?thesis using k i(4) by (auto simp: slot_done_in)
  qed
  obtain e2 e3 e4 n so bad sdu m st hs where
    calls: "am_reassemble_and_deliver e1 ?x = Some e2" "update_rx_highest_status e2 ?x = Some e3" "update_rx_next e3 ?x = Some e4"
    and e4: "e4 = e1\<lparr>am_rx := m, am_rx_size := am_rx_size e1 - stored_bytes (rx_slot e1 ?d),
       ev := ev e @ (if bad then [] else [Deliver_sdu sdu]), stats := st, am_rx_highest_status := hs, am_rx_next := rx_sn e n\<rparr>"
    and r: "reassemble_loop (rx_slot e1 ?d) 0 False [] (am_rx_size e1) = Some (map pdu_processed (rx_slot e1 ?d), so, bad, sdu,
       am_rx_size e1 - stored_bytes (rx_slot e1 ?d))"
    and n: "0 \<le> n" "n \<le> ?W" "\<forall>k. 0 \<le> k \<and> k < n \<longrightarrow>
      already_processed (if k = ?d then map pdu_processed (rx_slot e1 k) else rx_slot e1 k)"
    and slot: "\<forall>k. 0 \<le> k \<and> k < ?W \<longrightarrow> rx_slot e4 k = (if k + n < ?W
      then (if k + n = ?d then map pdu_processed (rx_slot e1 (k + n)) else rx_slot e1 (k + n)) else [])"
    and stored: "rx_stored m \<le> rx_stored (am_rx e1) - stored_bytes (rx_slot e1 ?d)"
    and ok4: "am_rx_base e4" "am_rx_window e4" "am_slots_ok e4" "am_rx_open e4"
    by (rule am_deliver [OF i(16,17), of ?x, unfolded i(1-4,6,8,9), OF sn am_inserted_others [OF ok ins] sl(3,4) sl(5) [OF full] f i(18) rm],
        assumption, assumption, rule that)
  have after: "rx_after e pdu k = (if k = ?d then map pdu_processed (rx_slot e1 k) else rx_slot e1 k)" if "0 \<le> k" "k < ?W" for k
    using i(19) that full by (simp add: rx_after_def)
  define out where "out = (if bad then [] else [Deliver_sdu sdu])"
  have rec: "am_rx_received e pdu n out e4"
    unfolding am_rx_received_def
  proof (intro conjI)
    show "am_rx_next e4 = rx_sn e n" "ev e4 = ev e @ out" by (simp_all add: e4 out_def)
    show "\<forall>k. 0 \<le> k \<and> k < n \<longrightarrow> already_processed (rx_after e pdu k)" using n after by auto
    show "\<forall>k. 0 \<le> k \<and> k < ?W \<longrightarrow> rx_slot e4 k = (if k + n < ?W then rx_after e pdu (k + n) else [])"
      using slot after n(1) by auto
    show "rx_delivers e pdu out"
      using r sl(1) i(5) full by (auto simp: out_def rx_delivers_def)
  qed (use n in simp_all)
  have "0 \<le> stored_bytes (rx_slot e1 ?d)" using sl(4) by (intro stored_bytes_nonneg) simp
  then have acct: "am_rx_acct e4"
    using stored size i(5,10,14) ok by (simp add: e4 am_rx_acct_def am_rx_ok_def)
  show ?thesis
    by (rule that [OF calls ok4(1,3,2,4) acct rec]) (use i in \<open>simp_all add: e4 am_no_rx_def\<close>)
qed

lemma am_received_partial:
  assumes ok: "am_rx_ok e" and sn: "sn_valid e (pdu_sn pdu)" "rx_dist e (pdu_sn pdu) < am_window_size e"
    and pdu: "pdu_ok pdu" "pdu_data pdu \<noteq> None" and ins: "am_inserted e pdu e1" and part: "\<not> rx_completes e pdu"
  shows "am_slots_ok e1" "am_rx_received e pdu 0 [] e1"
proof -
  let ?d = "rx_dist e (pdu_sn pdu)" and ?W = "am_window_size e"
  note i = am_insertedD [OF ins] and sl = am_inserted_slot [OF ok sn pdu ins]
  have base: "am_rx_base e" using ok by (simp add: am_rx_ok_def)
  show "am_slots_ok e1"
    unfolding am_slots_ok_def
  proof (intro allI impI)
    fix k assume k: "0 \<le> k \<and> k < am_window_size e1"
    show "pdus_ok (rx_sn e1 k) (rx_slot e1 k)"
      using am_inserted_others [OF ok ins] sl(6) [OF part] rx_sn_dist [OF base sn(1)] k i(2,4)
      by (cases "k = ?d") simp_all
  qed
  have "rx_after e pdu k = rx_slot e1 k" if "0 \<le> k" "k < ?W" for k
    using i(19) that part by (simp add: rx_after_def)
  then show "am_rx_received e pdu 0 [] e1"
    using i(6,9) part am_rx_baseD(6) [OF base] by (auto simp: am_rx_received_def rx_delivers_def rx_sn_0 base)
qed

lemma am_received_update:
  "am_rx_received e pdu n out e4 \<Longrightarrow>
   am_rx_received e pdu n out (e4\<lparr>am_t_reassembly_start := ts, am_rx_next_status_trigger := trig\<rparr>)"
  by (simp add: am_rx_received_def)

text \<open>Where the trigger of the running timer lies after the window has moved.\<close>

lemma am_trigger_moved:
  assumes ok: "am_rx_ok e" and run: "am_t_reassembly_start e \<noteq> 0"
    and next': "am_rx_next e' = rx_sn e n" "am_sn_modulus e' = am_sn_modulus e" "0 \<le> n" "n \<le> am_window_size e"
    and nh: "rx_dist e (am_rx_next_highest e) \<le> rx_dist e nh" "n \<le> rx_dist e nh"
  shows "rx_dist e' (am_rx_next_status_trigger e) = 0 \<or> rx_dist e' (am_rx_next_status_trigger e) > am_window_size e \<or>
    rx_dist e' (am_rx_next_status_trigger e) \<le> rx_dist e' nh"
proof -
  have base: "am_rx_base e" using ok by (simp add: am_rx_ok_def)
  note b = am_rx_baseD [OF base]
  have nM: "n < am_sn_modulus e" using next'(4) b(5,6) by simp
  note mv = rx_dist_moved [OF base next'(2,1,3) nM]
  have t: "0 < rx_dist e (am_rx_next_status_trigger e)"
    "rx_dist e (am_rx_next_status_trigger e) \<le> rx_dist e (am_rx_next_highest e)"
    using ok run by (auto simp: am_rx_ok_def am_timer_ok_def)
  show ?thesis
    using t nh next'(3,4) b(5) by (cases "n \<le> rx_dist e (am_rx_next_status_trigger e)") (auto simp: mv)
qed

lemma am_run_below_highest:
  assumes "am_inserted e pdu e1" "am_rx_received e pdu n out e4"
  shows "n \<le> rx_dist e (am_rx_next_highest e1)"
proof (rule ccontr)
  note i = am_insertedD [OF assms(1)]
  let ?nh = "rx_dist e (am_rx_next_highest e1)"
  assume a: "\<not> n \<le> ?nh"
  have r: "0 \<le> ?nh" using rx_dist_range [OF i(16)] i(1) by simp
  have "already_processed (rx_after e pdu ?nh)" "?nh < am_window_size e"
    using assms(2) a r by (auto simp: am_rx_received_def)
  moreover have "rx_slot e1 ?nh = []" using i(1,4,17) calculation(2) by (simp add: am_rx_window_def)
  ultimately show False
    using i(19) [rule_format, of ?nh] r by (auto simp: rx_after_def rx_insert_def split: if_splits)
qed

text \<open>
  A segment of the window that is not there yet is stored; the invariant is kept and the effect on
  the window and on the user is as described above.
\<close>

lemma am_reception:
  assumes ok: "am_rx_ok e" and sn: "sn_valid e (pdu_sn pdu)" "rx_dist e (pdu_sn pdu) < am_window_size e"
    and pdu: "pdu_ok pdu" "pdu_data pdu \<noteq> None" and size: "am_rx_size e + pdu_size pdu \<le> am_rx_maxsize e"
    and room: "am_rx_room e (pdu_sn pdu)"
  obtains m e' n out where "nr_rlc_rx_manager_add_pdu (am_rx e) pdu = Some m"
    "reception_actions (e\<lparr>am_rx_size := am_rx_size e + pdu_size pdu, am_rx := m\<rparr>) pdu = Some e'"
    "am_rx_ok e'" "am_rx_frame e e'" "am_rx_received e pdu n out e'"
proof -
  let ?x = "pdu_sn pdu"
  obtain m where add: "nr_rlc_rx_manager_add_pdu (am_rx e) pdu = Some m"
    and ins0: "am_inserted e pdu (rx_advance_highest (e\<lparr>am_rx_size := am_rx_size e + pdu_size pdu, am_rx := m\<rparr>) ?x)"
    by (rule am_insert [OF ok sn pdu])
  define e1 where "e1 = rx_advance_highest (e\<lparr>am_rx_size := am_rx_size e + pdu_size pdu, am_rx := m\<rparr>) ?x"
  note ins = ins0 [folded e1_def]
  note i = am_insertedD [OF ins] and sl = am_inserted_slot [OF ok sn pdu ins]
  have acct1: "am_rx_acct e1" using am_inserted_acct [OF _ ins size] ok by (simp add: am_rx_ok_def)
  obtain e4 n out where body: "(if rx_completes e pdu
       then do { e \<leftarrow> am_reassemble_and_deliver e1 ?x; e \<leftarrow> update_rx_highest_status e ?x; update_rx_next e ?x }
       else Some e1) = Some e4"
    and ok4: "am_rx_base e4" "am_slots_ok e4" "am_rx_window e4" "am_rx_open e4" "am_rx_acct e4"
    and rec: "am_rx_received e pdu n out e4" and fr: "am_no_rx e4 = am_no_rx e"
    and t: "am_t_reassembly_start e4 = am_t_reassembly_start e" "am_rx_next_status_trigger e4 = am_rx_next_status_trigger e"
      "am_rx_next_highest e4 = am_rx_next_highest e1"
  proof (cases "rx_completes e pdu")
    case True
    then show ?thesis
      by (rule am_received_complete [OF ok sn pdu size room ins]) (rule that [rotated], assumption+, simp add: True)
  next
    case False
    then show ?thesis
      using am_received_partial [OF ok sn pdu ins] i acct1 by (intro that [of e1 0 "[]"]) simp_all
  qed
  have base: "am_rx_base e" using ok by (simp add: am_rx_ok_def)
  have mv: "am_rx_next e4 = rx_sn e n" "0 \<le> n" "n \<le> am_window_size e" using rec by (simp_all add: am_rx_received_def)
  have cfg: "am_sn_modulus e4 = am_sn_modulus e" "am_window_size e4 = am_window_size e"
    using am_rx_frame_cfg [of e e4] fr by (simp_all add: am_rx_frame_def)
  have trig: "rx_dist e4 (am_rx_next_status_trigger e4) = 0 \<or> rx_dist e4 (am_rx_next_status_trigger e4) > am_window_size e4 \<or>
      rx_dist e4 (am_rx_next_status_trigger e4) \<le> rx_dist e4 (am_rx_next_highest e4)" if "am_t_reassembly_start e4 \<noteq> 0"
    unfolding t cfg
    by (rule am_trigger_moved [OF ok _ mv(1) cfg(1) mv(2,3) i(15)]) (use that t am_run_below_highest [OF ins rec] in auto)
  obtain e5 ts tr where calls: "stop_t_reassembly e4 = Some e5" "start_t_reassembly e5 =
      Some (e4\<lparr>am_t_reassembly_start := ts, am_rx_next_status_trigger := tr\<rparr>)"
    and ok5: "am_rx_ok (e4\<lparr>am_t_reassembly_start := ts, am_rx_next_status_trigger := tr\<rparr>)"
    using am_reception_timers [OF ok4 trig] by blast
  show ?thesis
  proof (rule that [OF add _ ok5 _ am_received_update [OF rec]])
    show "reception_actions (e\<lparr>am_rx_size := am_rx_size e + pdu_size pdu, am_rx := m\<rparr>) pdu =
        Some (e4\<lparr>am_t_reassembly_start := ts, am_rx_next_status_trigger := tr\<rparr>)"
      using body calls sl(2) by (simp add: reception_actions_alt Let_def e1_def [symmetric])
    show "am_rx_frame e (e4\<lparr>am_t_reassembly_start := ts, am_rx_next_status_trigger := tr\<rparr>)"
      using fr by (simp add: am_rx_frame_def am_no_rx_def)
  qed
qed

section \<open>Received data PDUs\<close>

definition rx_segment :: "int \<Rightarrow> int \<Rightarrow> bool \<Rightarrow> bool \<Rightarrow> byte list \<Rightarrow> nr_rlc_pdu_t" where
  "rx_segment sn so is_first is_last data = \<lparr>pdu_sn = sn, pdu_data = Some data, pdu_size = int (length data),
     pdu_so = so, pdu_is_first = is_first, pdu_is_last = is_last\<rparr>"

lemma rx_segment_sel [simp]:
  "pdu_sn (rx_segment sn so f l data) = sn" "pdu_so (rx_segment sn so f l data) = so"
  "pdu_size (rx_segment sn so f l data) = int (length data)" "pdu_data (rx_segment sn so f l data) = Some data"
  "pdu_is_last (rx_segment sn so f l data) = l"
  by (simp_all add: rx_segment_def)

lemma rx_segment_ok: "0 \<le> so \<Longrightarrow> data \<noteq> [] \<Longrightarrow> pdu_ok (rx_segment sn so f l data)"
  by (simp add: pdu_ok_def)

text \<open>A discarded PDU changes nothing but the statistics and the status trigger.\<close>

definition am_rx_discarded :: "am \<Rightarrow> am \<Rightarrow> bool" where
  "am_rx_discarded e e' \<longleftrightarrow> (\<exists>t st. e' = e\<lparr>am_status_triggered := t, stats := st\<rparr>)"

lemma am_discard_pdu:
  "\<exists>e'. am_discard_pdu e sz p = Some e' \<and> am_rx_discarded e e'"
proof -
  have "am_discard_pdu e sz p = Some (e\<lparr>am_status_triggered := am_status_triggered e \<or> p \<noteq> 0,
      stats := (rxpdu_dd_pkts_update (\<lambda>n. n + 1) \<circ> rxpdu_dd_bytes_update (\<lambda>n. n + of_int sz)) (stats e)\<rparr>)"
    by (simp add: am_discard_pdu_def)
  then show ?thesis unfolding am_rx_discarded_def by blast
qed

lemma am_rx_discarded_stats: "am_rx_discarded (stats_update g e) e' \<Longrightarrow> am_rx_discarded e e'"
  by (auto simp: am_rx_discarded_def)

lemma am_rx_ok_cong:
  assumes "am_rx_ok e" "e' = e\<lparr>am_status_triggered := t, stats := st\<rparr>"
  shows "am_rx_ok e'"
proof -
  have v: "rx_dist e' = rx_dist e" "sn_valid e' = sn_valid e" "rx_sn e' = rx_sn e" "slot_done e' = slot_done e"
    using rx_view_cong [of e' e] assms(2) by (simp_all add: slot_done_def fun_eq_iff)
  then show ?thesis
    using assms by (simp add: am_rx_ok_def am_rx_base_def am_cfg_def am_slots_ok_def am_rx_window_def
        am_rx_open_def am_timer_ok_def am_rx_acct_def)
qed

lemma am_rx_discardedD:
  assumes "am_rx_discarded e e'"
  shows "am_rx_ok e \<Longrightarrow> am_rx_ok e'" "am_rx_frame e e'" "am_rx e' = am_rx e" "am_rx_next e' = am_rx_next e" "ev e' = ev e"
  using assms am_rx_ok_cong [of e e'] by (auto simp: am_rx_discarded_def am_rx_frame_def am_no_rx_def)

definition rx_rejects :: "am \<Rightarrow> int \<Rightarrow> int \<Rightarrow> int \<Rightarrow> bool" where
  "rx_rejects e sn so n \<longleftrightarrow> n \<le> 0 \<or> am_rx_size e + n > am_rx_maxsize e \<or> rx_dist e sn \<ge> am_window_size e \<or>
     {so..<so + n} \<subseteq> bytes_of (rx_slot e (rx_dist e sn))"

lemma am_already_received:
  assumes "am_rx_ok e" "sn_valid e sn" "rx_dist e sn < am_window_size e"
  shows "segment_already_received e sn so n = Some ({so..<so + n} \<subseteq> bytes_of (rx_slot e (rx_dist e sn)))"
proof -
  have base: "am_rx_base e" and slots: "am_slots_ok e" using assms(1) by (simp_all add: am_rx_ok_def)
  have "pdus_ok (rx_sn e (rx_dist e sn)) (rx_slot e (rx_dist e sn))"
    using slots assms(3) rx_dist_range [OF base] by (simp add: am_slots_ok_def)
  then have "so_sorted (rx_slot e (rx_dist e sn))" "\<forall>p \<in> set (rx_slot e (rx_dist e sn)). 0 < pdu_size p"
    by (simp_all add: pdus_ok_def pdu_ok_def)
  then show ?thesis
    by (simp add: segment_already_received_def rx_lookup_in [OF base assms(2,3)] already_received_iff)
qed

text \<open>
  \<open>am_recv_segment\<close> either discards the segment or stores it with the effect \<open>am_rx_received\<close>.
\<close>

lemma am_recv_segment_ok:
  assumes ok: "am_rx_ok e" and sn: "sn_valid e sn" and so: "0 \<le> so"
    and buf: "0 \<le> dec_byte d" "sz \<le> int (length buffer)" and room: "am_rx_room e sn"
  defines "n \<equiv> sz - dec_byte d"
  defines "data \<equiv> take (nat n) (drop (nat (dec_byte d)) buffer)"
  obtains (discarded) e' where "am_recv_segment e buffer sz p sn so is_first is_last d = Some e'"
      "rx_rejects e sn so n" "am_rx_discarded e e'"
    | (stored) e' k out where "am_recv_segment e buffer sz p sn so is_first is_last d = Some e'"
      "\<not> rx_rejects e sn so n" "am_rx_ok e'" "am_rx_frame e e'"
      "am_rx_received e (rx_segment sn so is_first is_last data) k out e'"
proof (cases "rx_rejects e sn so n")
  case True
  have base: "am_rx_base e" using ok by (simp add: am_rx_ok_def)
  note win = sn_in_recv_window_dist [OF base sn]
  have "\<exists>g. am_recv_segment e buffer sz p sn so is_first is_last d = am_discard_pdu (stats_update g e) sz p"
  proof -
    note def = am_recv_segment_def Let_def n_def [symmetric]
    consider "n \<le> 0 \<or> am_rx_size e + n > am_rx_maxsize e"
      | "0 < n" "am_rx_size e + n \<le> am_rx_maxsize e" "am_window_size e \<le> rx_dist e sn"
      | "0 < n" "am_rx_size e + n \<le> am_rx_maxsize e" "rx_dist e sn < am_window_size e"
        "{so..<so + n} \<subseteq> bytes_of (rx_slot e (rx_dist e sn))"
      using True by (fastforce simp: rx_rejects_def)
    then show ?thesis
    proof cases
      case 1
      then show ?thesis by (intro exI [of _ "\<lambda>_. stats e"]) (auto simp: def)
    next
      case 2
      then show ?thesis using win by (simp add: def) blast
    next
      case 3
      then show ?thesis using win am_already_received [OF ok sn, of so n] by (simp add: def) blast
    qed
  qed
  then show ?thesis using am_discard_pdu am_rx_discarded_stats True discarded by metis
next
  case False
  have base: "am_rx_base e" using ok by (simp add: am_rx_ok_def)
  let ?pdu = "rx_segment sn so is_first is_last data"
  have acc: "0 < n" "am_rx_size e + n \<le> am_rx_maxsize e" "rx_dist e sn < am_window_size e"
    "\<not> {so..<so + n} \<subseteq> bytes_of (rx_slot e (rx_dist e sn))"
    using False by (auto simp: rx_rejects_def)
  have len: "int (length data) = n" using buf acc(1) by (simp add: data_def n_def)
  have mem: "mem_slice buffer (sz - n) n = Some data" "mem_slice data 0 n = Some data"
    using buf acc(1) len by (simp_all add: mem_slice_def n_def data_def)
  then have new: "nr_rlc_new_pdu sn so is_first is_last data n = Some ?pdu"
    using len by (simp add: nr_rlc_new_pdu_def rx_segment_def)
  have "data \<noteq> []" using acc(1) len by auto
  then have pre: "sn_valid e (pdu_sn ?pdu)" "rx_dist e (pdu_sn ?pdu) < am_window_size e" "pdu_ok ?pdu" "pdu_data ?pdu \<noteq> None"
    "am_rx_size e + pdu_size ?pdu \<le> am_rx_maxsize e" "am_rx_room e (pdu_sn ?pdu)"
    using sn acc(1-3) len so room rx_segment_ok [of so data] by simp_all
  obtain m e' k out where calls: "nr_rlc_rx_manager_add_pdu (am_rx e) ?pdu = Some m"
    "reception_actions (e\<lparr>am_rx_size := am_rx_size e + n, am_rx := m\<rparr>) ?pdu = Some e'"
    and ok': "am_rx_ok e'" "am_rx_frame e e'" "am_rx_received e ?pdu k out e'"
    by (rule am_reception [OF ok pre, unfolded rx_segment_sel(3) len], rule that)
  let ?e = "e'\<lparr>am_status_triggered := am_status_triggered e' \<or> p \<noteq> 0, stats := stats e'\<rparr>"
  have "am_recv_segment e buffer sz p sn so is_first is_last d = Some ?e"
    using acc calls mem new sn_in_recv_window_dist [OF base sn] am_already_received [OF ok sn acc(3), of so n]
    by (simp add: am_recv_segment_def Let_def n_def [symmetric])
  moreover have "am_rx_ok ?e" by (rule am_rx_ok_cong [OF ok'(1) refl])
  moreover have "am_rx_frame e ?e" "am_rx_received e ?pdu k out ?e"
    using ok'(2,3) by (simp_all add: am_rx_frame_def am_no_rx_def am_rx_received_def)
  ultimately show ?thesis using False stored by blast
qed

end
