(* ===== verification/RLC_AM_Delivery.thy ===== *)
theory RLC_AM_Delivery
  imports RLC_AM_Rx
begin

text \<open>
  What an AM receiver delivers, against a sender that numbers its SDUs.

  \<open>f c\<close> is the SDU with the count \<open>c\<close> (its sequence number is \<open>c\<close> modulo the size of the sequence
  number space). \<open>rx_holds f N e\<close>: \<open>N\<close> is the count of \<open>rx_next\<close> and every stored segment is a piece
  of the SDU whose slot it is in. \<open>rx_delivered N e\<close> are the counts of the delivered SDUs.
\<close>

section \<open>Pieces in the window\<close>

definition sdus_fit :: "(int \<Rightarrow> byte list) \<Rightarrow> bool" where
  "sdus_fit f \<longleftrightarrow> (\<forall>c. f c \<noteq> [] \<and> int (length (f c)) \<le> NR_SDU_MAX)"

definition rx_holds :: "(int \<Rightarrow> byte list) \<Rightarrow> int \<Rightarrow> am \<Rightarrow> bool" where
  "rx_holds f N e \<longleftrightarrow> am_rx_next e = N mod am_sn_modulus e \<and>
     (\<forall>k. 0 \<le> k \<and> k < am_window_size e \<longrightarrow> (\<forall>p \<in> set (rx_slot e k). piece_of (f (N + k)) p) \<and>
        (already_processed (rx_slot e k) \<longrightarrow> bytes_of (rx_slot e k) = {0..<int (length (f (N + k)))}))"

definition rx_delivered :: "int \<Rightarrow> am \<Rightarrow> int set" where
  "rx_delivered N e = {c. c < N \<or> (N \<le> c \<and> c < N + am_window_size e \<and> already_processed (rx_slot e (c - N)))}"

lemma piece_processed: "piece_of d p \<Longrightarrow> piece_of d (pdu_processed p)"
  by (simp add: piece_of_def)

lemma rx_dist_count:
  assumes "am_rx_base e" "am_rx_next e = N mod am_sn_modulus e" "N \<le> c" "c < N + am_sn_modulus e"
  shows "rx_dist e (c mod am_sn_modulus e) = c - N" "sn_valid e (c mod am_sn_modulus e)"
  using assms amrx.modulus_pos [OF assms(1)]
  by (simp_all add: rx_dist_def circ_dist_def mod_simps sn_valid_def)

text \<open>An old SDU, below the window, is out of the window.\<close>

lemma rx_dist_old:
  assumes "am_rx_base e" "am_rx_next e = N mod am_sn_modulus e" "N - am_window_size e \<le> c" "c < N"
  shows "rx_dist e (c mod am_sn_modulus e) \<ge> am_window_size e"
proof -
  note b = am_rx_baseD [OF assms(1)]
  have "rx_dist e ((c + am_sn_modulus e) mod am_sn_modulus e) = c + am_sn_modulus e - N"
    by (rule rx_dist_count(1) [OF assms(1,2)]) (use assms(3,4) b(5,6) in auto)
  then show ?thesis using assms(3) b(5) by simp
qed

text \<open>A stored segment either completes its SDU, which is delivered as it was sent, or it does not.\<close>

lemma rx_delivers_sdu:
  assumes "am_rx_ok e" "\<forall>p \<in> set (rx_slot e (rx_dist e (pdu_sn pdu))). piece_of d p" "piece_of d pdu"
    and "pdu_data pdu \<noteq> None" "int (length d) \<le> NR_SDU_MAX" "sn_valid e (pdu_sn pdu)" "rx_dist e (pdu_sn pdu) < am_window_size e"
    and "rx_delivers e pdu out"
  shows "out = (if rx_completes e pdu then [Deliver_sdu d] else [])"
proof (cases "rx_completes e pdu")
  case True
  let ?l = "rx_insert pdu (rx_slot e (rx_dist e (pdu_sn pdu)))"
  have base: "am_rx_base e" and slots: "am_slots_ok e" using assms(1) by (simp_all add: am_rx_ok_def)
  have "pdus_ok (rx_sn e (rx_dist e (pdu_sn pdu))) (rx_slot e (rx_dist e (pdu_sn pdu)))"
    using slots assms(7) rx_dist_range [OF base] by (simp add: am_slots_ok_def)
  then have "\<forall>p \<in> set (rx_slot e (rx_dist e (pdu_sn pdu))). pdu_data p \<noteq> None"
    using True by (simp add: pdus_ok_def rx_completes_def)
  then have "\<forall>p \<in> set ?l. piece_of d p \<and> pdu_data p \<noteq> None" using assms(2-4) by (auto simp: rx_insert_def)
  moreover have "0 < int (length d)" using assms(3) by (auto simp: piece_of_def)
  ultimately have "reassemble_loop ?l 0 False [] (am_rx_size e + pdu_size pdu) =
      Some (map pdu_processed ?l, int (length d), False, d, am_rx_size e + pdu_size pdu - (\<Sum>p\<leftarrow>?l. pdu_size p))"
    using reassemble_full [of ?l d 0] assms(5) True by (simp add: rx_completes_def)
  then show ?thesis using assms(8) True by (auto simp: rx_delivers_def)
qed (use assms(8) in \<open>simp add: rx_delivers_def\<close>)

lemma bytes_of_pieces: "\<forall>p \<in> set l. piece_of d p \<Longrightarrow> bytes_of l \<subseteq> {0..<int (length d)}"
  by (fastforce simp: bytes_of_def piece_of_def)

lemma full_bytes:
  assumes "so_sorted l" "\<forall>p \<in> set l. piece_of d p" "d \<noteq> []"
  shows "sdu_full_loop l (-1) \<longleftrightarrow> bytes_of l = {0..<int (length d)}"
  using sdu_full_iff [OF assms(1,2), of "-1"] bytes_of_pieces [OF assms(2)] assms(3) by auto

lemma rx_after_slot:
  assumes ok: "am_rx_ok e" and holds: "rx_holds f N e"
    and pdu: "piece_of (f c) pdu" "pdu_sn pdu = c mod am_sn_modulus e" "pdu_ok pdu" "pdu_data pdu \<noteq> None"
    and c: "N \<le> c" "c < N + am_window_size e" and k: "0 \<le> k" "k < am_window_size e"
  shows "rx_dist e (pdu_sn pdu) = c - N"
    "\<forall>p \<in> set (rx_after e pdu k). piece_of (f (N + k)) p"
    "already_processed (rx_after e pdu k) \<longleftrightarrow> already_processed (rx_slot e k) \<or> (k = c - N \<and> rx_completes e pdu)"
    "already_processed (rx_after e pdu k) \<Longrightarrow> bytes_of (rx_after e pdu k) = {0..<int (length (f (N + k)))}"
proof -
  have base: "am_rx_base e" using ok by (simp add: am_rx_ok_def)
  show d: "rx_dist e (pdu_sn pdu) = c - N"
    unfolding pdu(2) by (rule rx_dist_count(1) [OF base]) (use holds c am_rx_baseD(5,6) [OF base] in \<open>auto simp: rx_holds_def\<close>)
  show pieces: "\<forall>p \<in> set (rx_after e pdu k). piece_of (f (N + k)) p"
    using holds k pdu(1) d by (auto simp: rx_after_def rx_insert_def rx_holds_def piece_processed)
  have old: "pdus_ok (rx_sn e k) (rx_slot e k)" using ok k by (simp add: am_rx_ok_def am_slots_ok_def)
  let ?l = "rx_insert pdu (rx_slot e k)"
  have "already_processed (rx_after e pdu k) \<longleftrightarrow> already_processed (rx_slot e k) \<or> rx_completes e pdu"
    "already_processed (rx_after e pdu k) \<Longrightarrow> bytes_of (rx_after e pdu k) = {0..<int (length (f (N + k)))}"
    if kc: "k = c - N"
  proof -
    have "pdu_sn pdu = rx_sn e k" using pdu(2) kc holds by (simp add: rx_sn_def rx_holds_def mod_simps)
    note a = pdus_ok_add [OF old pdu(3) this pdu(4), folded rx_insert_def]
    have "already_processed (map pdu_processed ?l)" by (cases ?l) (auto simp: rx_insert_def)
    then show p: "already_processed (rx_after e pdu k) \<longleftrightarrow> already_processed (rx_slot e k) \<or> rx_completes e pdu"
      using a(1) kc d by (auto simp: rx_after_def)
    have "N + k = c" using kc by simp
    moreover have "\<forall>p \<in> set (rx_slot e k). piece_of (f (N + k)) p" using holds k by (simp add: rx_holds_def)
    ultimately have pl: "\<forall>p \<in> set ?l. piece_of (f (N + k)) p" using pdu(1) by (simp add: rx_insert_def)
    have "f (N + k) \<noteq> []" using pdu(1) kc by (auto simp: piece_of_def)
    note full = full_bytes [OF a(2) pl this]
    have b: "bytes_of (rx_after e pdu k) = bytes_of ?l" using kc d by (simp add: rx_after_def)
    assume "already_processed (rx_after e pdu k)"
    then consider "rx_completes e pdu" | "already_processed (rx_slot e k)" using p by blast
    then show "bytes_of (rx_after e pdu k) = {0..<int (length (f (N + k)))}"
    proof cases
      case 1
      then show ?thesis using full b kc d by (simp add: rx_completes_def)
    next
      case 2
      then have "{0..<int (length (f (N + k)))} \<subseteq> bytes_of ?l" using holds k by (auto simp: rx_holds_def rx_insert_def)
      then show ?thesis using bytes_of_pieces [OF pl] b by blast
    qed
  qed
  then show "already_processed (rx_after e pdu k) \<longleftrightarrow> already_processed (rx_slot e k) \<or> (k = c - N \<and> rx_completes e pdu)"
    "already_processed (rx_after e pdu k) \<Longrightarrow> bytes_of (rx_after e pdu k) = {0..<int (length (f (N + k)))}"
    using holds k d by (cases "k = c - N"; force simp: rx_after_def rx_holds_def)+
qed

lemma rx_received_holds:
  assumes ok: "am_rx_ok e" and holds: "rx_holds f N e"
    and pdu: "piece_of (f c) pdu" "pdu_sn pdu = c mod am_sn_modulus e" "pdu_ok pdu" "pdu_data pdu \<noteq> None"
    and c: "N \<le> c" "c < N + am_window_size e"
    and cfg: "am_sn_modulus e' = am_sn_modulus e" "am_window_size e' = am_window_size e"
    and rec: "am_rx_received e pdu n out e'"
  shows "rx_holds f (N + n) e'"
    "rx_delivered (N + n) e' = (if rx_completes e pdu then insert c (rx_delivered N e) else rx_delivered N e)"
    "rx_completes e pdu \<Longrightarrow> c \<notin> rx_delivered N e"
proof -
  let ?W = "am_window_size e"
  note after = rx_after_slot [OF ok holds pdu c]
  have n: "0 \<le> n" "n \<le> ?W" "\<forall>k. 0 \<le> k \<and> k < n \<longrightarrow> already_processed (rx_after e pdu k)"
    "\<And>k. 0 \<le> k \<Longrightarrow> k < ?W \<Longrightarrow> rx_slot e' k = (if k + n < ?W then rx_after e pdu (k + n) else [])"
    and nxt: "am_rx_next e' = rx_sn e n" using rec by (simp_all add: am_rx_received_def)
  have "am_rx_next e' = (N + n) mod am_sn_modulus e'"
    using nxt holds cfg(1) by (simp add: rx_sn_def rx_holds_def mod_simps)
  moreover have "\<forall>p \<in> set (rx_slot e' k). piece_of (f (N + n + k)) p" if "0 \<le> k" "k < ?W" for k
    using after(2) [of "k + n"] n(1) n(4) [OF that] that by (simp add: algebra_simps)
  moreover have "bytes_of (rx_slot e' k) = {0..<int (length (f (N + n + k)))}"
    if "0 \<le> k" "k < ?W" "already_processed (rx_slot e' k)" for k
    using after(4) [of "k + n"] n(1) n(4) [OF that(1,2)] that by (simp add: algebra_simps split: if_splits)
  ultimately show "rx_holds f (N + n) e'" using cfg by (simp add: rx_holds_def)
  show "rx_completes e pdu \<Longrightarrow> c \<notin> rx_delivered N e"
    using c after(1) [of "c - N"] by (simp add: rx_delivered_def rx_completes_def)
  have "c' \<in> rx_delivered (N + n) e' \<longleftrightarrow> c' \<in> rx_delivered N e \<or> (c' = c \<and> rx_completes e pdu)" for c'
  proof -
    consider "c' < N" | "N \<le> c'" "c' < N + n" | "N + n \<le> c'" "c' < N + ?W" | "N + ?W \<le> c'" by linarith
    then show ?thesis
    proof cases
      case 2
      then have "already_processed (rx_after e pdu (c' - N))" using n(3) by simp
      then show ?thesis using 2 after(3) [of "c' - N"] n(2) by (auto simp: rx_delivered_def)
    next
      case 3
      then have "rx_slot e' (c' - (N + n)) = rx_after e pdu (c' - N)"
        using n(4) [of "c' - (N + n)"] n(1) by (simp add: algebra_simps)
      then show ?thesis using 3 after(3) [of "c' - N"] n(1) cfg(2) by (auto simp: rx_delivered_def)
    next
      case 4
      then have "rx_slot e' (c' - (N + n)) = []" if "c' < N + n + ?W"
        using n(4) [of "c' - (N + n)"] n(2) that by simp
      then show ?thesis using 4 c(2) cfg(2) n(1,2) by (auto simp: rx_delivered_def)
    qed (use c n(1) in \<open>auto simp: rx_delivered_def\<close>)
  qed
  then show "rx_delivered (N + n) e' = (if rx_completes e pdu then insert c (rx_delivered N e) else rx_delivered N e)"
    by auto
qed

end
