(* ===== verification/RLC_AM_Status.thy ===== *)
theory RLC_AM_Status
  imports RLC_AM
begin

text \<open>
  The status reporting of \<open>nr_rlc_entity_am.c\<close> (\<open>get_first_rx_pdu\<close> to \<open>status_size\<close>): the missing parts
  of the reception window are found one after the other and written as NACKs.

  A pointer to a received segment is the list from this segment on to the last one with its sequence
  number; the null pointer is the empty list.
\<close>

section \<open>Walking the received segments\<close>

record missing_data_t =
  md_sn_start :: int
  md_so_start :: int
  md_sn_end :: int
  md_so_end :: int
  md_next :: "nr_rlc_pdu_t list"

partial_function (option) rx_pdu_from :: "am \<Rightarrow> int \<Rightarrow> nr_rlc_pdu_t list option" where
  "rx_pdu_from e sn =
     (if sn \<noteq> am_rx_highest_status e
      then do {
        ret \<leftarrow> nr_rlc_rx_manager_get_pdu_from_sn (am_rx e) sn;
        if ret \<noteq> [] then Some ret else rx_pdu_from e (cmod (sn + 1) (am_sn_modulus e))
      }
      else nr_rlc_rx_manager_get_pdu_from_sn (am_rx e) sn)"

declare rx_pdu_from.simps [code]

definition get_first_rx_pdu :: "am \<Rightarrow> nr_rlc_pdu_t list option" where
  "get_first_rx_pdu e = rx_pdu_from e (am_rx_next e)"

definition get_next_rx_pdu :: "am \<Rightarrow> nr_rlc_pdu_t \<Rightarrow> nr_rlc_pdu_t list \<Rightarrow> nr_rlc_pdu_t list option" where
  "get_next_rx_pdu e cur next_pdus =
     (if next_pdus \<noteq> [] then Some next_pdus
      else if pdu_sn cur = am_rx_highest_status e then Some []
      else rx_pdu_from e (cmod (pdu_sn cur + 1) (am_sn_modulus e)))"

section \<open>The next missing part\<close>

definition md_none :: missing_data_t where
  "md_none = \<lparr>md_sn_start = -1, md_so_start = 0, md_sn_end = 0, md_so_end = 0, md_next = []\<rparr>"

definition before_highest_status :: "am \<Rightarrow> int" where
  "before_highest_status e = cmod (am_rx_highest_status e - 1 + am_sn_modulus e) (am_sn_modulus e)"

definition set_end_different_sdu :: "am \<Rightarrow> nr_rlc_pdu_t \<Rightarrow> missing_data_t \<Rightarrow> missing_data_t" where
  "set_end_different_sdu e cur ret =
     (let ret = (if pdu_is_first cur
                 then ret\<lparr>md_sn_end := cmod (pdu_sn cur - 1 + am_sn_modulus e) (am_sn_modulus e), md_so_end := 0xffff\<rparr>
                 else ret\<lparr>md_sn_end := pdu_sn cur, md_so_end := pdu_so cur - 1\<rparr>)
      in if am_sn_compare_rx e (am_rx_highest_status e) (md_sn_end ret) \<le> 0
         then ret\<lparr>md_sn_end := before_highest_status e, md_so_end := 0xffff, md_next := []\<rparr> else ret)"

text \<open>No PDU follows \<open>cur\<close>: everything behind what was received of it is missing.\<close>

definition missing_at_end :: "am \<Rightarrow> nr_rlc_pdu_t \<Rightarrow> int \<Rightarrow> bool \<Rightarrow> missing_data_t" where
  "missing_at_end e cur max_so last_reached =
     (let (sn_start, so_start) =
        (if pdu_data cur = None \<or> last_reached then (cmod (pdu_sn cur + 1) (am_sn_modulus e), 0)
         else (pdu_sn cur, max_so + 1))
      in if am_sn_compare_rx e (am_rx_highest_status e) sn_start \<le> 0 then md_none
         else \<lparr>md_sn_start = sn_start, md_so_start = so_start, md_sn_end = before_highest_status e,
               md_so_end = 0xffff, md_next = []\<rparr>)"

text \<open>A discontinuity between the SDU \<open>sn\<close> and the PDU \<open>cur\<close>, which may belong to it.\<close>

definition missing_before :: "am \<Rightarrow> int \<Rightarrow> nr_rlc_pdu_t \<Rightarrow> nr_rlc_pdu_t list \<Rightarrow> int \<Rightarrow> bool \<Rightarrow> missing_data_t" where
  "missing_before e sn cur next_pdus max_so last_reached =
     (if pdu_sn cur = sn
      then (if am_sn_compare_rx e (am_rx_highest_status e) sn \<le> 0 then md_none
            else \<lparr>md_sn_start = sn, md_so_start = max_so + 1, md_sn_end = sn, md_so_end = pdu_so cur - 1,
                  md_next = cur # next_pdus\<rparr>)
      else (let (sn_start, so_start) =
              (if last_reached then (cmod (sn + 1) (am_sn_modulus e), 0) else (sn, max_so + 1))
            in if am_sn_compare_rx e (am_rx_highest_status e) sn_start \<le> 0 then md_none
               else set_end_different_sdu e cur
                      \<lparr>md_sn_start = sn_start, md_so_start = so_start, md_sn_end = 0, md_so_end = 0,
                       md_next = cur # next_pdus\<rparr>))"

partial_function (option) next_missing_from ::
  "am \<Rightarrow> nr_rlc_pdu_t \<Rightarrow> nr_rlc_pdu_t list \<Rightarrow> int \<Rightarrow> bool \<Rightarrow> missing_data_t option" where
  "next_missing_from e cur next_pdus max_so last_reached = do {
     let sn = pdu_sn cur;
     let cur_max_so = pdu_so cur + pdu_size cur - 1;
     let max_so = (if cur_max_so > max_so then cur_max_so else max_so);
     let last_reached = (last_reached \<or> pdu_is_last cur);
     cur_next \<leftarrow> get_next_rx_pdu e cur next_pdus;
     (case cur_next of
        [] \<Rightarrow> Some (missing_at_end e cur max_so last_reached)
      | cur # next_pdus \<Rightarrow>
          if pdu_sn cur = sn \<and> max_so \<ge> pdu_so cur - 1
          then next_missing_from e cur next_pdus max_so last_reached
          else if pdu_sn cur = cmod (sn + 1) (am_sn_modulus e) \<and> last_reached \<and> pdu_is_first cur
          then next_missing_from e cur next_pdus 0 False
          else Some (missing_before e sn cur next_pdus max_so last_reached))
   }"

declare next_missing_from.simps [code]

definition next_missing ::
  "am \<Rightarrow> nr_rlc_pdu_t \<Rightarrow> nr_rlc_pdu_t list \<Rightarrow> bool \<Rightarrow> missing_data_t option" where
  "next_missing e cur next_pdus check_head =
     (if check_head \<and> (pdu_sn cur \<noteq> am_rx_next e \<or> \<not> pdu_is_first cur)
      then Some (if am_sn_compare_rx e (am_rx_highest_status e) (am_rx_next e) \<le> 0 then md_none
                 else set_end_different_sdu e cur
                        \<lparr>md_sn_start = am_rx_next e, md_so_start = 0, md_sn_end = 0, md_so_end = 0,
                         md_next = cur # next_pdus\<rparr>)
      else next_missing_from e cur next_pdus 0 False)"

section \<open>Writing NACKs\<close>

text \<open>The NACK of a range of sequence numbers; \<open>md_next\<close> is not used.\<close>

definition nack_size :: "am \<Rightarrow> missing_data_t \<Rightarrow> int" where
  "nack_size e m =
     (let nack_length = 2 + (if am_sn_field_length e = 18 then 1 else 0);
          whole = (md_so_start m = 0 \<and> md_so_end m = 0xffff)
      in if md_sn_start m = md_sn_end m
         then (if whole then nack_length else nack_length + 4)
         else (if whole then nack_length + 1 else nack_length + 5))"

text \<open>The part of \<open>m\<close> that starts at \<open>sn_start\<close>, when \<open>sn_count\<close> sequence numbers remain: at most 255.\<close>

definition nack_cut :: "am \<Rightarrow> missing_data_t \<Rightarrow> nat \<Rightarrow> int \<Rightarrow> missing_data_t" where
  "nack_cut e m sn_count sn_start =
     \<lparr>md_sn_start = sn_start,
      md_so_start = (if sn_start = md_sn_start m then md_so_start m else 0),
      md_sn_end = (if sn_count \<le> 255 then md_sn_end m else cmod (sn_start + 254) (am_sn_modulus e)),
      md_so_end = (if sn_count \<le> 255 then md_so_end m else 0xffff),
      md_next = []\<rparr>"

definition missing_sn_count :: "am \<Rightarrow> missing_data_t \<Rightarrow> nat" where
  "missing_sn_count e m = nat (cmod (md_sn_end m - md_sn_start m + am_sn_modulus e) (am_sn_modulus e) + 1)"

record gen_status_t =
  gs_encoder :: nr_rlc_pdu_encoder_t
  gs_e1_byte :: int
  gs_e1_bit :: int
  gs_truncated :: bool
  gs_so_end_address :: "int option"
  gs_last_nack :: int
  gs_next :: "nr_rlc_pdu_t list"

definition get_e1_position :: "am \<Rightarrow> nr_rlc_pdu_encoder_t \<Rightarrow> int \<times> int" where
  "get_e1_position e enc =
     (if am_sn_field_length e = 18 then (enc_byte enc + 2, 5) else (enc_byte enc + 1, 3))"

definition set_bit_in :: "nr_rlc_pdu_encoder_t \<Rightarrow> int \<Rightarrow> int \<Rightarrow> nr_rlc_pdu_encoder_t option" where
  "set_bit_in enc byte_pos bit_pos = do {
     old \<leftarrow> mem_read (enc_buffer enc) byte_pos;
     buf \<leftarrow> mem_write (enc_buffer enc) byte_pos (old OR push_bit (nat bit_pos) 1);
     Some (enc\<lparr>enc_buffer := buf\<rparr>)
   }"

definition generate_nack :: "am \<Rightarrow> missing_data_t \<Rightarrow> int \<Rightarrow> gen_status_t \<Rightarrow> gen_status_t option" where
  "generate_nack e n cur_sn_count g = do {
     enc \<leftarrow> set_bit_in (gs_encoder g) (gs_e1_byte g) (gs_e1_bit g);
     let (e1_byte, e1_bit) = get_e1_position e enc;
     let e2 = \<not> (md_so_start n = 0 \<and> md_so_end n = 0xffff);
     let e3 = (md_sn_start n \<noteq> md_sn_end n);
     enc \<leftarrow> nr_rlc_pdu_encoder_put_bits enc (md_sn_start n) (am_sn_field_length e);
     enc \<leftarrow> nr_rlc_pdu_encoder_put_bits enc 0 1;
     enc \<leftarrow> nr_rlc_pdu_encoder_put_bits enc (of_bool e2) 1;
     enc \<leftarrow> nr_rlc_pdu_encoder_put_bits enc (of_bool e3) 1;
     enc \<leftarrow> nr_rlc_pdu_encoder_put_bits enc 0 (if am_sn_field_length e = 18 then 3 else 1);
     (enc, so_end_address) \<leftarrow> (if e2
       then do {
         enc \<leftarrow> nr_rlc_pdu_encoder_put_bits enc (md_so_start n) 16;
         let so_end_address = enc_byte enc;
         enc \<leftarrow> nr_rlc_pdu_encoder_put_bits enc (md_so_end n) 16;
         Some (enc, Some so_end_address)
       }
       else Some (enc, None));
     enc \<leftarrow> (if e3 then nr_rlc_pdu_encoder_put_bits enc cur_sn_count 8 else Some enc);
     Some (g\<lparr>gs_encoder := enc, gs_e1_byte := e1_byte, gs_e1_bit := e1_bit,
       gs_so_end_address := so_end_address,
       gs_last_nack := md_sn_start n + (if e3 then cur_sn_count - 1 else 0)\<rparr>)
   }"

function generate_missing ::
  "am \<Rightarrow> missing_data_t \<Rightarrow> nat \<Rightarrow> int \<Rightarrow> gen_status_t \<Rightarrow> gen_status_t option" where
  "generate_missing e m sn_count sn_start g =
     (if sn_count = 0 then Some g
      else if enc_byte (gs_encoder g) + nack_size e (nack_cut e m sn_count sn_start) > enc_size (gs_encoder g)
      then Some (g\<lparr>gs_next := [], gs_truncated := True\<rparr>)
      else (case generate_nack e (nack_cut e m sn_count sn_start) (int (min sn_count 255)) g of
          None \<Rightarrow> None
        | Some g \<Rightarrow> generate_missing e m (sn_count - min sn_count 255)
            (cmod (sn_start + int (min sn_count 255)) (am_sn_modulus e)) g))"
  by pat_completeness auto
termination
  by (relation "measure (\<lambda>(_, _, n, _, _). n)") auto

section \<open>The status PDU\<close>

text \<open>
  The loop of \<open>generate_status\<close> over the missing parts; the last component is \<open>last_nack\<close>. The \<open>so_end\<close>
  of the last NACK is set to the end of the SDU when not all of the NACKs had room.
\<close>

definition force_so_end :: "gen_status_t \<Rightarrow> gen_status_t option" where
  "force_so_end g =
     (case gs_so_end_address g of
        Some p \<Rightarrow> if gs_truncated g
          then do {
            buf \<leftarrow> mem_write (enc_buffer (gs_encoder g)) p 0xff;
            buf \<leftarrow> mem_write buf (p + 1) 0xff;
            Some (g\<lparr>gs_encoder := (gs_encoder g)\<lparr>enc_buffer := buf\<rparr>\<rparr>)
          }
          else Some g
      | None \<Rightarrow> Some g)"

partial_function (option) generate_nacks ::
  "am \<Rightarrow> bool \<Rightarrow> nr_rlc_pdu_t list \<Rightarrow> gen_status_t \<Rightarrow> int \<Rightarrow> (gen_status_t \<times> int) option" where
  "generate_nacks e check_head pdus g last_nack =
     (case pdus of
        [] \<Rightarrow> Some (g, last_nack)
      | cur # next_pdus \<Rightarrow> do {
          m \<leftarrow> next_missing e cur next_pdus check_head;
          if md_sn_start m = -1 then Some (g, last_nack)
          else do {
            g \<leftarrow> generate_missing e m (missing_sn_count e m) (md_sn_start m)
                   (g\<lparr>gs_truncated := False, gs_last_nack := -1, gs_next := md_next m\<rparr>);
            let last_nack = (if gs_last_nack g \<noteq> -1 then gs_last_nack g else last_nack);
            g \<leftarrow> force_so_end g;
            generate_nacks e False (gs_next g) g last_nack
          }
        })"

declare generate_nacks.simps [code]

definition put_ack_sn :: "am \<Rightarrow> int \<Rightarrow> byte list \<Rightarrow> byte list option" where
  "put_ack_sn e ack_sn buffer =
     (if am_sn_field_length e = 12
      then do {
        buffer \<leftarrow> mem_write buffer 0 (of_int (drop_bit 8 ack_sn));
        mem_write buffer 1 (of_int (ack_sn AND 255))
      }
      else do {
        buffer \<leftarrow> mem_write buffer 0 (of_int (drop_bit 14 ack_sn));
        buffer \<leftarrow> mem_write buffer 1 (of_int (drop_bit 6 ack_sn AND 255));
        old \<leftarrow> mem_read buffer 2;
        mem_write buffer 2 (old OR of_int (push_bit 2 (ack_sn AND 0x3f)))
      })"

definition generate_status :: "am \<Rightarrow> byte list \<Rightarrow> int \<Rightarrow> (am \<times> byte list \<times> int) option" where
  "generate_status e buffer sz =
     (if sz < 3 then Some (e, buffer, 0)
      else do {
        let last_nack = cmod (am_rx_next e - 1 + am_sn_modulus e) (am_sn_modulus e);
        enc \<leftarrow> nr_rlc_pdu_encoder_put_bits (nr_rlc_pdu_encoder_init buffer sz) 0 (8 * 3);
        cur \<leftarrow> get_first_rx_pdu e;
        (g, last_nack) \<leftarrow> generate_nacks e True cur
          \<lparr>gs_encoder = enc, gs_e1_byte = 2, gs_e1_bit = (if am_sn_field_length e = 18 then 1 else 7),
           gs_truncated = False, gs_so_end_address = None, gs_last_nack = -1, gs_next = []\<rparr> last_nack;
        buffer \<leftarrow> put_ack_sn e (cmod (last_nack + 1) (am_sn_modulus e)) (enc_buffer (gs_encoder g));
        let n = enc_byte (gs_encoder g);
        let e = e\<lparr>am_status_triggered := False, am_t_status_prohibit_start := am_t_current e\<rparr>;
        Some (stats_update (txpdu_pkts_update (\<lambda>x. x + 1) \<circ> txpdu_bytes_update (\<lambda>x. x + of_int n) \<circ>
                txpdu_status_pkts_update (\<lambda>x. x + 1) \<circ> txpdu_status_bytes_update (\<lambda>x. x + of_int n)) e,
              buffer, n)
      })"

definition status_to_report :: "am \<Rightarrow> bool" where
  "status_to_report e \<longleftrightarrow> am_status_triggered e \<and>
     (am_t_status_prohibit_start e = 0 \<or>
      am_t_current e - am_t_status_prohibit_start e > of_int (am_t_status_prohibit e))"

section \<open>The size of the status PDU\<close>

definition nack_bytes :: "am \<Rightarrow> missing_data_t \<Rightarrow> int" where
  "nack_bytes e m =
     (let r_bits = (if am_sn_field_length e = 18 then 3 else 1);
          whole = (md_so_start m = 0 \<and> md_so_end m = 0xffff)
      in if md_sn_start m = md_sn_end m
         then (if whole then (am_sn_field_length e + 3 + r_bits) div 8
               else (am_sn_field_length e + 3 + r_bits + 16 * 2) div 8)
         else (if whole then (am_sn_field_length e + 3 + r_bits + 8) div 8
               else (am_sn_field_length e + 3 + r_bits + 16 * 2 + 8) div 8))"

text \<open>\<open>missing_size\<close> returns the number of NACKs, the size, and the PDU to continue with.\<close>

function missing_size ::
  "am \<Rightarrow> missing_data_t \<Rightarrow> nat \<Rightarrow> int \<Rightarrow> int \<Rightarrow> int \<Rightarrow> int \<Rightarrow> int \<times> int \<times> nr_rlc_pdu_t list" where
  "missing_size e m sn_count sn_start range_count sz maxsize =
     (if sn_count = 0 then (range_count, sz, md_next m)
      else if sz + nack_size e (nack_cut e m sn_count sn_start) > maxsize then (range_count, sz, [])
      else missing_size e m (sn_count - min sn_count 255)
             (cmod (sn_start + int (min sn_count 255)) (am_sn_modulus e)) (range_count + 1)
             (sz + nack_bytes e (nack_cut e m sn_count sn_start)) maxsize)"
  by pat_completeness auto
termination
  by (relation "measure (\<lambda>(_, _, n, _, _, _, _). n)") auto

partial_function (option) nacks_size ::
  "am \<Rightarrow> int \<Rightarrow> nr_rlc_pdu_t list \<Rightarrow> int \<Rightarrow> int \<Rightarrow> int option" where
  "nacks_size e nack_count pdus sz maxsize =
     (case pdus of
        [] \<Rightarrow> Some sz
      | cur # next_pdus \<Rightarrow> do {
          m \<leftarrow> next_missing e cur next_pdus (nack_count = 0);
          if md_sn_start m = -1 then Some sz
          else do {
            let (range_count, sz, nxt) =
              missing_size e m (missing_sn_count e m) (md_sn_start m) 0 sz maxsize;
            nacks_size e (nack_count + range_count) nxt sz maxsize
          }
        })"

declare nacks_size.simps [code]

definition am_status_size :: "am \<Rightarrow> int \<Rightarrow> int option" where
  "am_status_size e maxsize =
     (if maxsize < 3 then Some 0
      else do {
        cur \<leftarrow> get_first_rx_pdu e;
        nacks_size e 0 cur 3 maxsize
      })"

end
