(* ===== verification/RLC_AM_Control.thy ===== *)
theory RLC_AM_Control
  imports RLC_AM
begin

text \<open>
  \<open>process_control_pdu\<close> of \<open>nr_rlc_entity_am.c\<close>: an AM entity receives a status PDU. The PDU is read
  twice, first to validate it, then to process its NACKs against the wait list and the retransmit
  list, both ordered by sequence number and offset, and to release what ACK_SN acknowledges. Then
  \<open>nr_rlc_entity_am_recv_pdu\<close>, which tells control from data PDUs.

  The local variables of the function are the record \<open>ctrl_t\<close>. A list that is walked with a pointer
  is cut at the pointer: \<open>wl_kept\<close> are the nodes up to \<open>prev_wait_list\<close> and \<open>wl_rest\<close> the ones behind
  it; \<open>wl_null\<close> says that \<open>cur_wait_list\<close> was set to null although nodes remain. \<open>rtx_new\<close> are the
  nodes up to \<open>new_retransmit_list\<close>, \<open>rtx_link\<close> is what its \<open>next\<close> points to, \<open>rtx_cur\<close> the nodes from
  \<open>cur_retransmit_list\<close> on. \<open>wl_end\<close> is \<open>end_wait_list\<close>: \<open>Some None\<close> is the list head on the stack.
\<close>

section \<open>Local state\<close>

record ctrl_t =
  c_e :: am
  wl_kept :: "seg list"
  wl_rest :: "seg list"
  wl_null :: bool
  wl_end :: "seg option option"
  rtx_new :: "seg list"
  rtx_link :: "seg list"
  rtx_cur :: "seg list"

datatype nack_outcome = Done_nack | Lists_over

definition seg_sn :: "am \<Rightarrow> seg \<Rightarrow> int option" where
  "seg_sn e s = map_option sdu_sn (heap_sdus (sdus e) (seg_sdu s))"

definition so_overlap :: "int \<Rightarrow> int \<Rightarrow> int \<Rightarrow> int \<Rightarrow> bool" where
  "so_overlap s1 e1 s2 e2 =
     (if s1 < s2 then e1 = -1 \<or> e1 \<ge> s2 else e2 = -1 \<or> s1 \<le> e2)"

text \<open>A segment is acknowledged: it is freed, and the delivery is reported with the last one of its SDU.\<close>

definition ack_segment :: "am \<Rightarrow> seg \<Rightarrow> am option" where
  "ack_segment e s = do {
     sdu \<leftarrow> heap_sdus (sdus e) (seg_sdu s);
     (freed, h) \<leftarrow> nr_rlc_free_sdu_segment (sdus e) s;
     let e = e\<lparr>sdus := h\<rparr>;
     Some (if freed
       then emit (Sdu_successful_delivery (sdu_upper_layer_id sdu))
              (stats_update (txsdu_bytes_update (\<lambda>n. n + of_int (sdu_size sdu)))
                (e\<lparr>am_tx_size := am_tx_size e - sdu_size sdu\<rparr>))
       else e)
   }"

definition cur_wait :: "ctrl_t \<Rightarrow> seg list" where
  "cur_wait c = (if wl_null c then [] else wl_rest c)"

definition prev_wait :: "ctrl_t \<Rightarrow> seg option" where
  "prev_wait c = (if wl_kept c = [] then None else Some (last (wl_kept c)))"

text \<open>Unlinking the head of the wait list, with the note for \<open>wait_end\<close> when it was the last one.\<close>

definition unlink_wait :: "ctrl_t \<Rightarrow> seg \<Rightarrow> ctrl_t" where
  "unlink_wait c s =
     c\<lparr>wl_rest := tl (wl_rest c),
       wl_end := (if map_option seg_addr (am_wait_end (c_e c)) = Some (seg_addr s)
                  then Some (prev_wait c) else wl_end c)\<rparr>"

section \<open>Processing one NACK\<close>

definition process_wait_list_head ::
  "int \<Rightarrow> int \<Rightarrow> int \<Rightarrow> int \<Rightarrow> ctrl_t \<Rightarrow> seg \<Rightarrow> (nack_outcome \<times> ctrl_t + ctrl_t) option" where
  "process_wait_list_head ack_sn nack_sn so_start so_end c s = do {
     let e = c_e c;
     sdu \<leftarrow> heap_sdus (sdus e) (seg_sdu s);
     if sdu_sn sdu = nack_sn \<and> so_overlap so_start so_end (seg_so s) (seg_so s + seg_size s - 1)
     then do {
       let c = (unlink_wait c s)\<lparr>rtx_new := rtx_new c @ [s], rtx_link := []\<rparr>;
       let sdu = sdu\<lparr>sdu_retx_count := sdu_retx_count sdu + 1\<rparr>;
       let e = e\<lparr>sdus := heap_put (sdus e) (seg_sdu s) sdu\<rparr>;
       let e = (if sdu_retx_count sdu \<ge> am_max_retx_threshold e * sdu_ref_count sdu
                then emit Max_retx_reached e else e);
       let e = bstatus_update (bs_retx_size_update (\<lambda>n. n + (am_compute_pdu_header_size e s + seg_size s))) e;
       Some (Inr (c\<lparr>c_e := e\<rparr>))
     }
     else if am_sn_compare_tx e (sdu_sn sdu) nack_sn > 0 \<or>
             (am_sn_compare_tx e (sdu_sn sdu) nack_sn = 0 \<and> seg_so s > so_start)
     then Some (Inl (Done_nack, c))
     else if am_sn_compare_tx e (sdu_sn sdu) ack_sn < 0
     then do {
       e \<leftarrow> ack_segment e s;
       Some (Inr ((unlink_wait c s)\<lparr>c_e := e\<rparr>))
     }
     else if am_sn_compare_tx e (sdu_sn sdu) ack_sn > 0
     then Some (Inr (c\<lparr>wl_null := True\<rparr>))
     else Some (Inr (c\<lparr>wl_kept := wl_kept c @ [s], wl_rest := tl (wl_rest c)\<rparr>))
   }"

definition process_retransmit_list_head ::
  "int \<Rightarrow> int \<Rightarrow> int \<Rightarrow> int \<Rightarrow> ctrl_t \<Rightarrow> seg \<Rightarrow> (nack_outcome \<times> ctrl_t + ctrl_t) option" where
  "process_retransmit_list_head ack_sn nack_sn so_start so_end c s = do {
     let e = c_e c;
     sn \<leftarrow> seg_sn e s;
     if sn = nack_sn \<and> so_overlap so_start so_end (seg_so s) (seg_so s + seg_size s - 1)
     then Some (Inr (c\<lparr>rtx_new := rtx_new c @ [s], rtx_link := [], rtx_cur := tl (rtx_cur c)\<rparr>))
     else if am_sn_compare_tx e sn nack_sn > 0 \<or> (am_sn_compare_tx e sn nack_sn = 0 \<and> seg_so s > so_start)
     then Some (Inl (Done_nack, c))
     else if am_sn_compare_tx e sn ack_sn < 0
     then do {
       let e = bstatus_update (bs_retx_size_update (\<lambda>n. n - (am_compute_pdu_header_size e s + seg_size s))) e;
       e \<leftarrow> ack_segment e s;
       Some (Inr (c\<lparr>c_e := e, rtx_cur := tl (rtx_cur c)\<rparr>))
     }
     else if cur_wait c = []
     then Some (Inl (Lists_over, c\<lparr>rtx_link := rtx_cur c, rtx_cur := []\<rparr>))
     else Some (Inr (c\<lparr>rtx_new := rtx_new c @ [s], rtx_link := [], rtx_cur := tl (rtx_cur c)\<rparr>))
   }"

definition process_next_pdu ::
  "int \<Rightarrow> int \<Rightarrow> int \<Rightarrow> int \<Rightarrow> ctrl_t \<Rightarrow> (nack_outcome \<times> ctrl_t + ctrl_t) option" where
  "process_next_pdu ack_sn nack_sn so_start so_end c =
     (case (cur_wait c, rtx_cur c) of
        ([], []) \<Rightarrow> Some (Inl (Lists_over, c))
      | ([], r # _) \<Rightarrow> process_retransmit_list_head ack_sn nack_sn so_start so_end c r
      | (w # _, []) \<Rightarrow> process_wait_list_head ack_sn nack_sn so_start so_end c w
      | (w # _, r # _) \<Rightarrow> do {
          wsn \<leftarrow> seg_sn (c_e c) w;
          rsn \<leftarrow> seg_sn (c_e c) r;
          let cmp = am_sn_compare_tx (c_e c) wsn rsn;
          if cmp < 0 \<or> (cmp = 0 \<and> seg_so w < seg_so r)
          then process_wait_list_head ack_sn nack_sn so_start so_end c w
          else process_retransmit_list_head ack_sn nack_sn so_start so_end c r
        })"

text \<open>
  Every step that continues moves on in one of the two lists, so the loop ends.
\<close>

definition ctrl_size :: "ctrl_t \<Rightarrow> nat" where
  "ctrl_size c = (if wl_null c then 0 else Suc (length (wl_rest c))) + length (rtx_cur c)"

lemma process_wait_list_head_decreases:
  assumes "process_wait_list_head ack_sn nack_sn so_start so_end c s = Some (Inr c')" "cur_wait c = s # l"
  shows "ctrl_size c' < ctrl_size c"
proof -
  have w: "\<not> wl_null c" "wl_rest c = s # l" using assms(2) by (auto simp: cur_wait_def split: if_splits)
  then have u: "ctrl_size ((unlink_wait c s)\<lparr>c_e := e\<rparr>) < ctrl_size c"
    "ctrl_size ((unlink_wait c s)\<lparr>rtx_new := n, rtx_link := k, c_e := e\<rparr>) < ctrl_size c" for e n k
    by (simp_all add: ctrl_size_def unlink_wait_def)
  from w have "ctrl_size (c\<lparr>wl_null := True\<rparr>) < ctrl_size c"
    "ctrl_size (c\<lparr>wl_kept := n, wl_rest := tl (wl_rest c)\<rparr>) < ctrl_size c" for n
    by (simp_all add: ctrl_size_def)
  with u assms(1) show ?thesis
    by (auto simp: process_wait_list_head_def Let_def bind_Some_iff split: if_split_asm)
qed

lemma process_retransmit_list_head_decreases:
  assumes "process_retransmit_list_head ack_sn nack_sn so_start so_end c s = Some (Inr c')" "rtx_cur c = s # l"
  shows "ctrl_size c' < ctrl_size c"
proof -
  have "ctrl_size (c\<lparr>c_e := e, rtx_cur := tl (rtx_cur c)\<rparr>) < ctrl_size c"
    "ctrl_size (c\<lparr>rtx_new := n, rtx_link := k, rtx_cur := tl (rtx_cur c)\<rparr>) < ctrl_size c" for e n k
    using assms(2) by (simp_all add: ctrl_size_def)
  with assms(1) show ?thesis
    by (auto simp: process_retransmit_list_head_def Let_def bind_Some_iff split: if_split_asm)
qed

lemma process_next_pdu_decreases:
  "process_next_pdu ack_sn nack_sn so_start so_end c = Some (Inr c') \<Longrightarrow> ctrl_size c' < ctrl_size c"
  using process_wait_list_head_decreases process_retransmit_list_head_decreases
  by (auto simp: process_next_pdu_def Let_def bind_Some_iff split: list.split_asm if_split_asm)

function process_nack ::
  "int \<Rightarrow> int \<Rightarrow> int \<Rightarrow> int \<Rightarrow> ctrl_t \<Rightarrow> (nack_outcome \<times> ctrl_t) option" where
  "process_nack ack_sn nack_sn so_start so_end c =
     (case process_next_pdu ack_sn nack_sn so_start so_end c of
        None \<Rightarrow> None
      | Some (Inl r) \<Rightarrow> Some r
      | Some (Inr c') \<Rightarrow> process_nack ack_sn nack_sn so_start so_end c')"
  by pat_completeness auto
termination
  by (relation "measure (\<lambda>(_, _, _, _, c). ctrl_size c)") (auto dest: process_next_pdu_decreases)

text \<open>The NACKs of one range; \<open>n\<close> of them remain.\<close>

fun process_nack_range ::
  "nat \<Rightarrow> int \<Rightarrow> int \<Rightarrow> int \<Rightarrow> int \<Rightarrow> int \<Rightarrow> ctrl_t \<Rightarrow> ctrl_t option" where
  "process_nack_range 0 ack_sn nack_sn so_start so_end rng c = Some c"
| "process_nack_range (Suc n) ack_sn nack_sn so_start so_end rng c = do {
     let i = rng - int (Suc n);
     (r, c) \<leftarrow> process_nack ack_sn (cmod (nack_sn + i) (am_sn_modulus (c_e c)))
       (if i = 0 then so_start else 0) (if i = rng - 1 then so_end else -1) c;
     (case r of
        Lists_over \<Rightarrow> Some c
      | Done_nack \<Rightarrow> process_nack_range n ack_sn nack_sn so_start so_end rng c)
   }"

section \<open>Reading the status PDU\<close>

record nack_t =
  nk_sn :: int
  nk_e1 :: int
  nk_so_start :: int
  nk_so_end :: int
  nk_range :: int

text \<open>
  \<open>None\<close> inside is the error label. The second reading has no checks: it follows a successful first one.
\<close>

definition read_nack_checked ::
  "am \<Rightarrow> nr_rlc_pdu_decoder_t \<Rightarrow> (nack_t \<times> nr_rlc_pdu_decoder_t) option option" where
  "read_nack_checked e d =
     get_field d (am_sn_field_length e) (\<lambda>_. Some None) (\<lambda>nack_sn d.
     get_field d 1 (\<lambda>_. Some None) (\<lambda>e1 d.
     get_field d 1 (\<lambda>_. Some None) (\<lambda>e2 d.
     get_field d 1 (\<lambda>_. Some None) (\<lambda>e3 d.
     get_field d (if am_sn_field_length e = 18 then 3 else 1) (\<lambda>_. Some None) (\<lambda>_ d.
     (\<lambda>k. if e2 \<noteq> 0
          then get_field d 16 (\<lambda>_. Some None) (\<lambda>so_start d.
               get_field d 16 (\<lambda>_. Some None) (\<lambda>so_end d. k so_start so_end d))
          else k 0 0xffff d) (\<lambda>so_start so_end d.
     (\<lambda>k. if e3 \<noteq> 0 then get_field d 8 (\<lambda>_. Some None) k else k 1 d) (\<lambda>rng d.
     Some (Some (\<lparr>nk_sn = nack_sn, nk_e1 = e1, nk_so_start = so_start,
       nk_so_end = (if so_end = 0xffff then -1 else so_end), nk_range = rng\<rparr>, d)))))))))"

definition read_nack :: "am \<Rightarrow> nr_rlc_pdu_decoder_t \<Rightarrow> (nack_t \<times> nr_rlc_pdu_decoder_t) option" where
  "read_nack e d = do {
     (nack_sn, d) \<leftarrow> nr_rlc_pdu_decoder_get_bits d (am_sn_field_length e);
     (e1, d) \<leftarrow> nr_rlc_pdu_decoder_get_bits d 1;
     (e2, d) \<leftarrow> nr_rlc_pdu_decoder_get_bits d 1;
     (e3, d) \<leftarrow> nr_rlc_pdu_decoder_get_bits d 1;
     (_, d) \<leftarrow> nr_rlc_pdu_decoder_get_bits d (if am_sn_field_length e = 18 then 3 else 1);
     (so_start, so_end, d) \<leftarrow> (if e2 \<noteq> 0
       then do {
         (so_start, d) \<leftarrow> nr_rlc_pdu_decoder_get_bits d 16;
         (so_end, d) \<leftarrow> nr_rlc_pdu_decoder_get_bits d 16;
         Some (so_start, so_end, d)
       }
       else Some (0, 0xffff, d));
     (rng, d) \<leftarrow> (if e3 \<noteq> 0 then nr_rlc_pdu_decoder_get_bits d 8 else Some (1, d));
     Some (\<lparr>nk_sn = nack_sn, nk_e1 = e1, nk_so_start = so_start,
       nk_so_end = (if so_end = 0xffff then -1 else so_end), nk_range = rng\<rparr>, d)
   }"

text \<open>
  The check of the NACKs of one range against the previous NACK and ACK_SN. The variables
  \<open>prev_nack_sn\<close>, \<open>prev_so_end\<close> of the function keep their initial values during the validation.
\<close>

fun nack_range_valid :: "nat \<Rightarrow> am \<Rightarrow> int \<Rightarrow> int \<Rightarrow> int \<Rightarrow> nack_t \<Rightarrow> bool" where
  "nack_range_valid 0 e ack_sn prev_nack_sn prev_so_end nk = True"
| "nack_range_valid (Suc n) e ack_sn prev_nack_sn prev_so_end nk =
     (let i = nk_range nk - int (Suc n);
          cur_nack_sn = cmod (nk_sn nk + i) (am_sn_modulus e);
          cur_so_start = (if i = 0 then nk_so_start nk else 0)
      in \<not> (prev_nack_sn \<noteq> -1 \<and>
            (am_sn_compare_tx e cur_nack_sn prev_nack_sn < 0 \<or>
             (am_sn_compare_tx e cur_nack_sn prev_nack_sn = 0 \<and>
              (prev_so_end = -1 \<or> cur_so_start \<le> prev_so_end)))) \<and>
         \<not> am_sn_compare_tx e cur_nack_sn ack_sn > 0 \<and>
         nack_range_valid n e ack_sn prev_nack_sn prev_so_end nk)"

partial_function (option) validate_nacks :: "am \<Rightarrow> int \<Rightarrow> nr_rlc_pdu_decoder_t \<Rightarrow> int \<Rightarrow> bool option" where
  "validate_nacks e ack_sn d e1 =
     (if e1 = 0 then Some True
      else do {
        r \<leftarrow> read_nack_checked e d;
        (case r of
           None \<Rightarrow> Some False
         | Some (nk, d) \<Rightarrow>
             if nack_range_valid (nat (nk_range nk)) e ack_sn (-1) 0 nk
             then validate_nacks e ack_sn d (nk_e1 nk)
             else Some False)
      })"

declare validate_nacks.simps [code]

text \<open>The result is ACK_SN, the first E1 and the decoder behind the fixed part; \<open>None\<close> inside: discard.\<close>

definition validate_control_pdu ::
  "am \<Rightarrow> byte list \<Rightarrow> int \<Rightarrow> (int \<times> int \<times> nr_rlc_pdu_decoder_t) option option" where
  "validate_control_pdu e buffer sz =
     get_field (nr_rlc_pdu_decoder_init buffer sz) 1 (\<lambda>_. Some None) (\<lambda>_ d.
     get_field d 3 (\<lambda>_. Some None) (\<lambda>cpt d.
     if cpt \<noteq> 0 then Some None
     else
     get_field d (am_sn_field_length e) (\<lambda>_. Some None) (\<lambda>ack_sn d.
     get_field d 1 (\<lambda>_. Some None) (\<lambda>e1 d.
     get_field d (if am_sn_field_length e = 18 then 1 else 7) (\<lambda>_. Some None) (\<lambda>_ d.
     if am_sn_compare_tx e ack_sn (am_tx_next e) > 0 then Some None
     else do {
       valid \<leftarrow> validate_nacks e ack_sn d e1;
       Some (if valid then Some (ack_sn, e1, d) else None)
     })))))"

section \<open>Processing the status PDU\<close>

partial_function (option) process_nacks ::
  "int \<Rightarrow> nr_rlc_pdu_decoder_t \<Rightarrow> int \<Rightarrow> ctrl_t \<Rightarrow> ctrl_t option" where
  "process_nacks ack_sn d e1 c =
     (if e1 = 0 then Some c
      else do {
        (nk, d) \<leftarrow> read_nack (c_e c) d;
        c \<leftarrow> process_nack_range (nat (nk_range nk)) ack_sn (nk_sn nk) (nk_so_start nk) (nk_so_end nk) (nk_range nk) c;
        let e = c_e c;
        let c = (if am_sn_compare_tx e (nk_sn nk) (am_poll_sn e) \<le> 0 \<and>
                    am_sn_compare_tx e (am_poll_sn e) (cmod (nk_sn nk + nk_range nk) (am_sn_modulus e)) < 0
                 then c\<lparr>c_e := e\<lparr>am_t_poll_retransmit_start := 0\<rparr>\<rparr> else c);
        process_nacks ack_sn d (nk_e1 nk) c
      })"

declare process_nacks.simps [code]

text \<open>What ACK_SN acknowledges is released from both lists.\<close>

function ack_wait_list :: "int \<Rightarrow> ctrl_t \<Rightarrow> ctrl_t option" where
  "ack_wait_list ack_sn c =
     (case cur_wait c of
        [] \<Rightarrow> Some c
      | s # _ \<Rightarrow> (case seg_sn (c_e c) s of
          None \<Rightarrow> None
        | Some sn \<Rightarrow>
            if am_sn_compare_tx (c_e c) sn ack_sn < 0
            then (case ack_segment (c_e c) s of
                None \<Rightarrow> None
              | Some e \<Rightarrow> ack_wait_list ack_sn ((unlink_wait c s)\<lparr>c_e := e\<rparr>))
            else Some c))"
  by pat_completeness auto
termination
  by (relation "measure (\<lambda>(_, c). length (wl_rest c))") (auto simp: cur_wait_def unlink_wait_def split: if_splits)

function ack_retransmit_list :: "int \<Rightarrow> ctrl_t \<Rightarrow> ctrl_t option" where
  "ack_retransmit_list ack_sn c =
     (case rtx_cur c of
        [] \<Rightarrow> Some c
      | s # l \<Rightarrow> (case seg_sn (c_e c) s of
          None \<Rightarrow> None
        | Some sn \<Rightarrow>
            if am_sn_compare_tx (c_e c) sn ack_sn < 0
            then (case ack_segment (bstatus_update (bs_retx_size_update
                  (\<lambda>n. n - (am_compute_pdu_header_size (c_e c) s + seg_size s))) (c_e c)) s of
                None \<Rightarrow> None
              | Some e \<Rightarrow> ack_retransmit_list ack_sn (c\<lparr>c_e := e, rtx_cur := l\<rparr>))
            else Some c))"
  by pat_completeness auto
termination
  by (relation "measure (\<lambda>(_, c). length (rtx_cur c))") auto

definition update_tx_next_ack :: "am \<Rightarrow> int \<Rightarrow> am option" where
  "update_tx_next_ack e ack_sn = do {
     let tx_next_ack = am_tx_next e;
     tx_next_ack \<leftarrow> (case am_wait_list e of
         [] \<Rightarrow> Some tx_next_ack
       | s # _ \<Rightarrow> do {
           sn \<leftarrow> seg_sn e s;
           Some (if am_sn_compare_tx e sn tx_next_ack < 0 then sn else tx_next_ack)
         });
     tx_next_ack \<leftarrow> (case am_retransmit_list e of
         [] \<Rightarrow> Some tx_next_ack
       | s # _ \<Rightarrow> do {
           sn \<leftarrow> seg_sn e s;
           Some (if am_sn_compare_tx e sn tx_next_ack < 0 then sn else tx_next_ack)
         });
     Some (e\<lparr>am_tx_next_ack := if am_sn_compare_tx e ack_sn tx_next_ack < 0 then ack_sn else tx_next_ack\<rparr>)
   }"

definition ctrl_init :: "am \<Rightarrow> ctrl_t" where
  "ctrl_init e = \<lparr>c_e = e, wl_kept = [], wl_rest = am_wait_list e, wl_null = False, wl_end = None,
     rtx_new = [], rtx_link = [], rtx_cur = am_retransmit_list e\<rparr>"

text \<open>
  The end of the function: the rest of the retransmit list is linked behind \<open>new_retransmit_list\<close>,
  in place of what was linked there.
\<close>

definition ctrl_finish :: "ctrl_t \<Rightarrow> am" where
  "ctrl_finish c = (c_e c)\<lparr>am_wait_list := wl_kept c @ wl_rest c,
     am_retransmit_list := rtx_new c @ rtx_cur c,
     am_wait_end := (case wl_end c of None \<Rightarrow> am_wait_end (c_e c) | Some x \<Rightarrow> x)\<rparr>"

definition process_control_pdu :: "am \<Rightarrow> byte list \<Rightarrow> int \<Rightarrow> am option" where
  "process_control_pdu e buffer sz = do {
     r \<leftarrow> validate_control_pdu e buffer sz;
     (case r of
        None \<Rightarrow> Some e
      | Some (ack_sn, e1, d) \<Rightarrow> do {
          let e = (if am_sn_compare_tx e (am_poll_sn e) ack_sn < 0
                   then e\<lparr>am_t_poll_retransmit_start := 0\<rparr> else e);
          c \<leftarrow> process_nacks ack_sn d e1 (ctrl_init e);
          c \<leftarrow> ack_wait_list ack_sn c;
          c \<leftarrow> ack_retransmit_list ack_sn c;
          update_tx_next_ack (ctrl_finish c) ack_sn
        })
   }"

section \<open>The reception of a PDU\<close>

definition nr_rlc_entity_am_recv_pdu :: "am \<Rightarrow> byte list \<Rightarrow> int \<Rightarrow> am option" where
  "nr_rlc_entity_am_recv_pdu e buffer sz = do {
     let e = stats_update (rxpdu_pkts_update (\<lambda>n. n + 1) \<circ> rxpdu_bytes_update (\<lambda>n. n + of_int sz)) e;
     get_field (nr_rlc_pdu_decoder_init buffer sz) 1 (\<lambda>_. am_discard_pdu e sz 0) (\<lambda>dc d.
       if dc = 0 then process_control_pdu e buffer sz else am_recv_data_pdu e buffer sz d)
   }"

end
