(* ===== verification/RLC_AM_Tx.thy ===== *)
theory RLC_AM_Tx
  imports RLC_AM_Status RLC_AM_Control
begin

text \<open>
  The transmit side of \<open>nr_rlc_entity_am.c\<close>: polling, serialization and segmentation, the generation of
  PDUs, the reception of SDUs from the upper layer, the timers, and discard, re-establishment and
  deletion.
\<close>

section \<open>Ordered insertion\<close>

text \<open>The comparison dereferences the SDU of every segment it looks at, and stops at the first later one.\<close>

definition tx_before :: "am \<Rightarrow> int \<Rightarrow> int \<Rightarrow> int \<Rightarrow> int \<Rightarrow> bool" where
  "tx_before e sn so cur_sn cur_so \<longleftrightarrow>
     am_sn_compare_tx e cur_sn sn > 0 \<or> (cur_sn = sn \<and> cur_so > so)"

fun tx_list_add_loop :: "am \<Rightarrow> seg list \<Rightarrow> seg \<Rightarrow> seg list option" where
  "tx_list_add_loop e [] s = Some [s]"
| "tx_list_add_loop e (cur # l) s = do {
     cur_sn \<leftarrow> seg_sn e cur;
     sn \<leftarrow> seg_sn e s;
     if tx_before e sn (seg_so s) cur_sn (seg_so cur) then Some (s # cur # l)
     else do {
       l \<leftarrow> tx_list_add_loop e l s;
       Some (cur # l)
     }
   }"

definition nr_rlc_tx_sdu_segment_list_add :: "am \<Rightarrow> seg list \<Rightarrow> seg \<Rightarrow> seg list option" where
  "nr_rlc_tx_sdu_segment_list_add e l s = tx_list_add_loop e l s"

section \<open>Polling\<close>

definition is_window_stalling :: "am \<Rightarrow> bool" where
  "is_window_stalling e \<longleftrightarrow>
     \<not> (am_sn_compare_tx e (am_tx_next_ack e) (am_tx_next e) \<le> 0 \<and>
        am_sn_compare_tx e (am_tx_next e) (cmod (am_tx_next_ack e + am_window_size e) (am_sn_modulus e)) < 0)"

definition include_poll :: "am \<Rightarrow> byte list \<Rightarrow> (am \<times> byte list) option" where
  "include_poll e buffer = do {
     old \<leftarrow> mem_read buffer 0;
     buffer \<leftarrow> mem_write buffer 0 (old OR 0x40);
     Some (e\<lparr>am_pdu_without_poll := 0, am_byte_without_poll := 0,
             am_poll_sn := cmod (am_tx_next e - 1 + am_sn_modulus e) (am_sn_modulus e),
             am_t_poll_retransmit_start := am_t_current e\<rparr>, buffer)
   }"

definition check_poll_after_pdu_assembly :: "am \<Rightarrow> bool" where
  "check_poll_after_pdu_assembly e \<longleftrightarrow>
     (am_tx_list e = [] \<and> am_retransmit_list e = []) \<or> is_window_stalling e"

section \<open>Serialization and segmentation\<close>

definition am_serialize_sdu :: "am \<Rightarrow> seg \<Rightarrow> byte list \<Rightarrow> int \<Rightarrow> bool \<Rightarrow> (am \<times> byte list \<times> int) option" where
  "am_serialize_sdu e s buffer bufsize p = do {
     enc \<leftarrow> nr_rlc_pdu_encoder_put_bits (nr_rlc_pdu_encoder_init buffer bufsize) 1 1;
     enc \<leftarrow> nr_rlc_pdu_encoder_put_bits enc 0 1;
     enc \<leftarrow> nr_rlc_pdu_encoder_put_bits enc (1 - of_bool (seg_is_first s)) 1;
     enc \<leftarrow> nr_rlc_pdu_encoder_put_bits enc (1 - of_bool (seg_is_last s)) 1;
     enc \<leftarrow> (if am_sn_field_length e = 18 then nr_rlc_pdu_encoder_put_bits enc 0 2 else Some enc);
     sdu \<leftarrow> heap_sdus (sdus e) (seg_sdu s);
     enc \<leftarrow> nr_rlc_pdu_encoder_put_bits enc (sdu_sn sdu) (am_sn_field_length e);
     enc \<leftarrow> (if \<not> seg_is_first s then nr_rlc_pdu_encoder_put_bits enc (seg_so s) 16 else Some enc);
     payload \<leftarrow> mem_slice (sdu_data sdu) (seg_so s) (seg_size s);
     buffer \<leftarrow> mem_blit (enc_buffer enc) (enc_byte enc) payload;
     (e, buffer) \<leftarrow> (if p then include_poll e buffer else Some (e, buffer));
     Some (e, buffer, enc_byte enc + seg_size s)
   }"

definition am_resegment :: "seg \<Rightarrow> am \<Rightarrow> int \<Rightarrow> (seg \<times> seg \<times> am) option" where
  "am_resegment s e pdu_sz = do {
     sdu \<leftarrow> heap_sdus (sdus e) (seg_sdu s);
     let h = heap_put (sdus e) (seg_sdu s) (sdu\<lparr>sdu_ref_count := sdu_ref_count sdu + 1\<rparr>);
     let over_size = am_compute_pdu_header_size e s + seg_size s - pdu_sz;
     let s' = s\<lparr>seg_size := seg_size s - over_size, seg_is_last := False\<rparr>;
     let nxt = s\<lparr>seg_addr := heap_next h, seg_size := over_size, seg_so := seg_so s' + seg_size s',
                 seg_is_first := False\<rparr>;
     Some (s', nxt, e\<lparr>sdus := h\<lparr>heap_next := heap_next h + 1\<rparr>\<rparr>)
   }"

section \<open>Generation of PDUs\<close>

text \<open>A transmitted segment goes to the wait list, at its end when it comes after the last one.\<close>

definition put_in_wait_list :: "am \<Rightarrow> seg \<Rightarrow> am option" where
  "put_in_wait_list e s = do {
     after_end \<leftarrow> (case am_wait_end e of
         None \<Rightarrow> Some True
       | Some w \<Rightarrow> do {
           sn \<leftarrow> seg_sn e s;
           end_sn \<leftarrow> seg_sn e w;
           Some (am_sn_compare_tx e sn end_sn > 0 \<or>
                 (am_sn_compare_tx e sn end_sn = 0 \<and> seg_so s > seg_so w))
         });
     if after_end
     then do {
       (l, w) \<leftarrow> nr_rlc_sdu_segment_list_append (am_wait_list e) (am_wait_end e) s;
       Some (e\<lparr>am_wait_list := l, am_wait_end := w\<rparr>)
     }
     else do {
       l \<leftarrow> nr_rlc_tx_sdu_segment_list_add e (am_wait_list e) s;
       Some (e\<lparr>am_wait_list := l, am_wait_end := (if length l = 1 then Some (hd l) else am_wait_end e)\<rparr>)
     }
   }"

definition take_force_poll :: "am \<Rightarrow> bool \<Rightarrow> am \<times> bool" where
  "take_force_poll e p = (if am_force_poll e then (e\<lparr>am_force_poll := False\<rparr>, True) else (e, p))"

definition generate_retx_pdu :: "am \<Rightarrow> byte list \<Rightarrow> int \<Rightarrow> (am \<times> byte list \<times> int) option" where
  "generate_retx_pdu e buffer sz =
     (case am_retransmit_list e of
        [] \<Rightarrow> None
      | s # l \<Rightarrow>
          let pdu_header_size = am_compute_pdu_header_size e s in
          if pdu_header_size + 1 > sz then Some (e, buffer, 0)
          else do {
            let pdu_sz = pdu_header_size + seg_size s;
            let e = bstatus_update (bs_retx_size_update (\<lambda>n. n - pdu_sz)) (e\<lparr>am_retransmit_list := l\<rparr>);
            (s, e) \<leftarrow> (if pdu_sz > sz
              then do {
                (s, next_sdu, e) \<leftarrow> am_resegment s e sz;
                let e = bstatus_update (bs_retx_size_update
                  (\<lambda>n. n + (am_compute_pdu_header_size e next_sdu + seg_size next_sdu)))
                  (e\<lparr>am_retransmit_list := next_sdu # am_retransmit_list e\<rparr>);
                Some (s, stats_update (txpdu_segmented_update (\<lambda>n. n + 1)) e)
              }
              else Some (s, e));
            e \<leftarrow> put_in_wait_list e s;
            let (e, p) = take_force_poll e (check_poll_after_pdu_assembly e);
            (e, buffer, ret_size) \<leftarrow> am_serialize_sdu e s buffer sz p;
            Some (stats_update (txpdu_pkts_update (\<lambda>n. n + 1) \<circ> txpdu_bytes_update (\<lambda>n. n + of_int ret_size) \<circ>
                    txpdu_retx_pkts_update (\<lambda>n. n + 1) \<circ> txpdu_retx_bytes_update (\<lambda>n. n + of_int ret_size)) e,
                  buffer, ret_size)
          })"

definition am_assign_sn :: "am \<Rightarrow> seg \<Rightarrow> am option" where
  "am_assign_sn e s = do {
     sdu \<leftarrow> heap_sdus (sdus e) (seg_sdu s);
     Some (if sdu_sn sdu = -1
       then e\<lparr>sdus := heap_put (sdus e) (seg_sdu s) (sdu\<lparr>sdu_sn := am_tx_next e\<rparr>),
              am_tx_next := cmod (am_tx_next e + 1) (am_sn_modulus e)\<rparr>
       else e)
   }"

definition poll_new_pdu :: "am \<Rightarrow> seg \<Rightarrow> am \<times> bool" where
  "poll_new_pdu e s =
     (let e = e\<lparr>am_pdu_without_poll := am_pdu_without_poll e + 1,
                am_byte_without_poll := am_byte_without_poll e + seg_size s\<rparr>
      in take_force_poll e
           ((am_poll_pdu e \<noteq> -1 \<and> am_pdu_without_poll e \<ge> am_poll_pdu e) \<or>
            (am_poll_byte e \<noteq> -1 \<and> am_byte_without_poll e \<ge> am_poll_byte e) \<or>
            check_poll_after_pdu_assembly e))"

text \<open>\<open>time_now\<close> is what \<open>time_average_now\<close> returns.\<close>

definition account_waited_time :: "u64 \<Rightarrow> am \<Rightarrow> seg \<Rightarrow> am option" where
  "account_waited_time time_now e s =
     (if avg_time_is_on e
      then do {
        sdu \<leftarrow> heap_sdus (sdus e) (seg_sdu s);
        t \<leftarrow> time_average_add (txsdu_avg_time_to_tx e) time_now (time_now - sdu_time_of_arrival sdu);
        Some (e\<lparr>txsdu_avg_time_to_tx := t\<rparr>)
      }
      else Some e)"

definition am_generate_tx_pdu :: "u64 \<Rightarrow> am \<Rightarrow> byte list \<Rightarrow> int \<Rightarrow> (am \<times> byte list \<times> int) option" where
  "am_generate_tx_pdu time_now e buffer sz =
     (if is_window_stalling e then Some (e, buffer, 0)
      else case am_tx_list e of
        [] \<Rightarrow> Some (e, buffer, 0)
      | s # l \<Rightarrow>
          let pdu_header_size = am_compute_pdu_header_size e s in
          if pdu_header_size + 1 > sz then Some (e, buffer, 0)
          else do {
            let pdu_sz = pdu_header_size + seg_size s;
            let e = bstatus_update (bs_tx_size_update (\<lambda>n. n - pdu_sz))
              (e\<lparr>am_tx_list := l, am_tx_end := (if l = [] then None else am_tx_end e)\<rparr>);
            e \<leftarrow> am_assign_sn e s;
            (s, e) \<leftarrow> (if pdu_sz > sz
              then do {
                (s, next_sdu, e) \<leftarrow> am_resegment s e sz;
                let e = e\<lparr>am_tx_list := next_sdu # am_tx_list e,
                  am_tx_end := (if am_tx_end e = None then Some next_sdu else am_tx_end e)\<rparr>;
                let e = stats_update (txpdu_segmented_update (\<lambda>n. n + 1)) e;
                Some (s, bstatus_update (bs_tx_size_update
                  (\<lambda>n. n + (am_compute_pdu_header_size e next_sdu + seg_size next_sdu))) e)
              }
              else Some (s, e));
            e \<leftarrow> put_in_wait_list e s;
            let (e, p) = poll_new_pdu e s;
            (e, buffer, ret_size) \<leftarrow> am_serialize_sdu e s buffer sz p;
            let e = stats_update (txpdu_pkts_update (\<lambda>n. n + 1) \<circ> txpdu_bytes_update (\<lambda>n. n + of_int ret_size)) e;
            e \<leftarrow> account_waited_time time_now e s;
            Some (e, buffer, ret_size)
          })"

definition nr_rlc_entity_am_buffer_status :: "am \<Rightarrow> int \<Rightarrow> nr_rlc_entity_buffer_status_t option" where
  "nr_rlc_entity_am_buffer_status e maxsize = do {
     n \<leftarrow> (if status_to_report e then am_status_size e maxsize else Some 0);
     Some \<lparr>status_size = n, bs_tx_size = bs_tx_size (bstatus e), bs_retx_size = bs_retx_size (bstatus e)\<rparr>
   }"

definition nr_rlc_entity_am_generate_pdu ::
  "u64 \<Rightarrow> am \<Rightarrow> byte list \<Rightarrow> int \<Rightarrow> (am \<times> byte list \<times> int) option" where
  "nr_rlc_entity_am_generate_pdu time_now e buffer sz = do {
     (e, buffer, ret) \<leftarrow> (if status_to_report e then generate_status e buffer sz else Some (e, buffer, 0));
     if ret \<noteq> 0 then Some (e, buffer, ret)
     else do {
       (e, buffer, ret) \<leftarrow>
         (if am_retransmit_list e \<noteq> [] then generate_retx_pdu e buffer sz else Some (e, buffer, 0));
       if ret \<noteq> 0 then Some (e, buffer, ret)
       else am_generate_tx_pdu time_now e buffer sz
     }
   }"

section \<open>Reception of SDUs\<close>

definition nr_rlc_entity_am_recv_sdu :: "u64 \<Rightarrow> am \<Rightarrow> byte list \<Rightarrow> int \<Rightarrow> int \<Rightarrow> am option" where
  "nr_rlc_entity_am_recv_sdu time_now e buffer sz sdu_id = do {
     let e = stats_update (rxsdu_pkts_update (\<lambda>n. n + 1)) e;
     check (sz \<le> NR_SDU_MAX);
     let e = (if am_sdu_rejected e \<noteq> 0 \<and> am_t_current e > am_t_log_buffer_full e + 1000
              then e\<lparr>am_sdu_rejected := 0, am_t_log_buffer_full := am_t_current e\<rparr> else e);
     if am_tx_size e + sz > am_tx_maxsize e
     then Some (stats_update (txpdu_dd_pkts_update (\<lambda>n. n + 1) \<circ> txpdu_dd_bytes_update (\<lambda>n. n + of_int sz))
                 (e\<lparr>am_sdu_rejected := am_sdu_rejected e + 1\<rparr>))
     else do {
       let e = stats_update (rxsdu_bytes_update (\<lambda>n. n + of_int sz)) (e\<lparr>am_tx_size := am_tx_size e + sz\<rparr>);
       (s, h) \<leftarrow> nr_rlc_new_sdu (sdus e) buffer sz sdu_id;
       (l, t) \<leftarrow> nr_rlc_sdu_segment_list_append (am_tx_list e) (am_tx_end e) s;
       let e = bstatus_update (bs_tx_size_update (\<lambda>n. n + (am_compute_pdu_header_size e s + seg_size s)))
         (e\<lparr>sdus := h, am_tx_list := l, am_tx_end := t\<rparr>);
       if avg_time_is_on e
       then do {
         sdu \<leftarrow> heap_sdus (sdus e) (seg_sdu s);
         Some (e\<lparr>sdus := heap_put (sdus e) (seg_sdu s) (sdu\<lparr>sdu_time_of_arrival := time_now\<rparr>)\<rparr>)
       }
       else Some e
     }
   }"

section \<open>Timers\<close>

text \<open>
  The loop that moves the segments of an SDU from the head of the wait list to the retransmit list;
  the segment \<open>cur\<close> it starts with has the sequence number \<open>retransmit_sn\<close>.
\<close>

fun retransmit_loop :: "seg list \<Rightarrow> int \<Rightarrow> am \<Rightarrow> am option" where
  "retransmit_loop [] retransmit_sn e = Some e"
| "retransmit_loop (cur # l) retransmit_sn e = do {
     sn \<leftarrow> seg_sn e cur;
     if sn = retransmit_sn
     then do {
       let e = e\<lparr>am_wait_list := l, am_wait_end := (if l = [] then None else am_wait_end e)\<rparr>;
       let e = bstatus_update (bs_retx_size_update (\<lambda>n. n + (am_compute_pdu_header_size e cur + seg_size cur))) e;
       r \<leftarrow> nr_rlc_tx_sdu_segment_list_add e (am_retransmit_list e) cur;
       retransmit_loop l retransmit_sn (e\<lparr>am_retransmit_list := r\<rparr>)
     }
     else Some e
   }"

definition check_t_poll_retransmit :: "am \<Rightarrow> am option" where
  "check_t_poll_retransmit e =
     (if am_t_poll_retransmit_start e = 0 \<or>
         am_t_current e \<le> am_t_poll_retransmit_start e + of_int (am_t_poll_retransmit e)
      then Some e
      else do {
        let e = e\<lparr>am_t_poll_retransmit_start := 0, am_force_poll := True\<rparr>;
        if \<not> check_poll_after_pdu_assembly e then Some e
        else case am_wait_list e of
            [] \<Rightarrow> None
          | cur # _ \<Rightarrow> do {
              sdu \<leftarrow> heap_sdus (sdus e) (seg_sdu cur);
              let sdu = sdu\<lparr>sdu_retx_count := sdu_retx_count sdu + 1\<rparr>;
              e \<leftarrow> retransmit_loop (am_wait_list e) (sdu_sn sdu)
                     (e\<lparr>sdus := heap_put (sdus e) (seg_sdu cur) sdu\<rparr>);
              Some (if sdu_retx_count sdu \<ge> am_max_retx_threshold e then emit Max_retx_reached e else e)
            }
      })"

definition am_check_t_reassembly :: "am \<Rightarrow> am option" where
  "am_check_t_reassembly e =
     (if am_t_reassembly_start e = 0 \<or>
         am_t_current e \<le> am_t_reassembly_start e + of_int (am_t_reassembly e)
      then Some e
      else do {
        let e = e\<lparr>am_t_reassembly_start := 0\<rparr>;
        sn \<leftarrow> delivered_scan e (am_rx_next_status_trigger e);
        let e = e\<lparr>am_rx_highest_status := sn, am_status_triggered := True\<rparr>;
        let after_highest = cmod (am_rx_highest_status e + 1) (am_sn_modulus e);
        restart \<leftarrow> (if am_sn_compare_rx e (am_rx_next_highest e) after_highest > 0 then Some True
                    else if am_rx_next_highest e = after_highest
                    then sdu_has_missing_bytes e (am_rx_highest_status e)
                    else Some False);
        Some (if restart
              then e\<lparr>am_t_reassembly_start := am_t_current e, am_rx_next_status_trigger := am_rx_next_highest e\<rparr>
              else e)
      })"

definition nr_rlc_entity_am_set_time :: "am \<Rightarrow> u64 \<Rightarrow> am option" where
  "nr_rlc_entity_am_set_time e now = do {
     e \<leftarrow> check_t_poll_retransmit (e\<lparr>am_t_current := now\<rparr>);
     am_check_t_reassembly e
   }"

section \<open>Discard, re-establishment, deletion\<close>

definition nr_rlc_entity_am_discard_sdu :: "am \<Rightarrow> int \<Rightarrow> am option" where
  "nr_rlc_entity_am_discard_sdu e sdu_id = do {
     (passed, rest) \<leftarrow> find_sdu_id (sdus e) sdu_id (am_tx_list e);
     (case rest of
        [] \<Rightarrow> Some e
      | cur # l \<Rightarrow>
          if \<not> seg_is_first cur \<or> \<not> seg_is_last cur then Some e
          else do {
            let e = e\<lparr>am_tx_list := passed @ l,
              am_tx_end := (if map_option seg_addr (am_tx_end e) = Some (seg_addr cur)
                then (if passed = [] then None else Some (last passed)) else am_tx_end e)\<rparr>;
            let e = bstatus_update (bs_tx_size_update (\<lambda>n. n - (am_compute_pdu_header_size e cur + seg_size cur))) e;
            sdu \<leftarrow> heap_sdus (sdus e) (seg_sdu cur);
            let e = e\<lparr>am_tx_size := am_tx_size e - sdu_size sdu\<rparr>;
            (freed, h) \<leftarrow> nr_rlc_free_sdu_segment (sdus e) cur;
            Some (e\<lparr>sdus := h\<rparr>)
          })
   }"

definition am_clear_entity :: "am \<Rightarrow> am option" where
  "am_clear_entity e = do {
     let e = e\<lparr>am_rx_next := 0, am_rx_next_status_trigger := 0, am_rx_highest_status := 0,
       am_rx_next_highest := 0, am_status_triggered := False, am_tx_next := 0, am_tx_next_ack := 0,
       am_poll_sn := 0, am_pdu_without_poll := 0, am_byte_without_poll := 0, am_force_poll := False,
       am_t_current := 0, am_t_log_buffer_full := 0, am_sdu_rejected := 0,
       am_t_poll_retransmit_start := 0, am_t_reassembly_start := 0, am_t_status_prohibit_start := 0,
       am_rx := nr_rlc_clear_rx_manager (am_rx e), am_rx_size := 0\<rparr>;
     h \<leftarrow> nr_rlc_free_sdu_segment_list (sdus e) (am_tx_list e);
     h \<leftarrow> nr_rlc_free_sdu_segment_list h (am_wait_list e);
     h \<leftarrow> nr_rlc_free_sdu_segment_list h (am_retransmit_list e);
     Some (bstatus_update (bs_tx_size_update (\<lambda>_. 0) \<circ> bs_retx_size_update (\<lambda>_. 0))
       (e\<lparr>sdus := h, am_tx_list := [], am_tx_end := None, am_tx_size := 0, am_wait_list := [],
          am_wait_end := None, am_retransmit_list := []\<rparr>))
   }"

definition nr_rlc_entity_am_reestablishment :: "am \<Rightarrow> am option" where
  "nr_rlc_entity_am_reestablishment e = am_clear_entity e"

text \<open>After the deletion only the SDU store of the entity is left to look at.\<close>

definition nr_rlc_entity_am_delete :: "am \<Rightarrow> sdu_heap option" where
  "nr_rlc_entity_am_delete e = map_option sdus (am_clear_entity e)"

definition nr_rlc_entity_am_available_tx_space :: "am \<Rightarrow> int" where
  "nr_rlc_entity_am_available_tx_space e = am_tx_maxsize e - am_tx_size e"

definition nr_rlc_entity_am_tx_list_occupancy :: "am \<Rightarrow> int" where
  "nr_rlc_entity_am_tx_list_occupancy e = am_tx_size e"

end
