(* ===== verification/RLC_UM.thy ===== *)
theory RLC_UM
  imports RLC_Segments
begin

text \<open>
  \<open>openair2/LAYER2/nr_rlc/nr_rlc_entity_um.c\<close>, the unacknowledged-mode entity. The received segments
  are one list, ordered by sequence number (counted from the lower edge of the window) and offset.
\<close>

section \<open>The entity\<close>

record nr_rlc_entity_um_t = nr_rlc_entity_t +
  um_t_reassembly :: int
  um_sn_field_length :: int
  um_sn_modulus :: int
  um_window_size :: int
  um_rx_next_highest :: int
  um_rx_next_reassembly :: int
  um_rx_timer_trigger :: int
  um_tx_next :: int
  um_t_current :: u64
  um_t_log_buffer_full :: u64
  um_sdu_rejected :: int
  um_t_reassembly_start :: u64
  um_rx_list :: "nr_rlc_pdu_t list"
  um_rx_size :: int
  um_rx_maxsize :: int
  um_tx_list :: "seg list"
  um_tx_end :: "seg option"
  um_tx_size :: int
  um_tx_maxsize :: int

type_synonym um = nr_rlc_entity_um_t

definition um_compute_pdu_header_size :: "um \<Rightarrow> seg \<Rightarrow> int" where
  "um_compute_pdu_header_size e s =
     1 + (if \<not> (seg_is_first s \<and> seg_is_last s) \<and> um_sn_field_length e = 12 then 1 else 0) +
     (if \<not> seg_is_first s then 2 else 0)"

section \<open>Reception of PDUs\<close>

definition um_modulus_rx :: "um \<Rightarrow> int \<Rightarrow> int" where
  "um_modulus_rx e a =
     (let r = a - (um_rx_next_highest e - um_window_size e)
      in cmod (if r < 0 then r + um_sn_modulus e else r) (um_sn_modulus e))"

definition um_sn_compare_rx :: "um \<Rightarrow> int \<Rightarrow> int \<Rightarrow> int" where
  "um_sn_compare_rx e a b = um_modulus_rx e a - um_modulus_rx e b"

text \<open>From the first segment with the sequence number \<open>sn\<close> on, as far as the number stays the same.\<close>

definition pdus_from :: "nr_rlc_pdu_t list \<Rightarrow> int \<Rightarrow> nr_rlc_pdu_t list" where
  "pdus_from l sn = dropWhile (\<lambda>p. pdu_sn p \<noteq> sn) l"

definition pdus_with :: "nr_rlc_pdu_t list \<Rightarrow> int \<Rightarrow> nr_rlc_pdu_t list" where
  "pdus_with l sn = takeWhile (\<lambda>p. pdu_sn p = sn) (pdus_from l sn)"

definition um_sdu_full :: "um \<Rightarrow> int \<Rightarrow> bool" where
  "um_sdu_full e sn \<longleftrightarrow>
     (let l = pdus_with (um_rx_list e) sn in if already_processed l then False else sdu_full_loop l (-1))"

definition um_sdu_delivered :: "um \<Rightarrow> int \<Rightarrow> bool" where
  "um_sdu_delivered e sn \<longleftrightarrow> already_processed (pdus_with (um_rx_list e) sn)"

definition um_sdu_has_missing_bytes :: "um \<Rightarrow> int \<Rightarrow> bool" where
  "um_sdu_has_missing_bytes e sn \<longleftrightarrow>
     (let l = pdus_with (um_rx_list e) sn in if already_processed l then False else missing_bytes_loop l (-1))"

definition um_reassemble_and_deliver :: "um \<Rightarrow> int \<Rightarrow> um option" where
  "um_reassemble_and_deliver e sn = do {
     check (pdus_from (um_rx_list e) sn \<noteq> []);
     let before = takeWhile (\<lambda>p. pdu_sn p \<noteq> sn) (um_rx_list e);
     let after = dropWhile (\<lambda>p. pdu_sn p = sn) (pdus_from (um_rx_list e) sn);
     (l, so, bad_sdu, sdu, rx_size) \<leftarrow>
       reassemble_loop (pdus_with (um_rx_list e) sn) 0 False [] (um_rx_size e);
     let e = e\<lparr>um_rx_list := before @ map (\<lambda>p. p\<lparr>pdu_size := 0\<rparr>) l @ after, um_rx_size := rx_size\<rparr>;
     if bad_sdu then Some e
     else Some (stats_update (txsdu_pkts_update (\<lambda>n. n + 1) \<circ> txsdu_bytes_update (\<lambda>n. n + of_int so))
            (emit (Deliver_sdu sdu) e))
   }"

partial_function (option) um_delivered_scan :: "um \<Rightarrow> int \<Rightarrow> int option" where
  "um_delivered_scan e sn =
     (if um_sdu_delivered e sn then um_delivered_scan e (cmod (sn + 1) (um_sn_modulus e)) else Some sn)"

declare um_delivered_scan.simps [code]

text \<open>Both loops that discard PDUs at the head of the list; only the first one updates \<open>rx_size\<close>.\<close>

fun discard_out_of_window :: "nr_rlc_pdu_t list \<Rightarrow> um \<Rightarrow> um" where
  "discard_out_of_window [] e = e\<lparr>um_rx_list := []\<rparr>"
| "discard_out_of_window (p # l) e =
     (if um_sn_compare_rx e (pdu_sn p) (um_rx_next_highest e) \<ge> 0
      then discard_out_of_window l
        (stats_update (rxpdu_dd_pkts_update (\<lambda>n. n + 1) \<circ> rxpdu_dd_bytes_update (\<lambda>n. n + of_int (pdu_size p)) \<circ>
           rxpdu_ow_pkts_update (\<lambda>n. n + 1) \<circ> rxpdu_ow_bytes_update (\<lambda>n. n + of_int (pdu_size p)))
          (e\<lparr>um_rx_size := um_rx_size e - pdu_size p\<rparr>))
      else e\<lparr>um_rx_list := p # l\<rparr>)"

fun discard_below_reassembly :: "nr_rlc_pdu_t list \<Rightarrow> um \<Rightarrow> um" where
  "discard_below_reassembly [] e = e\<lparr>um_rx_list := []\<rparr>"
| "discard_below_reassembly (p # l) e =
     (if um_sn_compare_rx e (pdu_sn p) (um_rx_next_reassembly e) < 0
      then discard_below_reassembly l
        (stats_update (rxpdu_dd_pkts_update (\<lambda>n. n + 1) \<circ> rxpdu_dd_bytes_update (\<lambda>n. n + of_int (pdu_size p))) e)
      else e\<lparr>um_rx_list := p # l\<rparr>)"

definition um_sdu_complete :: "um \<Rightarrow> int \<Rightarrow> um option" where
  "um_sdu_complete e x = do {
     e \<leftarrow> um_reassemble_and_deliver e x;
     if x = um_rx_next_reassembly e
     then do {
       sn \<leftarrow> um_delivered_scan e (um_rx_next_reassembly e);
       Some (e\<lparr>um_rx_next_reassembly := sn\<rparr>)
     }
     else Some e
   }"

definition um_sdu_incomplete :: "um \<Rightarrow> int \<Rightarrow> um option" where
  "um_sdu_incomplete e x =
     (if um_sn_compare_rx e x (um_rx_next_highest e) \<ge> 0
      then do {
        let e = e\<lparr>um_rx_next_highest := cmod (x + 1) (um_sn_modulus e)\<rparr>;
        let e = discard_out_of_window (um_rx_list e) e;
        if um_sn_compare_rx e (um_rx_next_reassembly e) (um_rx_next_highest e) \<ge> 0
        then do {
          sn \<leftarrow> um_delivered_scan e
            (cmod (um_rx_next_highest e - um_window_size e + um_sn_modulus e) (um_sn_modulus e));
          Some (e\<lparr>um_rx_next_reassembly := sn\<rparr>)
        }
        else Some e
      }
      else Some e)"

definition um_after_reassembly :: "um \<Rightarrow> int" where
  "um_after_reassembly e = cmod (um_rx_next_reassembly e + 1) (um_sn_modulus e)"

definition um_stop_t_reassembly :: "um \<Rightarrow> um" where
  "um_stop_t_reassembly e =
     (if um_t_reassembly_start e \<noteq> 0 \<and>
         (um_sn_compare_rx e (um_rx_timer_trigger e) (um_rx_next_reassembly e) \<le> 0 \<or>
          um_sn_compare_rx e (um_rx_timer_trigger e) (um_rx_next_highest e) > 0 \<or>
          (um_rx_next_highest e = um_after_reassembly e \<and>
           \<not> um_sdu_has_missing_bytes e (um_rx_next_reassembly e)))
      then e\<lparr>um_t_reassembly_start := 0\<rparr> else e)"

definition um_start_t_reassembly :: "um \<Rightarrow> um" where
  "um_start_t_reassembly e =
     (if um_t_reassembly_start e = 0 \<and>
         (um_sn_compare_rx e (um_rx_next_highest e) (um_after_reassembly e) > 0 \<or>
          (um_rx_next_highest e = um_after_reassembly e \<and>
           um_sdu_has_missing_bytes e (um_rx_next_reassembly e)))
      then e\<lparr>um_t_reassembly_start := um_t_current e, um_rx_timer_trigger := um_rx_next_highest e\<rparr> else e)"

definition um_reception_actions :: "um \<Rightarrow> nr_rlc_pdu_t \<Rightarrow> um option" where
  "um_reception_actions e pdu = do {
     let x = pdu_sn pdu;
     e \<leftarrow> (if um_sdu_full e x then um_sdu_complete e x else um_sdu_incomplete e x);
     Some (um_start_t_reassembly (um_stop_t_reassembly e))
   }"

definition um_discard_pdu :: "um \<Rightarrow> int \<Rightarrow> um option" where
  "um_discard_pdu e sz =
     Some (stats_update (rxpdu_dd_pkts_update (\<lambda>n. n + 1) \<circ> rxpdu_dd_bytes_update (\<lambda>n. n + of_int sz)) e)"

definition um_recv_segment ::
  "um \<Rightarrow> byte list \<Rightarrow> int \<Rightarrow> int \<Rightarrow> int \<Rightarrow> bool \<Rightarrow> bool \<Rightarrow> nr_rlc_pdu_decoder_t \<Rightarrow> um option" where
  "um_recv_segment e buffer sz sn so is_first is_last d = do {
     let data_size = sz - dec_byte d;
     if data_size \<le> 0 then um_discard_pdu e sz
     else if um_rx_size e + data_size > um_rx_maxsize e then um_discard_pdu e sz
     else if um_sn_compare_rx e sn (um_rx_next_reassembly e) < 0 then um_discard_pdu e sz
     else do {
       data \<leftarrow> mem_slice buffer (sz - data_size) data_size;
       pdu \<leftarrow> nr_rlc_new_pdu sn so is_first is_last data data_size;
       let e = e\<lparr>um_rx_size := um_rx_size e + data_size\<rparr>;
       um_reception_actions
         (e\<lparr>um_rx_list := nr_rlc_pdu_list_add (um_sn_compare_rx e) (um_rx_list e) pdu\<rparr>) pdu
     }
   }"

definition nr_rlc_entity_um_recv_pdu :: "um \<Rightarrow> byte list \<Rightarrow> int \<Rightarrow> um option" where
  "nr_rlc_entity_um_recv_pdu e buffer sz =
     (let e = stats_update (rxpdu_pkts_update (\<lambda>n. n + 1) \<circ> rxpdu_bytes_update (\<lambda>n. n + of_int sz)) e;
          err = (\<lambda>_. um_discard_pdu e sz)
      in get_field (nr_rlc_pdu_decoder_init buffer sz) 2 err (\<lambda>si d.
      let is_first = (si AND 2 = 0); is_last = (si AND 1 = 0) in
      if is_first \<and> is_last
      then (if sz < 2 then um_discard_pdu e sz
            else do {
              sdu \<leftarrow> mem_slice buffer 1 (sz - 1);
              Some (stats_update (txsdu_pkts_update (\<lambda>n. n + 1) \<circ> txsdu_bytes_update (\<lambda>n. n + of_int (sz - 1)))
                (emit (Deliver_sdu sdu) e))
            })
      else (\<lambda>k. if um_sn_field_length e = 12 then get_field d 2 err (\<lambda>_. k) else k d) (\<lambda>d.
      get_field d (um_sn_field_length e) err (\<lambda>sn d.
      if is_first then um_recv_segment e buffer sz sn 0 is_first is_last d
      else get_field d 16 err (\<lambda>so d.
      if so = 0 then um_discard_pdu e sz
      else um_recv_segment e buffer sz sn so is_first is_last d)))))"

section \<open>Transmission\<close>

definition um_serialize_sdu :: "um \<Rightarrow> seg \<Rightarrow> byte list \<Rightarrow> int \<Rightarrow> (byte list \<times> int) option" where
  "um_serialize_sdu e s buffer bufsize = do {
     enc \<leftarrow> nr_rlc_pdu_encoder_put_bits (nr_rlc_pdu_encoder_init buffer bufsize) (1 - of_bool (seg_is_first s)) 1;
     enc \<leftarrow> nr_rlc_pdu_encoder_put_bits enc (1 - of_bool (seg_is_last s)) 1;
     sdu \<leftarrow> heap_sdus (sdus e) (seg_sdu s);
     enc \<leftarrow> (if seg_is_first s \<and> seg_is_last s then nr_rlc_pdu_encoder_put_bits enc 0 6
       else do {
         enc \<leftarrow> (if um_sn_field_length e = 12 then nr_rlc_pdu_encoder_put_bits enc 0 2 else Some enc);
         nr_rlc_pdu_encoder_put_bits enc (sdu_sn sdu) (um_sn_field_length e)
       });
     enc \<leftarrow> (if \<not> seg_is_first s then nr_rlc_pdu_encoder_put_bits enc (seg_so s) 16 else Some enc);
     payload \<leftarrow> mem_slice (sdu_data sdu) (seg_so s) (seg_size s);
     buffer \<leftarrow> mem_blit (enc_buffer enc) (enc_byte enc) payload;
     Some (buffer, enc_byte enc + seg_size s)
   }"

text \<open>\<open>resegment\<close> counts the new reference before it finds out whether there is room.\<close>

definition um_resegment :: "seg \<Rightarrow> um \<Rightarrow> int \<Rightarrow> ((seg \<times> seg) option \<times> um) option" where
  "um_resegment s e pdu_sz = do {
     sdu \<leftarrow> heap_sdus (sdus e) (seg_sdu s);
     let h = heap_put (sdus e) (seg_sdu s) (sdu\<lparr>sdu_ref_count := sdu_ref_count sdu + 1\<rparr>);
     let pdu_header_size = um_compute_pdu_header_size e (s\<lparr>seg_is_last := False\<rparr>);
     if pdu_header_size + 1 > pdu_sz then Some (None, e\<lparr>sdus := h\<rparr>)
     else do {
       let over_size = pdu_header_size + seg_size s - pdu_sz;
       let s' = s\<lparr>seg_size := seg_size s - over_size, seg_is_last := False\<rparr>;
       let nxt = s\<lparr>seg_addr := heap_next h, seg_size := over_size, seg_so := seg_so s' + seg_size s',
                   seg_is_first := False\<rparr>;
       Some (Some (s', nxt), stats_update (txpdu_segmented_update (\<lambda>n. n + 1))
         (e\<lparr>sdus := h\<lparr>heap_next := heap_next h + 1\<rparr>\<rparr>))
     }
   }"

text \<open>The end of \<open>generate_tx_pdu\<close>, once the segment fits.\<close>

definition um_send_segment :: "u64 \<Rightarrow> um \<Rightarrow> seg \<Rightarrow> byte list \<Rightarrow> int \<Rightarrow> (um \<times> byte list \<times> int) option" where
  "um_send_segment time_now e s buffer sz = do {
     let e = (if \<not> seg_is_first s \<and> seg_is_last s
              then e\<lparr>um_tx_next := cmod (um_tx_next e + 1) (um_sn_modulus e)\<rparr> else e);
     (buffer, ret) \<leftarrow> um_serialize_sdu e s buffer sz;
     let e = stats_update (txpdu_pkts_update (\<lambda>n. n + 1) \<circ> txpdu_bytes_update (\<lambda>n. n + of_int sz))
       (e\<lparr>um_tx_size := um_tx_size e - seg_size s\<rparr>);
     e \<leftarrow> (if avg_time_is_on e
       then do {
         sdu \<leftarrow> heap_sdus (sdus e) (seg_sdu s);
         t \<leftarrow> time_average_add (txsdu_avg_time_to_tx e) time_now (time_now - sdu_time_of_arrival sdu);
         Some (e\<lparr>txsdu_avg_time_to_tx := t\<rparr>)
       }
       else Some e);
     (freed, h) \<leftarrow> nr_rlc_free_sdu_segment (sdus e) s;
     Some (e\<lparr>sdus := h\<rparr>, buffer, ret)
   }"

definition um_generate_tx_pdu :: "u64 \<Rightarrow> um \<Rightarrow> byte list \<Rightarrow> int \<Rightarrow> (um \<times> byte list \<times> int) option" where
  "um_generate_tx_pdu time_now e buffer sz =
     (case um_tx_list e of
        [] \<Rightarrow> Some (e, buffer, 0)
      | s # l \<Rightarrow>
          let pdu_header_size = um_compute_pdu_header_size e s in
          if pdu_header_size + 1 > sz then Some (e, buffer, 0)
          else do {
            let e = e\<lparr>um_tx_list := l, um_tx_end := (if l = [] then None else um_tx_end e)\<rparr>;
            sdu \<leftarrow> heap_sdus (sdus e) (seg_sdu s);
            let e = e\<lparr>sdus := heap_put (sdus e) (seg_sdu s) (sdu\<lparr>sdu_sn := um_tx_next e\<rparr>)\<rparr>;
            let pdu_sz = pdu_header_size + seg_size s;
            let e = bstatus_update (bs_tx_size_update (\<lambda>n. n - pdu_sz)) e;
            if pdu_sz > sz
            then do {
              (r, e) \<leftarrow> um_resegment s e sz;
              (case r of
                 None \<Rightarrow> Some (e, buffer, 0)
               | Some (s, next_sdu) \<Rightarrow> do {
                   let e = e\<lparr>um_tx_list := next_sdu # um_tx_list e,
                     um_tx_end := (if um_tx_end e = None then Some next_sdu else um_tx_end e)\<rparr>;
                   let e = stats_update (txpdu_segmented_update (\<lambda>n. n + 1)) e;
                   let e = bstatus_update (bs_tx_size_update
                     (\<lambda>n. n + (um_compute_pdu_header_size e next_sdu + seg_size next_sdu))) e;
                   um_send_segment time_now e s buffer sz
                 })
            }
            else um_send_segment time_now e s buffer sz
          })"

definition nr_rlc_entity_um_buffer_status :: "um \<Rightarrow> int \<Rightarrow> nr_rlc_entity_buffer_status_t" where
  "nr_rlc_entity_um_buffer_status e maxsize =
     \<lparr>status_size = 0, bs_tx_size = bs_tx_size (bstatus e), bs_retx_size = 0\<rparr>"

definition nr_rlc_entity_um_generate_pdu :: "u64 \<Rightarrow> um \<Rightarrow> byte list \<Rightarrow> int \<Rightarrow> (um \<times> byte list \<times> int) option" where
  "nr_rlc_entity_um_generate_pdu time_now e buffer sz = um_generate_tx_pdu time_now e buffer sz"

definition nr_rlc_entity_um_recv_sdu :: "u64 \<Rightarrow> um \<Rightarrow> byte list \<Rightarrow> int \<Rightarrow> int \<Rightarrow> um option" where
  "nr_rlc_entity_um_recv_sdu time_now e buffer sz sdu_id = do {
     let e = stats_update (rxsdu_pkts_update (\<lambda>n. n + 1) \<circ> rxsdu_bytes_update (\<lambda>n. n + of_int sz)) e;
     check (sz \<le> NR_SDU_MAX);
     let e = (if um_sdu_rejected e \<noteq> 0 \<and> um_t_current e > um_t_log_buffer_full e + 1000
              then e\<lparr>um_sdu_rejected := 0, um_t_log_buffer_full := um_t_current e\<rparr> else e);
     if um_tx_size e + sz > um_tx_maxsize e
     then Some (stats_update (rxsdu_dd_pkts_update (\<lambda>n. n + 1) \<circ> rxsdu_dd_bytes_update (\<lambda>n. n + of_int sz))
                 (e\<lparr>um_sdu_rejected := um_sdu_rejected e + 1\<rparr>))
     else do {
       let e = e\<lparr>um_tx_size := um_tx_size e + sz\<rparr>;
       (s, h) \<leftarrow> nr_rlc_new_sdu (sdus e) buffer sz sdu_id;
       (l, t) \<leftarrow> nr_rlc_sdu_segment_list_append (um_tx_list e) (um_tx_end e) s;
       let e = bstatus_update (bs_tx_size_update (\<lambda>n. n + (um_compute_pdu_header_size e s + seg_size s)))
         (e\<lparr>sdus := h, um_tx_list := l, um_tx_end := t\<rparr>);
       if avg_time_is_on e
       then do {
         sdu \<leftarrow> heap_sdus (sdus e) (seg_sdu s);
         Some (e\<lparr>sdus := heap_put (sdus e) (seg_sdu s) (sdu\<lparr>sdu_time_of_arrival := time_now\<rparr>)\<rparr>)
       }
       else Some e
     }
   }"

section \<open>Timer, discard, re-establishment, deletion\<close>

definition um_check_t_reassembly :: "um \<Rightarrow> um option" where
  "um_check_t_reassembly e =
     (if um_t_reassembly_start e = 0 \<or>
         um_t_current e \<le> um_t_reassembly_start e + of_int (um_t_reassembly e)
      then Some e
      else do {
        let e = e\<lparr>um_t_reassembly_start := 0\<rparr>;
        sn \<leftarrow> um_delivered_scan e (um_rx_timer_trigger e);
        let e = e\<lparr>um_rx_next_reassembly := sn\<rparr>;
        let e = discard_below_reassembly (um_rx_list e) e;
        Some (if um_sn_compare_rx e (um_rx_next_highest e) (um_after_reassembly e) > 0 \<or>
                 (um_rx_next_highest e = um_rx_next_reassembly e + 1 \<and>
                  um_sdu_has_missing_bytes e (um_rx_next_reassembly e))
              then e\<lparr>um_t_reassembly_start := um_t_current e, um_rx_timer_trigger := um_rx_next_highest e\<rparr>
              else e)
      })"

definition nr_rlc_entity_um_set_time :: "um \<Rightarrow> u64 \<Rightarrow> um option" where
  "nr_rlc_entity_um_set_time e now = um_check_t_reassembly (e\<lparr>um_t_current := now\<rparr>)"

definition nr_rlc_entity_um_discard_sdu :: "um \<Rightarrow> int \<Rightarrow> um option" where
  "nr_rlc_entity_um_discard_sdu e sdu_id = do {
     (passed, rest) \<leftarrow> find_sdu_id (sdus e) sdu_id (um_tx_list e);
     (case rest of
        [] \<Rightarrow> Some e
      | cur # l \<Rightarrow>
          if \<not> seg_is_first cur \<or> \<not> seg_is_last cur then Some e
          else do {
            let e = e\<lparr>um_tx_list := passed @ l,
              um_tx_end := (if map_option seg_addr (um_tx_end e) = Some (seg_addr cur)
                then (if passed = [] then None else Some (last passed)) else um_tx_end e)\<rparr>;
            let e = bstatus_update (bs_tx_size_update (\<lambda>n. n - (um_compute_pdu_header_size e cur + seg_size cur))) e;
            (freed, h) \<leftarrow> nr_rlc_free_sdu_segment (sdus e) cur;
            Some (e\<lparr>sdus := h\<rparr>)
          })
   }"

definition um_clear_entity :: "um \<Rightarrow> um option" where
  "um_clear_entity e = do {
     let e = e\<lparr>um_rx_next_highest := 0, um_rx_next_reassembly := 0, um_rx_timer_trigger := 0, um_tx_next := 0,
       um_t_current := 0, um_t_log_buffer_full := 0, um_sdu_rejected := 0, um_t_reassembly_start := 0,
       um_rx_list := [], um_rx_size := 0\<rparr>;
     h \<leftarrow> nr_rlc_free_sdu_segment_list (sdus e) (um_tx_list e);
     Some (bstatus_update (bs_tx_size_update (\<lambda>_. 0))
       (e\<lparr>sdus := h, um_tx_list := [], um_tx_end := None, um_tx_size := 0\<rparr>))
   }"

definition nr_rlc_entity_um_reestablishment :: "um \<Rightarrow> um option" where
  "nr_rlc_entity_um_reestablishment e = um_clear_entity e"

definition nr_rlc_entity_um_delete :: "um \<Rightarrow> sdu_heap option" where
  "nr_rlc_entity_um_delete e = map_option sdus (um_clear_entity e)"

definition nr_rlc_entity_um_available_tx_space :: "um \<Rightarrow> int" where
  "nr_rlc_entity_um_available_tx_space e = um_tx_maxsize e - um_tx_size e"

definition nr_rlc_entity_um_tx_list_occupancy :: "um \<Rightarrow> int" where
  "nr_rlc_entity_um_tx_list_occupancy e = um_tx_size e"

end
