(* ===== verification/RLC_TM.thy ===== *)
theory RLC_TM
  imports RLC_Common
begin

text \<open>
  \<open>openair2/LAYER2/nr_rlc/nr_rlc_entity_tm.c\<close>, the transparent-mode entity: SDUs are PDUs, sent whole
  or not at all.
\<close>

section \<open>The entity\<close>

record nr_rlc_entity_tm_t = nr_rlc_entity_t +
  tm_t_current :: u64
  tm_t_log_buffer_full :: u64
  tm_sdu_rejected :: int
  tm_tx_list :: "seg list"
  tm_tx_end :: "seg option"
  tm_tx_size :: int
  tm_tx_maxsize :: int

type_synonym tm = nr_rlc_entity_tm_t

definition nr_rlc_entity_tm_recv_pdu :: "tm \<Rightarrow> byte list \<Rightarrow> int \<Rightarrow> tm option" where
  "nr_rlc_entity_tm_recv_pdu e buffer sz = do {
     let e = stats_update (rxpdu_pkts_update (\<lambda>n. n + 1) \<circ> rxpdu_bytes_update (\<lambda>n. n + of_int sz)) e;
     sdu \<leftarrow> mem_slice buffer 0 sz;
     Some (stats_update (txsdu_pkts_update (\<lambda>n. n + 1) \<circ> txsdu_bytes_update (\<lambda>n. n + of_int sz))
       (emit (Deliver_sdu sdu) e))
   }"

definition tm_generate_tx_pdu :: "u64 \<Rightarrow> tm \<Rightarrow> byte list \<Rightarrow> int \<Rightarrow> (tm \<times> byte list \<times> int) option" where
  "tm_generate_tx_pdu time_now e buffer sz =
     (case tm_tx_list e of
        [] \<Rightarrow> Some (e, buffer, 0)
      | s # l \<Rightarrow>
          if seg_size s > sz then Some (e, buffer, 0)
          else do {
            let e = e\<lparr>tm_tx_list := l, tm_tx_end := (if l = [] then None else tm_tx_end e)\<rparr>;
            sdu \<leftarrow> heap_sdus (sdus e) (seg_sdu s);
            payload \<leftarrow> mem_slice (sdu_data sdu) 0 (seg_size s);
            buffer \<leftarrow> mem_blit buffer 0 payload;
            let e = stats_update (txpdu_pkts_update (\<lambda>n. n + 1) \<circ> txpdu_bytes_update (\<lambda>n. n + of_int sz))
              (e\<lparr>tm_tx_size := tm_tx_size e - seg_size s\<rparr>);
            e \<leftarrow> (if avg_time_is_on e
              then do {
                t \<leftarrow> time_average_add (txsdu_avg_time_to_tx e) time_now (time_now - sdu_time_of_arrival sdu);
                Some (e\<lparr>txsdu_avg_time_to_tx := t\<rparr>)
              }
              else Some e);
            let e = bstatus_update (bs_tx_size_update (\<lambda>n. n - seg_size s)) e;
            (freed, h) \<leftarrow> nr_rlc_free_sdu_segment (sdus e) s;
            Some (e\<lparr>sdus := h\<rparr>, buffer, seg_size s)
          })"

definition nr_rlc_entity_tm_buffer_status :: "tm \<Rightarrow> int \<Rightarrow> nr_rlc_entity_buffer_status_t" where
  "nr_rlc_entity_tm_buffer_status e maxsize =
     \<lparr>status_size = 0, bs_tx_size = bs_tx_size (bstatus e), bs_retx_size = 0\<rparr>"

definition nr_rlc_entity_tm_generate_pdu :: "u64 \<Rightarrow> tm \<Rightarrow> byte list \<Rightarrow> int \<Rightarrow> (tm \<times> byte list \<times> int) option" where
  "nr_rlc_entity_tm_generate_pdu time_now e buffer sz = tm_generate_tx_pdu time_now e buffer sz"

definition nr_rlc_entity_tm_recv_sdu :: "u64 \<Rightarrow> tm \<Rightarrow> byte list \<Rightarrow> int \<Rightarrow> int \<Rightarrow> tm option" where
  "nr_rlc_entity_tm_recv_sdu time_now e buffer sz sdu_id = do {
     let e = stats_update (rxsdu_pkts_update (\<lambda>n. n + 1) \<circ> rxsdu_bytes_update (\<lambda>n. n + of_int sz)) e;
     check (sz \<le> NR_SDU_MAX);
     let e = (if tm_sdu_rejected e \<noteq> 0 \<and> tm_t_current e > tm_t_log_buffer_full e + 1000
              then e\<lparr>tm_sdu_rejected := 0, tm_t_log_buffer_full := tm_t_current e\<rparr> else e);
     if tm_tx_size e + sz > tm_tx_maxsize e
     then Some (stats_update (rxsdu_dd_pkts_update (\<lambda>n. n + 1) \<circ> rxsdu_dd_bytes_update (\<lambda>n. n + of_int sz))
                 (e\<lparr>tm_sdu_rejected := tm_sdu_rejected e + 1\<rparr>))
     else do {
       let e = e\<lparr>tm_tx_size := tm_tx_size e + sz\<rparr>;
       (s, h) \<leftarrow> nr_rlc_new_sdu (sdus e) buffer sz sdu_id;
       (l, t) \<leftarrow> nr_rlc_sdu_segment_list_append (tm_tx_list e) (tm_tx_end e) s;
       let e = bstatus_update (bs_tx_size_update (\<lambda>n. n + seg_size s))
         (e\<lparr>sdus := h, tm_tx_list := l, tm_tx_end := t\<rparr>);
       if avg_time_is_on e
       then do {
         sdu \<leftarrow> heap_sdus (sdus e) (seg_sdu s);
         Some (e\<lparr>sdus := heap_put (sdus e) (seg_sdu s) (sdu\<lparr>sdu_time_of_arrival := time_now\<rparr>)\<rparr>)
       }
       else Some e
     }
   }"

definition nr_rlc_entity_tm_set_time :: "tm \<Rightarrow> u64 \<Rightarrow> tm" where
  "nr_rlc_entity_tm_set_time e now = e\<lparr>tm_t_current := now\<rparr>"

definition nr_rlc_entity_tm_discard_sdu :: "tm \<Rightarrow> int \<Rightarrow> tm" where
  "nr_rlc_entity_tm_discard_sdu e sdu_id = e"

definition tm_clear_entity :: "tm \<Rightarrow> tm option" where
  "tm_clear_entity e = do {
     let e = e\<lparr>tm_t_current := 0, tm_t_log_buffer_full := 0, tm_sdu_rejected := 0\<rparr>;
     h \<leftarrow> nr_rlc_free_sdu_segment_list (sdus e) (tm_tx_list e);
     Some (bstatus_update (bs_tx_size_update (\<lambda>_. 0))
       (e\<lparr>sdus := h, tm_tx_list := [], tm_tx_end := None, tm_tx_size := 0\<rparr>))
   }"

definition nr_rlc_entity_tm_reestablishment :: "tm \<Rightarrow> tm option" where
  "nr_rlc_entity_tm_reestablishment e = tm_clear_entity e"

definition nr_rlc_entity_tm_delete :: "tm \<Rightarrow> sdu_heap option" where
  "nr_rlc_entity_tm_delete e = map_option sdus (tm_clear_entity e)"

definition nr_rlc_entity_tm_available_tx_space :: "tm \<Rightarrow> int" where
  "nr_rlc_entity_tm_available_tx_space e = tm_tx_maxsize e - tm_tx_size e"

definition nr_rlc_entity_tm_tx_list_occupancy :: "tm \<Rightarrow> int" where
  "nr_rlc_entity_tm_tx_list_occupancy e = tm_tx_size e"

end
