(* ===== verification/RLC_Entity.thy ===== *)
theory RLC_Entity
  imports RLC_AM_Tx RLC_UM RLC_TM
begin

text \<open>
  \<open>openair2/LAYER2/nr_rlc/nr_rlc_entity.c\<close>: the constructors of the three kinds of entities, their
  reconfiguration, and the statistics.
\<close>

section \<open>Constructors\<close>

definition new_nr_rlc_entity_am ::
  "int \<Rightarrow> int \<Rightarrow> int \<Rightarrow> int \<Rightarrow> int \<Rightarrow> int \<Rightarrow> int \<Rightarrow> int \<Rightarrow> int \<Rightarrow> am option" where
  "new_nr_rlc_entity_am rx_maxsize tx_maxsize t_poll_retransmit t_reassembly t_status_prohibit
     poll_pdu poll_byte max_retx_threshold sn_field_length = do {
     check (sn_field_length = 12 \<or> sn_field_length = 18);
     let sn_modulus = push_bit (nat sn_field_length) 1;
     avg \<leftarrow> time_average_new (100 * 1000) 1024;
     Some \<lparr>bstatus = bstatus_zero, stats = stats_zero NR_RLC_AM, txsdu_avg_time_to_tx = avg,
       avg_time_is_on = False, sdus = heap_empty, ev = [],
       am_t_poll_retransmit = t_poll_retransmit, am_t_reassembly = t_reassembly,
       am_t_status_prohibit = t_status_prohibit, am_poll_pdu = poll_pdu, am_poll_byte = poll_byte,
       am_max_retx_threshold = max_retx_threshold, am_sn_field_length = sn_field_length,
       am_sn_modulus = sn_modulus, am_window_size = sn_modulus div 2, am_rx_next = 0,
       am_rx_next_status_trigger = 0, am_rx_highest_status = 0, am_rx_next_highest = 0,
       am_status_triggered = False, am_tx_next = 0, am_tx_next_ack = 0, am_poll_sn = 0,
       am_pdu_without_poll = 0, am_byte_without_poll = 0, am_force_poll = False, am_t_current = 0,
       am_t_log_buffer_full = 0, am_sdu_rejected = 0, am_t_poll_retransmit_start = 0,
       am_t_reassembly_start = 0, am_t_status_prohibit_start = 0,
       am_rx = nr_rlc_new_rx_manager (push_bit (nat (sn_field_length - 1)) 1),
       am_rx_size = 0, am_rx_maxsize = rx_maxsize * 5, am_tx_list = [], am_tx_end = None,
       am_tx_size = 0, am_tx_maxsize = tx_maxsize * 5, am_wait_list = [], am_wait_end = None,
       am_retransmit_list = []\<rparr>
   }"

definition new_nr_rlc_entity_um :: "int \<Rightarrow> int \<Rightarrow> int \<Rightarrow> int \<Rightarrow> um option" where
  "new_nr_rlc_entity_um rx_maxsize tx_maxsize t_reassembly sn_field_length = do {
     check (sn_field_length = 6 \<or> sn_field_length = 12);
     let sn_modulus = push_bit (nat sn_field_length) 1;
     avg \<leftarrow> time_average_new (100 * 1000) 1024;
     Some \<lparr>bstatus = bstatus_zero, stats = stats_zero NR_RLC_UM, txsdu_avg_time_to_tx = avg,
       avg_time_is_on = False, sdus = heap_empty, ev = [],
       um_t_reassembly = t_reassembly, um_sn_field_length = sn_field_length, um_sn_modulus = sn_modulus,
       um_window_size = sn_modulus div 2, um_rx_next_highest = 0, um_rx_next_reassembly = 0,
       um_rx_timer_trigger = 0, um_tx_next = 0, um_t_current = 0, um_t_log_buffer_full = 0,
       um_sdu_rejected = 0, um_t_reassembly_start = 0, um_rx_list = [], um_rx_size = 0,
       um_rx_maxsize = rx_maxsize, um_tx_list = [], um_tx_end = None, um_tx_size = 0,
       um_tx_maxsize = tx_maxsize\<rparr>
   }"

definition new_nr_rlc_entity_tm :: "int \<Rightarrow> tm option" where
  "new_nr_rlc_entity_tm tx_maxsize = do {
     avg \<leftarrow> time_average_new (100 * 1000) 1024;
     Some \<lparr>bstatus = bstatus_zero, stats = stats_zero NR_RLC_TM, txsdu_avg_time_to_tx = avg,
       avg_time_is_on = False, sdus = heap_empty, ev = [], tm_t_current = 0, tm_t_log_buffer_full = 0,
       tm_sdu_rejected = 0, tm_tx_list = [], tm_tx_end = None, tm_tx_size = 0, tm_tx_maxsize = tx_maxsize\<rparr>
   }"

section \<open>Reconfiguration\<close>

definition nr_rlc_entity_um_reconfigure :: "um \<Rightarrow> int \<Rightarrow> int option \<Rightarrow> um" where
  "nr_rlc_entity_um_reconfigure e t_reassembly sn_field_length =
     e\<lparr>um_t_reassembly := t_reassembly,
       um_sn_field_length := (case sn_field_length of None \<Rightarrow> um_sn_field_length e | Some n \<Rightarrow> n)\<rparr>"

definition nr_rlc_entity_am_reconfigure ::
  "am \<Rightarrow> int \<Rightarrow> int \<Rightarrow> int \<Rightarrow> int \<Rightarrow> int \<Rightarrow> int \<Rightarrow> int option \<Rightarrow> am" where
  "nr_rlc_entity_am_reconfigure e t_poll_retransmit t_reassembly t_status_prohibit poll_pdu poll_byte
     max_retx_threshold sn_field_length =
     e\<lparr>am_t_poll_retransmit := t_poll_retransmit, am_t_reassembly := t_reassembly,
       am_t_status_prohibit := t_status_prohibit, am_poll_pdu := poll_pdu, am_poll_byte := poll_byte,
       am_max_retx_threshold := max_retx_threshold,
       am_sn_field_length := (case sn_field_length of None \<Rightarrow> am_sn_field_length e | Some n \<Rightarrow> n)\<rparr>"

section \<open>Statistics\<close>

text \<open>
  \<open>nr_rlc_entity_get_stats\<close> looks at the head-of-line segment of the mode: the head of the retransmit
  list or of the transmit list. The call of \<open>time_average_get_average\<close> drops the values that left its
  window.
\<close>

datatype rlc_entity = Entity_AM am | Entity_UM um | Entity_TM tm

definition hol_list :: "rlc_entity \<Rightarrow> seg list" where
  "hol_list r =
     (case r of
        Entity_AM e \<Rightarrow> if am_retransmit_list e \<noteq> [] then am_retransmit_list e else am_tx_list e
      | Entity_UM e \<Rightarrow> um_tx_list e
      | Entity_TM e \<Rightarrow> tm_tx_list e)"

definition get_stats_common ::
  "u64 \<Rightarrow> 'a nr_rlc_entity_t_scheme \<Rightarrow> seg list \<Rightarrow> (nr_rlc_statistics_t \<times> 'a nr_rlc_entity_t_scheme) option" where
  "get_stats_common time_now e l = do {
     wt \<leftarrow> (case l of
         [] \<Rightarrow> Some 0
       | s # _ \<Rightarrow> do {
           sdu \<leftarrow> heap_sdus (sdus e) (seg_sdu s);
           Some (ucast (time_now - sdu_time_of_arrival sdu))
         });
     let out = (stats e)\<lparr>txsdu_wt_us := wt\<rparr>;
     if avg_time_is_on e
     then do {
       (avg, t) \<leftarrow> time_average_get_average (txsdu_avg_time_to_tx e) time_now;
       Some (out\<lparr>st_txsdu_avg_time_to_tx := avg\<rparr>, e\<lparr>txsdu_avg_time_to_tx := t\<rparr>)
     }
     else Some (out\<lparr>st_txsdu_avg_time_to_tx := None\<rparr>, e)
   }"

definition nr_rlc_entity_get_stats :: "u64 \<Rightarrow> rlc_entity \<Rightarrow> (nr_rlc_statistics_t \<times> rlc_entity) option" where
  "nr_rlc_entity_get_stats time_now r =
     (case r of
        Entity_AM e \<Rightarrow> map_option (map_prod id Entity_AM) (get_stats_common time_now e (hol_list r))
      | Entity_UM e \<Rightarrow> map_option (map_prod id Entity_UM) (get_stats_common time_now e (hol_list r))
      | Entity_TM e \<Rightarrow> map_option (map_prod id Entity_TM) (get_stats_common time_now e (hol_list r)))"

end
