(* ===== verification/RLC_AM_Receive.thy ===== *)
theory RLC_AM_Receive
  imports RLC_AM_Delivery RLC_Entity
begin

text \<open>
  The reception of data PDUs by an AM entity, from the bytes on: what the header of a data PDU is read
  as, that no PDU whatever its bytes makes the receiver fail, and that the receiver delivers each SDU
  once and as it was sent.
\<close>

section \<open>Reading the header\<close>

text \<open>The fields of the header of a data PDU, in their order, with their widths.\<close>

definition am_header_fields :: "am \<Rightarrow> int \<Rightarrow> int \<Rightarrow> int \<Rightarrow> bool \<Rightarrow> bool \<Rightarrow> (nat \<times> int) list" where
  "am_header_fields e p sn so is_first is_last =
     [(1, 1), (1, p), (1, 1 - of_bool is_first), (1, 1 - of_bool is_last)] @
     (if am_sn_field_length e = 18 then [(2, 0)] else []) @
     [(nat (am_sn_field_length e), sn)] @
     (if is_first then [] else [(16, so)])"

lemma am_header_width:
  "am_cfg e \<Longrightarrow> fields_width (am_header_fields e p sn so f l) =
     8 * nat (2 + (if am_sn_field_length e = 18 then 1 else 0) + (if f then 0 else 2))"
  by (auto simp: am_header_fields_def am_cfg_def)

definition am_count_rx :: "am \<Rightarrow> int \<Rightarrow> am" where
  "am_count_rx e sz = stats_update (rxpdu_pkts_update (\<lambda>n. n + 1) \<circ> rxpdu_bytes_update (\<lambda>n. n + of_int sz)) e"

lemma am_count_rx_ok:
  "am_rx_ok e \<Longrightarrow> am_rx_ok (am_count_rx e sz)" "am_rx_discarded e (am_count_rx e sz)"
proof -
  have "am_count_rx e sz = e\<lparr>am_status_triggered := am_status_triggered e, stats := stats (am_count_rx e sz)\<rparr>"
    by (simp add: am_count_rx_def)
  then show "am_rx_ok e \<Longrightarrow> am_rx_ok (am_count_rx e sz)" "am_rx_discarded e (am_count_rx e sz)"
    using am_rx_ok_cong unfolding am_rx_discarded_def by blast+
qed

text \<open>A data PDU is discarded or is one segment with fields in their ranges.\<close>

definition am_data_outcome :: "am \<Rightarrow> byte list \<Rightarrow> int \<Rightarrow> am option \<Rightarrow> bool" where
  "am_data_outcome e buffer sz r \<longleftrightarrow> (\<exists>p. r = am_discard_pdu e sz p) \<or>
     (\<exists>p sn so f l q. r = am_recv_segment e buffer sz p sn so f l (dec_at buffer sz q) \<and>
        sn_valid e sn \<and> 0 \<le> so \<and> q \<le> 8 * nat sz)"

lemma am_recv_data_pdu_outcome:
  assumes cfg: "am_cfg e" and sz: "1 \<le> 8 * nat sz" "sz \<le> int (length buffer)"
  shows "am_data_outcome e buffer sz (am_recv_data_pdu e buffer sz (dec_at buffer sz 1))"
proof -
  have z: "0 \<le> sz" using sz(1) by linarith
  note rule = get_field_rule [where P = "am_data_outcome e buffer sz", OF _ z sz(2)]
  have D: "am_data_outcome e buffer sz (am_discard_pdu e sz p)" for p by (auto simp: am_data_outcome_def)
  have S: "am_data_outcome e buffer sz (am_recv_segment e buffer sz p sn so f l (dec_at buffer sz q))"
    if "0 \<le> sn" "sn < 2 ^ nat (am_sn_field_length e)" "0 \<le> so" "q \<le> 8 * nat sz" for p sn so f l q
    using that cfg by (auto simp: am_data_outcome_def sn_valid_def am_cfg_def)
  let ?T = "\<lambda>p f l sn d. if f then am_recv_segment e buffer sz p sn 0 f l d
    else get_field d 16 (\<lambda>_. am_discard_pdu e sz p) (\<lambda>so d. if so = 0 then am_discard_pdu e sz p
      else am_recv_segment e buffer sz p sn so f l d)"
  have tail: "am_data_outcome e buffer sz (?T p f l sn (dec_at buffer sz q))"
    if "0 \<le> sn" "sn < 2 ^ nat (am_sn_field_length e)" "q \<le> 8 * nat sz" for p f l sn q
    using that by (auto intro!: D S rule [where n = 16])
  have len: "am_sn_field_length e = int (nat (am_sn_field_length e))" "nat (am_sn_field_length e) \<le> 31"
    using cfg by (auto simp: am_cfg_def)
  have sn: "am_data_outcome e buffer sz (get_field (dec_at buffer sz q) (am_sn_field_length e)
      (\<lambda>_. am_discard_pdu e sz p) (?T p f l))" if "q \<le> 8 * nat sz" for q p f l
    by (rule rule [OF that len]) (blast intro: tail D)+
  have rest: "am_data_outcome e buffer sz ((\<lambda>k. if am_sn_field_length e = 18
        then get_field (dec_at buffer sz q) 2 (\<lambda>_. am_discard_pdu e sz p) (\<lambda>_. k) else k (dec_at buffer sz q))
      (\<lambda>d. get_field d (am_sn_field_length e) (\<lambda>_. am_discard_pdu e sz p) (?T p f l)))"
    if "q \<le> 8 * nat sz" for q p f l
    by (split if_split, intro conjI impI, rule rule [OF that, where n = 2])
      (simp, simp, rule sn, assumption, rule D, rule sn [OF that])
  show ?thesis
    unfolding am_recv_data_pdu_def Let_def
    by (rule rule [where n = 1], use sz in simp, simp, simp, rule rule [where n = 2], simp, simp, simp)
      (rule rest D, assumption?)+
qed

lemma int_bits_small:
  "int_bits (Suc 0) 0 = [False]" "int_bits (Suc 0) 1 = [True]" "int_bits 2 0 = [False, False]"
  "int_bits 2 1 = [False, True]" "int_bits 2 2 = [True, False]" "int_bits 2 3 = [True, True]"
  by (simp_all add: int_bits_def upt_rec)

lemma am_recv_pdu_data:
  assumes "1 \<le> sz" "sz \<le> int (length buffer)" "bit (buffer ! 0) 7"
  shows "nr_rlc_entity_am_recv_pdu e buffer sz = am_recv_data_pdu (am_count_rx e sz) buffer sz (dec_at buffer sz 1)"
proof -
  have "buffer \<noteq> []" "8 * nat sz \<ge> 1" using assms by auto
  then obtain b bs where b: "buffer = b # bs" by (cases buffer) auto
  have "take 1 (bits_of buffer) = [bit b 7]" by (simp add: b byte_bits_def upt_rec)
  then have "bits_val (take (Suc 0) (bits_of buffer)) = 1" using assms(3) b by (simp add: bits_val_def)
  then show ?thesis
    using assms \<open>8 * nat sz \<ge> 1\<close>
    by (simp add: nr_rlc_entity_am_recv_pdu_def decoder_init_at am_count_rx_def Let_def get_field_at [where n = 1])
qed

lemma am_recv_pdu_segment:
  assumes cfg: "am_cfg e" and bits: "bits_of (take (nat h) buffer) = fields_bits (am_header_fields e p sn so f l)"
    and sz: "h \<le> sz" "sz \<le> int (length buffer)" and fields: "p \<in> {0, 1}" "sn_valid e sn"
      "if f then so = 0 else 0 < so \<and> so < 2 ^ 16"
    and h: "h = 2 + (if am_sn_field_length e = 18 then 1 else 0) + (if f then 0 else 2)"
  shows "nr_rlc_entity_am_recv_pdu e buffer sz =
    am_recv_segment (am_count_rx e sz) buffer sz p sn so f l (dec_at buffer sz (8 * nat h))"
proof -
  let ?L = "nat (am_sn_field_length e)"
  define si :: int where "si = 2 * (1 - of_bool f) + (1 - of_bool l)"
  have len: "am_sn_field_length (am_count_rx e sz) = int ?L" "?L \<le> 31" "?L = 12 \<or> ?L = 18"
    "am_sn_field_length e = 18 \<longleftrightarrow> ?L = 18"
    using cfg by (auto simp: am_cfg_def am_count_rx_def)
  have sn: "0 \<le> sn" "sn < 2 ^ ?L" using fields(2) cfg by (auto simp: sn_valid_def am_cfg_def)
  have "bits_of buffer = bits_of (take (nat h) buffer) @ bits_of (drop (nat h) buffer)" by (simp flip: bits_of_append)
  moreover have "fields_bits (am_header_fields e p sn so f l) = int_bits 1 1 @ int_bits 1 p @ int_bits 2 si @
      (if ?L = 18 then int_bits 2 0 else []) @ int_bits ?L sn @ (if f then [] else int_bits 16 so)"
    using len(4) by (cases f; cases l) (simp_all add: am_header_fields_def int_bits_small si_def)
  ultimately obtain r where r: "drop 0 (bits_of buffer) = int_bits 1 1 @ int_bits 1 p @ int_bits 2 si @
      (if ?L = 18 then int_bits 2 0 else []) @ int_bits ?L sn @ (if f then [] else int_bits 16 so) @ r"
    using bits by auto
  have z: "0 \<le> sz" "8 * nat h \<le> 8 * nat sz" "nat h = 2 + (if ?L = 18 then 1 else 0) + (if f then 0 else 2)"
    using sz h len(4) by (auto split: if_splits)
  let ?R = "(if ?L = 18 then int_bits 2 0 else []) @ int_bits ?L sn @ (if f then [] else int_bits 16 so) @ r"
  have d: "drop 1 (bits_of buffer) = int_bits 1 p @ int_bits 2 si @ ?R" "drop 2 (bits_of buffer) = int_bits 2 si @ ?R"
    "drop 4 (bits_of buffer) = ?R" using r by simp_all
  have p: "0 \<le> p" "p < 2 ^ 1" "0 \<le> si" "si < 2 ^ 2" using fields(1) by (auto simp: si_def)
  have si: "si AND 2 = 0 \<longleftrightarrow> f" "si AND 1 = 0 \<longleftrightarrow> l" by (cases f; cases l; simp add: si_def)+
  note rd = get_field_read [OF _ _ z(1) sz(2)]
  have g: "get_field (dec_at buffer sz 0) 1 err k = k 1 (dec_at buffer sz 1)"
    "get_field (dec_at buffer sz 1) 1 err k = k p (dec_at buffer sz 2)"
    "get_field (dec_at buffer sz 2) 2 err k = k si (dec_at buffer sz 4)" for err and k :: "int \<Rightarrow> _ \<Rightarrow> am option"
  proof -
    show "get_field (dec_at buffer sz 0) 1 err k = k 1 (dec_at buffer sz 1)" using rd(1) [OF r, of 1] z by simp
    show "get_field (dec_at buffer sz 1) 1 err k = k p (dec_at buffer sz 2)"
      using rd(1) [OF d(1), of 1 err k, unfolded one_add_one] z p by simp
    show "get_field (dec_at buffer sz 2) 2 err k = k si (dec_at buffer sz 4)" using rd(1) [OF d(2), of 2] z p by simp
  qed
  have g2: "get_field (dec_at buffer sz 4) 2 err k = k 0 (dec_at buffer sz 6)"
    "drop 6 (bits_of buffer) = int_bits ?L sn @ (if f then [] else int_bits 16 so) @ r"
    if "?L = 18" for err and k :: "int \<Rightarrow> _ \<Rightarrow> am option"
    using rd(1) [of 4 2 0 _ 2 err k] rd(2) [of 4 2 0 _ 2] d(3) z that by simp_all
  have g3: "get_field (dec_at buffer sz q) (int ?L) err k = k sn (dec_at buffer sz (q + ?L))"
    "drop (q + ?L) (bits_of buffer) = (if f then [] else int_bits 16 so) @ r"
    if "drop q (bits_of buffer) = int_bits ?L sn @ (if f then [] else int_bits 16 so) @ r" "q + ?L \<le> 8 * nat sz"
    for q err and k :: "int \<Rightarrow> _ \<Rightarrow> am option"
    using rd [OF that refl len(2) sn] by blast+
  have g4: "get_field (dec_at buffer sz q) 16 err k = k so (dec_at buffer sz (8 * nat h))"
    if "drop q (bits_of buffer) = int_bits 16 so @ r" "8 * nat h = q + 16" "\<not> f" for q err and k :: "int \<Rightarrow> _ \<Rightarrow> am option"
    using rd(1) [OF that(1), of 16 err k] that(2,3) z(2) fields(3) by simp
  show ?thesis
  proof (cases "?L = 18")
    case True
    have "8 * nat h = 6 + ?L + (if f then 0 else 16)" "6 + ?L \<le> 8 * nat sz" using z True by auto
    then show ?thesis
      using True g3 [OF g2(2) [OF True]] fields(3)
      by (cases f) (simp_all add: nr_rlc_entity_am_recv_pdu_def decoder_init_at am_count_rx_def [symmetric] am_recv_data_pdu_def
          Let_def g [unfolded One_nat_def] g2 g4 len(1) si)
  next
    case False
    then have "?L = 12" "8 * nat h = 4 + ?L + (if f then 0 else 16)" "4 + ?L \<le> 8 * nat sz" using z len(3) by auto
    then show ?thesis
      using g3 [of 4] d(3) fields(3)
      by (cases f) (simp_all add: nr_rlc_entity_am_recv_pdu_def decoder_init_at am_count_rx_def [symmetric] am_recv_data_pdu_def
          Let_def g [unfolded One_nat_def] g4 len(1) si)
  qed
qed

section \<open>Any data PDU\<close>

lemma am_data_outcome_safe:
  assumes out: "am_data_outcome e buffer sz r" and ok: "am_rx_ok e" and room: "am_rx_room e (am_rx_next e)"
    and sz: "0 \<le> sz" "sz \<le> int (length buffer)"
  shows "\<exists>e' out. r = Some e' \<and> am_rx_ok e' \<and> am_rx_frame e e' \<and> ev e' = ev e @ out \<and> length out \<le> 1"
proof -
  from out consider p where "r = am_discard_pdu e sz p"
    | p sn so f l q where "r = am_recv_segment e buffer sz p sn so f l (dec_at buffer sz q)" "sn_valid e sn" "0 \<le> so"
    by (auto simp: am_data_outcome_def)
  then show ?thesis
  proof cases
    case 1
    then show ?thesis using am_discard_pdu [of e sz p] am_rx_discardedD [of e] ok by force
  next
    case 2
    have rm: "am_rx_room e sn" using room by (auto simp: am_rx_room_def)
    have d: "0 \<le> dec_byte (dec_at buffer sz q)" by simp
    show ?thesis
    proof (rule am_recv_segment_ok [OF ok 2(2,3) d sz(2) rm, of p f l])
      fix e' assume "am_recv_segment e buffer sz p sn so f l (dec_at buffer sz q) = Some e'" "am_rx_discarded e e'"
      then show ?thesis using 2(1) am_rx_discardedD [of e e'] ok by auto
    next
      fix e' k out
      assume "am_recv_segment e buffer sz p sn so f l (dec_at buffer sz q) = Some e'" "am_rx_ok e'" "am_rx_frame e e'"
        "am_rx_received e (rx_segment sn so f l (take (nat (sz - dec_byte (dec_at buffer sz q)))
          (drop (nat (dec_byte (dec_at buffer sz q))) buffer))) k out e'"
      then show ?thesis using 2(1) by (auto simp: am_rx_received_def rx_delivers_def split: if_splits)
    qed
  qed
qed

lemma am_frame_discarded: "am_rx_discarded e e1 \<Longrightarrow> am_rx_frame e1 e2 \<Longrightarrow> am_rx_frame e e2"
  using am_rx_discardedD(2) by (simp add: am_rx_frame_def)

lemma am_data_pdu_outcome:
  assumes "am_rx_ok e" "am_rx_room e (am_rx_next e)" "1 \<le> sz" "sz \<le> int (length buffer)" "bit (buffer ! 0) 7"
  shows "\<exists>e' out. nr_rlc_entity_am_recv_pdu e buffer sz = Some e' \<and> am_rx_ok e' \<and> am_rx_frame e e' \<and>
    ev e' = ev e @ out \<and> length out \<le> 1"
proof -
  let ?e = "am_count_rx e sz"
  note c = am_count_rx_ok [of e sz]
  have ok: "am_rx_ok ?e" using c(1) assms(1) by blast
  have "am_rx_next ?e = am_rx_next e" "slot_done ?e = slot_done e" "ev ?e = ev e"
    by (simp_all add: am_count_rx_def slot_done_def fun_eq_iff)
  then have room: "am_rx_room ?e (am_rx_next ?e)" using assms(2) by (simp add: am_rx_room_def am_count_rx_def)
  have out: "am_data_outcome ?e buffer sz (am_recv_data_pdu ?e buffer sz (dec_at buffer sz 1))"
    by (rule am_recv_data_pdu_outcome) (use ok assms in \<open>auto simp: am_rx_ok_def am_rx_base_def\<close>)
  obtain e' out where "am_recv_data_pdu ?e buffer sz (dec_at buffer sz 1) = Some e'" "am_rx_ok e'" "am_rx_frame ?e e'"
    "ev e' = ev ?e @ out" "length out \<le> 1"
    using am_data_outcome_safe [OF out ok room] assms(3,4) by auto
  then show ?thesis
    using am_recv_pdu_data [OF assms(3-5)] \<open>ev ?e = ev e\<close> am_frame_discarded [OF c(2)]
    by (intro exI [of _ e'] exI [of _ out]) simp
qed

section \<open>A new entity\<close>

lemma am_rx_fresh:
  assumes "am_cfg e" "am_rx e = nr_rlc_new_rx_manager (am_window_size e)" "am_rx_next e = 0" "am_rx_highest_status e = 0"
    and "am_rx_next_highest e = 0" "am_rx_next_status_trigger e = 0" "am_t_reassembly_start e = 0" "am_rx_size e = 0" "0 \<le> am_rx_maxsize e"
  shows "am_rx_ok e" "\<And>k. rx_slot e k = []"
proof -
  note c = am_cfg_facts [OF assms(1)]
  show nil: "rx_slot e k = []" for k
    using c by (simp add: assms rxm_slot_def nr_rlc_new_rx_manager_def)
  have "rx_stored (am_rx e) = 0" by (simp add: assms rx_stored_def nr_rlc_new_rx_manager_def sum_list_replicate)
  moreover have "am_rx_base e"
    using c assms(1) by (simp add: am_rx_base_def assms rxm_ok_def nr_rlc_new_rx_manager_def)
  ultimately show "am_rx_ok e"
    using assms(9) c nil by (simp add: am_rx_ok_def am_slots_ok_def am_rx_window_def am_rx_open_def am_timer_ok_def
        am_rx_acct_def assms(3-8) sn_valid_def rx_dist_def slot_done_def)
qed

lemma new_am_entity:
  assumes "new_nr_rlc_entity_am rx_maxsize tx_maxsize t_poll t_reas t_prohibit poll_pdu poll_byte max_retx len = Some e"
    and "0 \<le> rx_maxsize"
  shows "am_rx_ok e" "\<And>k. rx_slot e k = []" "am_rx_next e = 0" "ev e = []"
proof -
  have len: "len = 12 \<or> len = 18" using assms(1) by (auto simp: new_nr_rlc_entity_am_def bind_Some_iff Let_def)
  have "am_cfg e" "am_rx e = nr_rlc_new_rx_manager (am_window_size e)" "am_rx_next e = 0" "am_rx_highest_status e = 0" "am_rx_next_highest e = 0"
    "am_rx_next_status_trigger e = 0" "am_t_reassembly_start e = 0" "am_rx_size e = 0" "0 \<le> am_rx_maxsize e"
    using assms len by (auto simp: new_nr_rlc_entity_am_def bind_Some_iff Let_def push_bit_eq_mult am_cfg_def)
  note f = am_rx_fresh [OF this]
  show "am_rx_ok e" "\<And>k. rx_slot e k = []" by (fact f)+
  show "am_rx_next e = 0" "ev e = []" using assms(1) by (auto simp: new_nr_rlc_entity_am_def bind_Some_iff Let_def)
qed

section \<open>Delivery\<close>

text \<open>
  \<open>am_pdu_bytes e f c so n buffer\<close>: the buffer is a data PDU with the bytes from \<open>so\<close> on, \<open>n\<close> of them, of
  the SDU \<open>f c\<close>, as \<open>serialize_sdu\<close> writes it.
\<close>

definition am_pdu_bytes :: "am \<Rightarrow> (int \<Rightarrow> byte list) \<Rightarrow> int \<Rightarrow> int \<Rightarrow> int \<Rightarrow> byte list \<Rightarrow> bool" where
  "am_pdu_bytes e f c so n buffer \<longleftrightarrow>
     (let is_first = (so = 0); is_last = (so + n = int (length (f c)));
          h = 2 + (if am_sn_field_length e = 18 then 1 else 0) + (if is_first then 0 else 2)
      in 0 \<le> so \<and> 0 < n \<and> so + n \<le> int (length (f c)) \<and> h \<le> length buffer \<and>
         (\<exists>p \<in> {0, 1}. bits_of (take h buffer) =
            fields_bits (am_header_fields e p (c mod am_sn_modulus e) so is_first is_last)) \<and>
         drop h buffer = take (nat n) (drop (nat so) (f c)))"

text \<open>
  The runs of a receiver against a sender of the SDUs \<open>f 0, f 1, \<dots>\<close>: PDUs arrive in any order, any number
  of times, and may be lost. \<open>N\<close> is the count of the SDU at \<open>rx_next\<close>; the sender keeps to its window,
  so a PDU is never more than a window away from it. \<open>H\<close> are the bytes that arrived, except in a PDU
  that came when the reception buffer had no room for it.
\<close>

inductive am_rx_run :: "(int \<Rightarrow> byte list) \<Rightarrow> am \<Rightarrow> int \<Rightarrow> (int \<times> int) set \<Rightarrow> bool" for f where
  start: "new_nr_rlc_entity_am rx_max tx_max t_poll t_reas t_prohibit poll_pdu poll_byte max_retx len = Some e \<Longrightarrow>
    0 \<le> rx_max \<Longrightarrow> am_rx_run f e 0 {}"
| pdu: "am_rx_run f e N H \<Longrightarrow> am_pdu_bytes e f c so n buffer \<Longrightarrow> 0 \<le> c \<Longrightarrow>
    N - am_window_size e \<le> c \<Longrightarrow> c < N + am_window_size e \<Longrightarrow> am_rx_room e (am_rx_next e) \<Longrightarrow>
    nr_rlc_entity_am_recv_pdu e buffer (int (length buffer)) = Some e' \<Longrightarrow>
    N' = N + rx_dist e (am_rx_next e') \<Longrightarrow>
    H' = (if am_rx_size e + n > am_rx_maxsize e then H else H \<union> {c} \<times> {so..<so + n}) \<Longrightarrow>
    am_rx_run f e' N' H'"

definition rx_got :: "(int \<Rightarrow> byte list) \<Rightarrow> int \<Rightarrow> am \<Rightarrow> int \<Rightarrow> int set" where
  "rx_got f N e c = (if c < N then {0..<int (length (f c))}
     else if c < N + am_window_size e then bytes_of (rx_slot e (c - N)) else {})"

definition am_rx_inv :: "(int \<Rightarrow> byte list) \<Rightarrow> am \<Rightarrow> int \<Rightarrow> (int \<times> int) set \<Rightarrow> bool" where
  "am_rx_inv f e N H \<longleftrightarrow> am_rx_ok e \<and> rx_holds f N e \<and> 0 \<le> N \<and> H = {(c, i). 0 \<le> c \<and> i \<in> rx_got f N e c} \<and>
     (\<exists>D. distinct D \<and> set D = {c \<in> rx_delivered N e. 0 \<le> c} \<and> ev e = map (\<lambda>c. Deliver_sdu (f c)) D)"

lemma am_rx_inv_cong:
  assumes "am_rx_inv f e N H" "am_rx_discarded e e'"
  shows "am_rx_inv f e' N H"
proof -
  from assms(2) obtain t st where e': "e' = e\<lparr>am_status_triggered := t, stats := st\<rparr>" by (auto simp: am_rx_discarded_def)
  have "rx_holds f N e'" "rx_got f N e' = rx_got f N e" "rx_delivered N e' = rx_delivered N e" "ev e' = ev e"
    using assms(1) by (simp_all add: e' am_rx_inv_def rx_holds_def rx_got_def rx_delivered_def fun_eq_iff)
  then show ?thesis using assms am_rx_discardedD(1) [OF assms(2)] by (simp add: am_rx_inv_def)
qed

text \<open>An SDU is delivered when all its bytes are there.\<close>

lemma rx_delivered_got:
  assumes "am_rx_ok e" "rx_holds f N e" "sdus_fit f"
  shows "c \<in> rx_delivered N e \<longleftrightarrow> rx_got f N e c = {0..<int (length (f c))}"
proof -
  have ne: "f c \<noteq> []" using assms(3) by (simp add: sdus_fit_def)
  consider "c < N" | "N \<le> c" "c < N + am_window_size e" | "N + am_window_size e \<le> c" by linarith
  then show ?thesis
  proof cases
    case 2
    let ?l = "rx_slot e (c - N)"
    have l: "pdus_ok (rx_sn e (c - N)) ?l" using assms(1) 2 by (simp add: am_rx_ok_def am_slots_ok_def)
    have h: "\<forall>p \<in> set ?l. piece_of (f c) p" "already_processed ?l \<longrightarrow> bytes_of ?l = {0..<int (length (f c))}"
      using assms(2) 2 unfolding rx_holds_def by (auto dest!: spec [of _ "c - N"])
    have "so_sorted ?l" using l by (simp add: pdus_ok_def)
    note full = full_bytes [OF this h(1) ne]
    have "\<not> already_processed ?l \<Longrightarrow> \<not> sdu_full_loop ?l (-1)" using l by (simp add: pdus_ok_def)
    then show ?thesis using 2 h(2) full by (auto simp: rx_delivered_def rx_got_def)
  qed (use ne in \<open>auto simp: rx_delivered_def rx_got_def\<close>)
qed

lemma rx_got_sub:
  assumes "am_rx_ok e" "rx_holds f N e"
  shows "rx_got f N e c \<subseteq> {0..<int (length (f c))}"
proof -
  consider "c < N" | "N \<le> c" "c < N + am_window_size e" | "N + am_window_size e \<le> c" by linarith
  then show ?thesis
  proof cases
    case 2
    then have "\<forall>p \<in> set (rx_slot e (c - N)). piece_of (f c) p"
      using assms(2) unfolding rx_holds_def by (auto dest!: spec [of _ "c - N"])
    then show ?thesis using 2 by (fastforce simp: rx_got_def bytes_of_def piece_of_def)
  qed (auto simp: rx_got_def)
qed

lemma am_rx_inv_start:
  assumes "new_nr_rlc_entity_am rx_max tx_max t_poll t_reas t_prohibit poll_pdu poll_byte max_retx len = Some e" "0 \<le> rx_max"
  shows "am_rx_inv f e 0 {}"
proof -
  note n = new_am_entity [OF assms]
  have "rx_holds f 0 e" using n by (simp add: rx_holds_def)
  then show ?thesis using n by (auto simp: am_rx_inv_def rx_got_def rx_delivered_def)
qed

lemma am_rx_inv_stored:
  assumes inv: "am_rx_inv f e N H" and fit: "sdus_fit f" and c: "0 \<le> c" "N \<le> c" "c < N + am_window_size e"
    and pdu: "piece_of (f c) pdu" "pdu_sn pdu = c mod am_sn_modulus e" "pdu_ok pdu" "pdu_data pdu \<noteq> None"
    and rec: "am_rx_received e pdu k out e'" and ok: "am_rx_ok e'" and fr: "am_rx_frame e e'"
  shows "am_rx_inv f e' (N + k) (H \<union> {c} \<times> {pdu_so pdu..<pdu_so pdu + pdu_size pdu})"
proof -
  let ?W = "am_window_size e"
  have e: "am_rx_ok e" "rx_holds f N e" "0 \<le> N" "H = {(c, i). 0 \<le> c \<and> i \<in> rx_got f N e c}" using inv by (simp_all add: am_rx_inv_def)
  obtain D where D: "distinct D" "set D = {c \<in> rx_delivered N e. 0 \<le> c}" "ev e = map (\<lambda>c. Deliver_sdu (f c)) D"
    using inv by (auto simp: am_rx_inv_def)
  note cfg = am_rx_frame_cfg [OF fr]
  note new = rx_received_holds [OF e(1,2) pdu c(2,3) cfg(2,3) rec] and after = rx_after_slot [OF e(1,2) pdu c(2,3)]
  have k: "0 \<le> k" "k \<le> ?W" "\<And>j. 0 \<le> j \<Longrightarrow> j < k \<Longrightarrow> already_processed (rx_after e pdu j)"
    "\<And>j. 0 \<le> j \<Longrightarrow> j < ?W \<Longrightarrow> rx_slot e' j = (if j + k < ?W then rx_after e pdu (j + k) else [])"
    and ev': "ev e' = ev e @ out" "rx_delivers e pdu out" using rec by (simp_all add: am_rx_received_def)
  have bytes: "bytes_of (rx_after e pdu j) = bytes_of (rx_slot e j) \<union>
      (if j = c - N then {pdu_so pdu..<pdu_so pdu + pdu_size pdu} else {})" if "0 \<le> j" "j < ?W" for j
    using after(1) [OF that] by (auto simp: rx_after_def rx_insert_def)
  have got: "rx_got f (N + k) e' c' = rx_got f N e c' \<union> (if c' = c then {pdu_so pdu..<pdu_so pdu + pdu_size pdu} else {})" for c'
  proof -
    consider "c' < N" | "N \<le> c'" "c' < N + k" | "N + k \<le> c'" "c' < N + ?W" | "N + ?W \<le> c'" by linarith
    then show ?thesis
    proof cases
      case 2
      then have "bytes_of (rx_after e pdu (c' - N)) = {0..<int (length (f c'))}"
        using after(4) [of "c' - N"] k(2,3) by simp
      then show ?thesis using 2 bytes [of "c' - N"] k(2) by (auto simp: rx_got_def)
    next
      case 3
      then have "rx_slot e' (c' - (N + k)) = rx_after e pdu (c' - N)" using k(1) k(4) [of "c' - (N + k)"] by simp
      then show ?thesis using 3 bytes [of "c' - N"] k(1) cfg(3) by (auto simp: rx_got_def)
    next
      case 4
      then show ?thesis using k(1,2) k(4) [of "c' - (N + k)"] c cfg(3) by (auto simp: rx_got_def)
    qed (use c k(1) in \<open>auto simp: rx_got_def\<close>)
  qed
  have "\<forall>p \<in> set (rx_slot e (rx_dist e (pdu_sn pdu))). piece_of (f c) p"
    using e(2) c after(1) [of "c - N"] unfolding rx_holds_def by (auto dest!: spec [of _ "c - N"])
  moreover have "sn_valid e (pdu_sn pdu)" "rx_dist e (pdu_sn pdu) < ?W"
    using rx_dist_count [of e N c] pdu(2) e(1,2) c am_rx_baseD(5,6) [of e] by (auto simp: rx_holds_def am_rx_ok_def)
  ultimately have out: "out = (if rx_completes e pdu then [Deliver_sdu (f c)] else [])"
    using rx_delivers_sdu [OF e(1) _ pdu(1,4) _ _ _ ev'(2)] fit by (simp add: sdus_fit_def)
  have "\<exists>D. distinct D \<and> set D = {c \<in> rx_delivered (N + k) e'. 0 \<le> c} \<and> ev e' = map (\<lambda>c. Deliver_sdu (f c)) D"
    by (rule exI [of _ "D @ (if rx_completes e pdu then [c] else [])"])
      (use D new(2,3) out ev'(1) c(1) in auto)
  moreover have "H \<union> {c} \<times> {pdu_so pdu..<pdu_so pdu + pdu_size pdu} = {(c, i). 0 \<le> c \<and> i \<in> rx_got f (N + k) e' c}"
    using c(1) by (auto simp: got e(4) split: if_splits)
  ultimately show ?thesis using ok new(1) e(3) k(1) by (simp add: am_rx_inv_def)
qed

lemma piece_segment:
  assumes "0 \<le> so" "0 < n" "so + n \<le> int (length d)"
  shows "piece_of d (rx_segment sn so (so = 0) (so + n = int (length d)) (take (nat n) (drop (nat so) d)))"
    "pdu_ok (rx_segment sn so (so = 0) (so + n = int (length d)) (take (nat n) (drop (nat so) d)))"
    "int (length (take (nat n) (drop (nat so) d))) = n"
  using assms by (simp_all add: piece_of_def pdu_ok_def)

lemma am_pdu_bytes_recv:
  assumes cfg: "am_cfg e" and bytes: "am_pdu_bytes e f c so n buffer" and small: "so < 2 ^ 16"
  defines "sz \<equiv> int (length buffer)"
  obtains p h where "nr_rlc_entity_am_recv_pdu e buffer sz = am_recv_segment (am_count_rx e sz) buffer sz p
      (c mod am_sn_modulus e) so (so = 0) (so + n = int (length (f c))) (dec_at buffer sz (8 * h))"
    "sz - dec_byte (dec_at buffer sz (8 * h)) = n"
    "take (nat n) (drop (nat (dec_byte (dec_at buffer sz (8 * h)))) buffer) = take (nat n) (drop (nat so) (f c))"
proof -
  let ?first = "so = 0" and ?last = "so + n = int (length (f c))" and ?M = "am_sn_modulus e"
  define h where "h = (2 + (if am_sn_field_length e = 18 then 1 else 0) + (if ?first then 0 else 2) :: nat)"
  have b: "0 \<le> so" "0 < n" "so + n \<le> int (length (f c))" "h \<le> length buffer" "drop h buffer = take (nat n) (drop (nat so) (f c))"
    using bytes by (simp_all add: am_pdu_bytes_def Let_def h_def)
  obtain p where p: "p \<in> {0, 1}" "bits_of (take h buffer) = fields_bits (am_header_fields e p (c mod ?M) so ?first ?last)"
    using bytes by (auto simp: am_pdu_bytes_def Let_def h_def)
  have sn: "sn_valid e (c mod ?M)" using am_cfg_facts [OF cfg] by (simp add: sn_valid_def)
  have so: "if ?first then so = 0 else 0 < so \<and> so < 2 ^ 16" using b(1) small by simp
  have hh: "int h = 2 + (if am_sn_field_length e = 18 then 1 else 0) + (if ?first then 0 else 2)" by (simp add: h_def)
  have n: "sz - dec_byte (dec_at buffer sz (8 * h)) = n"
    using arg_cong [OF b(5), of length] b(1-4) by (simp add: sz_def)
  show ?thesis
  proof (rule that [OF _ n])
    show "nr_rlc_entity_am_recv_pdu e buffer sz =
        am_recv_segment (am_count_rx e sz) buffer sz p (c mod ?M) so ?first ?last (dec_at buffer sz (8 * h))"
      using am_recv_pdu_segment [where h = "int h", unfolded nat_int, OF cfg p(2) _ _ p(1) sn so hh, of sz] b(4)
      by (simp add: sz_def)
    show "take (nat n) (drop (nat (dec_byte (dec_at buffer sz (8 * h)))) buffer) = take (nat n) (drop (nat so) (f c))"
      using b(2,5) by simp
  qed
qed

text \<open>A segment that is rejected although there is room for it brings nothing new.\<close>

lemma am_rx_inv_rejected:
  assumes inv: "am_rx_inv f e N H" and piece: "0 \<le> so" "0 < n" "so + n \<le> int (length (f c))"
    and c: "0 \<le> c" "N - am_window_size e \<le> c" "c < N + am_window_size e"
    and rej: "am_rx_size e + n \<le> am_rx_maxsize e" "rx_rejects e (c mod am_sn_modulus e) so n"
  shows "H \<union> {c} \<times> {so..<so + n} = H"
proof -
  have e: "am_rx_base e" "rx_holds f N e" using inv by (simp_all add: am_rx_inv_def am_rx_ok_def)
  have "{so..<so + n} \<subseteq> rx_got f N e c"
  proof (cases "c < N")
    case True
    then show ?thesis using piece by (auto simp: rx_got_def)
  next
    case False
    then have "rx_dist e (c mod am_sn_modulus e) = c - N"
      using rx_dist_count(1) [OF e(1), of N c] e(2) c am_rx_baseD(5,6) [OF e(1)] by (simp add: rx_holds_def)
    then show ?thesis using rej piece(2) c False by (auto simp: rx_rejects_def rx_got_def)
  qed
  then show ?thesis using inv c(1) by (auto simp: am_rx_inv_def)
qed

lemma am_rx_inv_pdu:
  assumes inv: "am_rx_inv f e N H" and fit: "sdus_fit f" and bytes: "am_pdu_bytes e f c so n buffer"
    and c: "0 \<le> c" "N - am_window_size e \<le> c" "c < N + am_window_size e" and room: "am_rx_room e (am_rx_next e)"
  obtains e' where "nr_rlc_entity_am_recv_pdu e buffer (int (length buffer)) = Some e'"
    "am_rx_inv f e' (N + rx_dist e (am_rx_next e')) (if am_rx_size e + n > am_rx_maxsize e then H else H \<union> {c} \<times> {so..<so + n})"
proof -
  define sz where "sz = int (length buffer)"
  define e1 where "e1 = am_count_rx e sz"
  let ?M = "am_sn_modulus e1" and ?d = "\<lambda>h. dec_at buffer sz (8 * h)"
  have b: "0 \<le> so" "0 < n" "so + n \<le> int (length (f c))" using bytes by (simp_all add: am_pdu_bytes_def Let_def)
  have inv1: "am_rx_inv f e1 N H" unfolding e1_def by (rule am_rx_inv_cong [OF inv am_count_rx_ok(2)])
  have e: "am_rx_ok e1" "am_rx_base e1" "rx_holds f N e1" using inv1 by (auto simp: am_rx_inv_def am_rx_ok_def)
  note w = am_rx_baseD [OF e(2)]
  have v: "rx_dist e1 = rx_dist e" "am_rx_next e1 = am_rx_next e" "am_window_size e1 = am_window_size e"
    "am_sn_modulus e1 = am_sn_modulus e" "am_rx_size e1 = am_rx_size e" "am_rx_maxsize e1 = am_rx_maxsize e"
    "am_cfg e1 = am_cfg e" "slot_done e1 = slot_done e" "am_rx_highest_status e1 = am_rx_highest_status e"
    using rx_view_cong [of e1 e] by (simp_all add: e1_def am_count_rx_def am_cfg_def slot_done_def fun_eq_iff)
  have "so < 2 ^ 16" using b(2,3) fit [unfolded sdus_fit_def NR_SDU_MAX_def, rule_format, of c] by simp
  then obtain p h where run: "nr_rlc_entity_am_recv_pdu e buffer sz =
      am_recv_segment e1 buffer sz p (c mod ?M) so (so = 0) (so + n = int (length (f c))) (?d h)"
    and n: "sz - dec_byte (?d h) = n" and data: "take (nat n) (drop (nat (dec_byte (?d h))) buffer) = take (nat n) (drop (nat so) (f c))"
    using am_pdu_bytes_recv [of e f c so n buffer] bytes w(4) v(4,7) unfolding sz_def e1_def by metis
  have pre: "sn_valid e1 (c mod ?M)" "0 \<le> dec_byte (?d h)" "sz \<le> int (length buffer)" "am_rx_room e1 (c mod ?M)"
    using w(5,6) room by (auto simp: sn_valid_def sz_def am_rx_room_def v)
  note ps = piece_segment(1,2) [OF b, of "c mod ?M"] piece_segment(3) [OF b]
  show ?thesis
  proof (rule am_recv_segment_ok [OF e(1) pre(1) b(1) pre(2-4), of p "so = 0" "so + n = int (length (f c))", unfolded n data, folded run])
    fix e' assume r: "nr_rlc_entity_am_recv_pdu e buffer sz = Some e'" "rx_rejects e1 (c mod ?M) so n" "am_rx_discarded e1 e'"
    have "rx_dist e (am_rx_next e') = 0" using am_rx_discardedD(4) [OF r(3)] by (simp add: v rx_dist_def)
    then show ?thesis
      using r(1) am_rx_inv_cong [OF inv1 r(3)] am_rx_inv_rejected [OF inv1 b c(1)] c r(2) by (intro that [of e']) (auto simp: sz_def v)
  next
    fix e' k out assume r: "nr_rlc_entity_am_recv_pdu e buffer sz = Some e'" "\<not> rx_rejects e1 (c mod ?M) so n" "am_rx_ok e'"
      "am_rx_frame e1 e'" "am_rx_received e1 (rx_segment (c mod ?M) so (so = 0) (so + n = int (length (f c))) (take (nat n) (drop (nat so) (f c)))) k out e'"
    have "\<not> c < N" using r(2) rx_dist_old [OF e(2), of N c] e(3) c(2) by (auto simp: rx_rejects_def v rx_holds_def)
    then have "am_rx_inv f e' (N + k) (H \<union> {c} \<times> {so..<so + n})"
      using am_rx_inv_stored [OF inv1 fit c(1) _ _ ps(1) _ ps(2) _ r(5,3,4)] c(3) ps(3) by (simp add: v)
    moreover have "am_rx_next e' = rx_sn e1 k" "0 \<le> k" "k \<le> am_window_size e" using r(5) by (simp_all add: am_rx_received_def v)
    then have "rx_dist e (am_rx_next e') = k" using rx_dist_sn [OF e(2), of k] w(5,6) by (simp add: v)
    ultimately show ?thesis using r(1,2) by (intro that [of e']) (auto simp: sz_def rx_rejects_def v)
  qed
qed

lemma am_rx_run_inv: "am_rx_run f e N H \<Longrightarrow> sdus_fit f \<Longrightarrow> am_rx_inv f e N H"
proof (induction rule: am_rx_run.induct)
  case (start rx_max tx_max t_poll t_reas t_prohibit poll_pdu poll_byte max_retx len e)
  then show ?case by (intro am_rx_inv_start)
next
  case (pdu e N H c so n buffer e' N' H')
  from pdu.IH [OF pdu.prems] pdu.prems pdu.hyps(2-6) obtain e2 where
    "nr_rlc_entity_am_recv_pdu e buffer (int (length buffer)) = Some e2"
    "am_rx_inv f e2 (N + rx_dist e (am_rx_next e2)) (if am_rx_size e + n > am_rx_maxsize e then H else H \<union> {c} \<times> {so..<so + n})"
    by (rule am_rx_inv_pdu)
  then show ?case using pdu.hyps(7-9) by simp
qed


section \<open>The properties of data reception\<close>


lemma new_am_entity_room:
  assumes "new_nr_rlc_entity_am rx_maxsize tx_maxsize t_poll t_reas t_prohibit poll_pdu poll_byte max_retx len = Some e"
    and "0 \<le> rx_maxsize"
  shows "am_rx_room e sn" "am_cfg e" "am_sn_field_length e = len" "am_rx_size e = 0" "am_rx_maxsize e = rx_maxsize * 5"
proof -
  note n = new_am_entity [OF assms]
  show cfg: "am_cfg e" using n(1) by (simp add: am_rx_ok_def am_rx_base_def)
  show "am_rx_room e sn"
    unfolding am_rx_room_def
    by (rule impI, rule exI [of _ 1]) (use n(2) cfg in \<open>auto simp: slot_done_def am_cfg_def\<close>)
  show "am_sn_field_length e = len" "am_rx_size e = 0" "am_rx_maxsize e = rx_maxsize * 5"
    using assms(1) by (auto simp: new_nr_rlc_entity_am_def bind_Some_iff Let_def)
qed

lemma new_am_entity_returns:
  "len = 12 \<or> len = 18 \<Longrightarrow>
   \<exists>e. new_nr_rlc_entity_am rx_max tx_max t_poll t_reas t_prohibit poll_pdu poll_byte max_retx len = Some e"
  by (auto simp: new_nr_rlc_entity_am_def time_average_new_def Let_def)




text \<open>
  C11. The window of the receiver can close the scan for \<open>rx_highest_status\<close>: when every position of the
  window but the first has been delivered and the segment received completes the first SDU, which is also
  the one \<open>rx_highest_status\<close> stands at, the loop of \<open>reception_actions\<close> at line 235 finds no SDU that is not
  delivered, runs round the window and does not end.
\<close>

theorem am_full_window_diverges:
  assumes "am_rx_ok e" "pdu_sn pdu = am_rx_next e" "am_rx_highest_status e = am_rx_next e"
    and "pdu_ok pdu" "pdu_data pdu \<noteq> None" "rx_completes e pdu"
    and "\<forall>k. 0 < k \<and> k < am_window_size e \<longrightarrow> slot_done e k"
  shows "\<exists>m. nr_rlc_rx_manager_add_pdu (am_rx e) pdu = Some m \<and>
    reception_actions (e\<lparr>am_rx_size := am_rx_size e + pdu_size pdu, am_rx := m\<rparr>) pdu = None"
proof -
  let ?x = "pdu_sn pdu"
  have base: "am_rx_base e" using assms(1) by (simp add: am_rx_ok_def)
  note b = am_rx_baseD [OF base]
  have d: "rx_dist e ?x = 0" using assms(2) by (simp add: rx_dist_def)
  have sn: "sn_valid e ?x" "rx_dist e ?x < am_window_size e" using rx_sn_0 [OF base] rx_sn_valid [OF base, of 0] assms(2) d b(6) by simp_all
  obtain m where add: "nr_rlc_rx_manager_add_pdu (am_rx e) pdu = Some m"
    and ins0: "am_inserted e pdu (rx_advance_highest (e\<lparr>am_rx_size := am_rx_size e + pdu_size pdu, am_rx := m\<rparr>) ?x)"
    by (rule am_insert [OF assms(1) sn assms(4,5)])
  define e1 where "e1 = rx_advance_highest (e\<lparr>am_rx_size := am_rx_size e + pdu_size pdu, am_rx := m\<rparr>) ?x"
  note ins = ins0 [folded e1_def]
  note i = am_insertedD [OF ins] and sl = am_inserted_slot [OF assms(1) sn assms(4,5) ins]
  have x1: "sn_valid e1 ?x" "rx_dist e1 ?x < am_window_size e1" using sn i(1,3,4) by simp_all
  have l1: "\<forall>p \<in> set (rx_slot e1 (rx_dist e1 ?x)). pdu_ok p \<and> pdu_data p \<noteq> None"
    using sl(4,5) assms(6) i(1) by simp
  obtain so bad sdu m' st where
    e2: "am_reassemble_and_deliver e1 ?x = Some (e1\<lparr>am_rx := m', am_rx_size := am_rx_size e1 - stored_bytes (rx_slot e1 (rx_dist e1 ?x)),
       ev := ev e1 @ (if bad then [] else [Deliver_sdu sdu]), stats := st\<rparr>)" (is "_ = Some ?e2")
    and m': "rxm_ok m'" "rxm_size m' = am_window_size e1" "rxm_sn_start m' = am_rx_next e1"
      "\<forall>d. 0 \<le> d \<and> d < am_window_size e1 \<longrightarrow>
        rxm_slot m' d = (if d = rx_dist e1 ?x then map pdu_processed (rx_slot e1 d) else rx_slot e1 d)"
    by (rule am_reassemble [OF i(16) x1 l1]) (rule that)
  have full: "sdu_full_loop (rx_slot e1 (rx_dist e1 ?x)) (-1)" using assms(6) sl(1) i(1) by (simp add: rx_completes_def)
  have pre: "\<forall>k. 0 \<le> k \<and> k < am_window_size e1 \<and> k \<noteq> rx_dist e1 ?x \<longrightarrow> pdus_ok (rx_sn e1 k) (rx_slot e1 k)"
    "so_sorted (rx_slot e1 (rx_dist e1 ?x))" "\<forall>p \<in> set (rx_slot e1 (rx_dist e1 ?x)). pdu_ok p \<and> pdu_sn p = ?x"
    using am_inserted_others [OF assms(1) ins] sl(3,4) i(1,2,4) by simp_all
  note proc = am_processed [OF i(16,17) x1 pre full m' refl]
  have "k = 0 \<or> slot_done e1 k" if "0 \<le> k" "k < am_window_size e" for k
    using that assms(7) i(19) i(4) d by (cases "k = 0") (simp_all add: slot_done_in)
  then have all_done: "\<forall>k. 0 \<le> k \<and> k < am_window_size ?e2 \<longrightarrow> slot_done ?e2 k"
    using proc(4) d i(1,4) by auto
  have "sn_valid ?e2 ?x" using sn(1) i(3) rx_view_cong [of ?e2 e1] by simp
  then have "update_rx_highest_status ?e2 ?x = None"
    using delivered_scan_diverges [OF proc(1) all_done] assms(2,3) i(8) by (simp add: update_rx_highest_status_def)
  then have "reception_actions (e\<lparr>am_rx_size := am_rx_size e + pdu_size pdu, am_rx := m\<rparr>) pdu = None"
    using e2 sl(2) assms(6) by (simp add: reception_actions_alt Let_def e1_def [symmetric])
  then show ?thesis using add by blast
qed

text \<open>A 12-bit receiver that has delivered the SDUs 1 to 2047 and waits for the SDU 0.\<close>

definition waits_for_first :: "am \<Rightarrow> am" where
  "waits_for_first e = e\<lparr>am_rx_next_highest := 2048, am_rx := (am_rx e)\<lparr>rxm_rx_list :=
     [] # map (\<lambda>k. [pdu_processed (rx_segment (int k) 0 True True [42])]) [1..<2048]\<rparr>\<rparr>"

lemma waits_for_first:
  assumes "new_nr_rlc_entity_am rx_maxsize tx_maxsize t_poll t_reas t_prohibit poll_pdu poll_byte max_retx 12 = Some e"
    and "0 \<le> rx_maxsize"
  defines "e' \<equiv> waits_for_first e"
  shows "am_rx_ok e'" "am_rx_next e' = 0" "am_rx_highest_status e' = 0" "rx_slot e' 0 = []"
    "\<forall>k. 0 < k \<and> k < am_window_size e' \<longrightarrow> slot_done e' k"
proof -
  have e: "am_rx e = nr_rlc_new_rx_manager 2048" "am_rx_next e = 0" "am_rx_highest_status e = 0" 
    "am_rx_next_status_trigger e = 0" "am_t_reassembly_start e = 0" "am_sn_modulus e = 4096" "am_window_size e = 2048"
    "am_sn_field_length e = 12" "am_rx_size e = 0" "am_rx_maxsize e = rx_maxsize * 5"
    using assms(1) by (auto simp: new_nr_rlc_entity_am_def bind_Some_iff Let_def push_bit_eq_mult)
  show n: "am_rx_next e' = 0" "am_rx_highest_status e' = 0" by (simp_all add: e'_def waits_for_first_def e)
  have slot: "rx_slot e' k = (if k = 0 then [] else [pdu_processed (rx_segment k 0 True True [42])])"
    if "0 \<le> k" "k < 2048" for k
    using that by (simp add: e'_def waits_for_first_def e rxm_slot_def nr_rlc_new_rx_manager_def nth_Cons' nat_less_iff)
  have W: "am_window_size e' = 2048" by (simp add: e'_def waits_for_first_def e)
  show "rx_slot e' 0 = []" using slot [of 0] by simp
  show "\<forall>k. 0 < k \<and> k < am_window_size e' \<longrightarrow> slot_done e' k" using slot by (simp add: W slot_done_in)
  have "rx_stored (am_rx e') = 0"
    by (simp add: e'_def waits_for_first_def rx_stored_def o_def stored_bytes_def sum_list_triv)
  moreover have "am_rx_base e'"
    by (simp add: am_rx_base_def am_cfg_def e'_def waits_for_first_def e rxm_ok_def nr_rlc_new_rx_manager_def)
  moreover have "am_slots_ok e'"
    using slot by (simp add: am_slots_ok_def W pdus_ok_def pdu_ok_def rx_sn_def n e'_def waits_for_first_def e)
  ultimately show "am_rx_ok e'"
    using assms(2) slot [of 0] slot [of 2047] by (auto simp: am_rx_ok_def am_rx_window_def am_rx_open_def am_timer_ok_def am_rx_acct_def n
        e'_def waits_for_first_def e sn_valid_def rx_dist_def circ_dist_def slot_done_def)
qed

theorem am_full_window_diverges_witness:
  "\<exists>e m. new_nr_rlc_entity_am 1000 1000 45 35 0 4 (-1) 8 12 = Some e \<and>
     reception_actions ((waits_for_first e)\<lparr>am_rx_size := 1, am_rx := m\<rparr>) (rx_segment 0 0 True True [42]) = None"
proof -
  let ?pdu = "rx_segment 0 0 True True [42]"
  from new_am_entity_returns [of 12 1000 1000 45 35 0 4 "-1" 8] obtain e where
    e: "new_nr_rlc_entity_am 1000 1000 45 35 0 4 (-1) 8 12 = Some e" by auto
  note w = waits_for_first [OF e]
  have sz: "am_rx_size (waits_for_first e) + pdu_size ?pdu = 1" using new_am_entity_room(4) [OF e] by (simp add: waits_for_first_def)
  have full: "rx_completes (waits_for_first e) ?pdu"
    using w by (simp add: rx_completes_def rx_dist_def rx_insert_def)
  obtain m where "reception_actions ((waits_for_first e)\<lparr>am_rx_size := am_rx_size (waits_for_first e) + pdu_size ?pdu, am_rx := m\<rparr>) ?pdu = None"
    using am_full_window_diverges [of "waits_for_first e" ?pdu] w full rx_segment_ok [of 0 "[42]"] by auto
  then show ?thesis using e sz by auto
qed

end
