(* ===== verification/RLC_AM_Tx_Inv.thy ===== *)
theory RLC_AM_Tx_Inv
  imports RLC_AM_Receive
begin

text \<open>
  The invariant of the transmit side of an AM entity. \<open>am_tx_core L e\<close> says that the three lists of
  segments and the SDU store fit together, that the sizes the entity reports are the sums of what it
  holds, and that sequence numbers are assigned where they have to be; \<open>am_tx_order e\<close> that the sequence
  numbers in use lie in the window and that the wait and retransmit lists are sorted by sequence number
  and offset. \<open>L\<close> are segments that are in no list: the one an operation has in its hands, or one that
  was lost; it is empty between operations.
\<close>

section \<open>The invariant\<close>

definition am_segs :: "am \<Rightarrow> seg multiset" where
  "am_segs e = mset (am_tx_list e) + mset (am_wait_list e) + mset (am_retransmit_list e)"

definition am_cost :: "am \<Rightarrow> seg \<Rightarrow> int" where
  "am_cost e s = am_compute_pdu_header_size e s + seg_size s"

text \<open>Two segments of one SDU have no byte in common; an empty segment is a whole SDU.\<close>

definition seg_before :: "seg \<Rightarrow> seg \<Rightarrow> bool" where
  "seg_before s t \<longleftrightarrow> seg_so s < seg_so t \<and> seg_so s + seg_size s \<le> seg_so t"

definition segs_apart :: "seg multiset \<Rightarrow> bool" where
  "segs_apart M \<longleftrightarrow> (\<forall>s \<in># M. seg_size s = 0 \<longrightarrow> seg_so s = 0) \<and>
     (\<forall>s \<in># M. \<forall>t \<in># M. seg_sdu s = seg_sdu t \<longrightarrow> seg_addr s \<noteq> seg_addr t \<longrightarrow> seg_before s t \<or> seg_before t s)"

definition am_tx_mem :: "seg multiset \<Rightarrow> am \<Rightarrow> bool" where
  "am_tx_mem L e \<longleftrightarrow> heap_ok (sdus e) (am_segs e + L) \<and> segs_fit (sdus e) (am_segs e + L) \<and>
     segs_apart (am_segs e + L) \<and> list_end (am_tx_list e) (am_tx_end e) \<and> list_end (am_wait_list e) (am_wait_end e)"

definition am_tx_acct :: "am \<Rightarrow> bool" where
  "am_tx_acct e \<longleftrightarrow> am_tx_size e = heap_bytes (sdus e) \<and> am_tx_size e \<le> am_tx_maxsize e \<and>
     bs_tx_size (bstatus e) = (\<Sum>s\<leftarrow>am_tx_list e. am_cost e s) \<and>
     bs_retx_size (bstatus e) = (\<Sum>s\<leftarrow>am_retransmit_list e. am_cost e s)"

text \<open>
  What was transmitted has a sequence number. What is to be transmitted ends its SDU; it is a whole SDU
  without a number, except that the first one may be the rest of an SDU that was segmented.
\<close>

definition am_tx_sns :: "am \<Rightarrow> bool" where
  "am_tx_sns e \<longleftrightarrow> sn_valid e (am_tx_next e) \<and> sn_valid e (am_tx_next_ack e) \<and>
     (\<forall>a sdu. heap_sdus (sdus e) a = Some sdu \<longrightarrow> sdu_sn sdu = -1 \<or> sn_valid e (sdu_sn sdu)) \<and>
     (\<forall>s \<in> set (am_wait_list e) \<union> set (am_retransmit_list e). seg_sn e s \<noteq> Some (-1)) \<and>
     (\<forall>s \<in> set (am_tx_list e). seg_is_last s \<and> (seg_is_first s \<longleftrightarrow> seg_sn e s = Some (-1))) \<and>
     (\<forall>s \<in> set (tl (am_tx_list e)). seg_is_first s)"

definition am_tx_core :: "seg multiset \<Rightarrow> am \<Rightarrow> bool" where
  "am_tx_core L e \<longleftrightarrow> am_cfg e \<and> am_tx_mem L e \<and> am_tx_acct e \<and> am_tx_sns e \<and> window_ok (txsdu_avg_time_to_tx e)"

text \<open>What the invariant depends on.\<close>

definition am_txv where
  "am_txv (e :: am) = ((am_sn_field_length e, am_sn_modulus e, am_window_size e), (am_tx_next e, am_tx_next_ack e),
     (sdus e, am_tx_size e, am_tx_maxsize e), (am_tx_list e, am_tx_end e), (am_wait_list e, am_wait_end e),
     am_retransmit_list e, (bs_tx_size (bstatus e), bs_retx_size (bstatus e)), txsdu_avg_time_to_tx e)"

lemma am_tx_core_cong:
  assumes "am_txv e' = am_txv e"
  shows "am_tx_core L e' \<longleftrightarrow> am_tx_core L e"
  using assms
  by (simp add: am_txv_def am_tx_core_def am_cfg_def am_tx_mem_def am_segs_def am_tx_acct_def am_cost_def
      am_compute_pdu_header_size_def am_tx_sns_def sn_valid_def seg_sn_def)

lemma seg_before_irrefl [simp]: "\<not> seg_before s s"
  by (simp add: seg_before_def)

lemma segs_apart_mono: "segs_apart M \<Longrightarrow> N \<subseteq># M \<Longrightarrow> segs_apart N"
  using mset_subset_eqD [of N M] unfolding segs_apart_def by blast

lemma segs_apart_add:
  "segs_apart (add_mset s M) \<longleftrightarrow> segs_apart M \<and> (seg_size s = 0 \<longrightarrow> seg_so s = 0) \<and>
     (\<forall>t \<in># M. seg_sdu s = seg_sdu t \<longrightarrow> seg_addr s \<noteq> seg_addr t \<longrightarrow> seg_before s t \<or> seg_before t s)"
  unfolding segs_apart_def by auto

text \<open>A whole SDU has no other segment.\<close>

lemma whole_alone:
  assumes "heap_ok h (add_mset s M)" "segs_fit h (add_mset s M)" "segs_apart (add_mset s M)"
    and "seg_is_first s" "seg_is_last s" "t \<in># M"
  shows "seg_sdu t \<noteq> seg_sdu s"
proof
  assume eq: "seg_sdu t = seg_sdu s"
  obtain sdu where sdu: "heap_sdus h (seg_sdu s) = Some sdu" using heap_okD(3) [OF assms(1), of s] by auto
  have "addr_uses (seg_addr s) M = 0" using heap_okD(4) [OF assms(1), of "seg_addr s"] by simp
  then have "seg_addr s \<noteq> seg_addr t" using assms(6) by (auto simp: addr_uses_eq_0)
  then have "seg_before s t \<or> seg_before t s" "seg_size t = 0 \<longrightarrow> seg_so t = 0"
    using assms(3,6) eq by (auto simp: segs_apart_def)
  moreover have "seg_fits sdu s" "seg_fits sdu t" using assms(2,6) sdu eq by (auto simp: segs_fit_def)
  ultimately show False using assms(4,5) by (auto simp: seg_fits_def seg_before_def)
qed

text \<open>The configuration, the sequence numbers and the costs through updates of other fields.\<close>

lemma am_cfg_frame [simp]:
  "am_cfg (bstatus_update f1 e) = am_cfg e"
  "am_cfg (stats_update f2 e) = am_cfg e"
  "am_cfg (ev_update f3 e) = am_cfg e"
  "am_cfg (am_tx_list_update f4 e) = am_cfg e"
  "am_cfg (am_tx_end_update f5 e) = am_cfg e"
  "am_cfg (am_wait_list_update f6 e) = am_cfg e"
  "am_cfg (am_wait_end_update f7 e) = am_cfg e"
  "am_cfg (am_retransmit_list_update f8 e) = am_cfg e"
  "am_cfg (am_tx_size_update f9 e) = am_cfg e"
  "am_cfg (am_tx_next_update f10 e) = am_cfg e"
  "am_cfg (am_tx_next_ack_update f11 e) = am_cfg e"
  "am_cfg (am_force_poll_update f12 e) = am_cfg e"
  "am_cfg (am_t_poll_retransmit_start_update f13 e) = am_cfg e"
  "am_cfg (sdus_update f14 e) = am_cfg e"
  by (simp_all add: am_cfg_def)

lemma sn_valid_frame [simp]:
  "sn_valid (bstatus_update f1 e) = sn_valid e"
  "sn_valid (stats_update f2 e) = sn_valid e"
  "sn_valid (ev_update f3 e) = sn_valid e"
  "sn_valid (am_tx_list_update f4 e) = sn_valid e"
  "sn_valid (am_tx_end_update f5 e) = sn_valid e"
  "sn_valid (am_wait_list_update f6 e) = sn_valid e"
  "sn_valid (am_wait_end_update f7 e) = sn_valid e"
  "sn_valid (am_retransmit_list_update f8 e) = sn_valid e"
  "sn_valid (am_tx_size_update f9 e) = sn_valid e"
  "sn_valid (am_tx_next_update f10 e) = sn_valid e"
  "sn_valid (am_tx_next_ack_update f11 e) = sn_valid e"
  "sn_valid (am_force_poll_update f12 e) = sn_valid e"
  "sn_valid (am_t_poll_retransmit_start_update f13 e) = sn_valid e"
  "sn_valid (sdus_update f14 e) = sn_valid e"
  by (simp_all add: sn_valid_def fun_eq_iff)

lemma am_cost_frame [simp]:
  "am_cost (bstatus_update f1 e) = am_cost e"
  "am_cost (stats_update f2 e) = am_cost e"
  "am_cost (ev_update f3 e) = am_cost e"
  "am_cost (am_tx_list_update f4 e) = am_cost e"
  "am_cost (am_tx_end_update f5 e) = am_cost e"
  "am_cost (am_wait_list_update f6 e) = am_cost e"
  "am_cost (am_wait_end_update f7 e) = am_cost e"
  "am_cost (am_retransmit_list_update f8 e) = am_cost e"
  "am_cost (am_tx_size_update f9 e) = am_cost e"
  "am_cost (am_tx_next_update f10 e) = am_cost e"
  "am_cost (am_tx_next_ack_update f11 e) = am_cost e"
  "am_cost (am_force_poll_update f12 e) = am_cost e"
  "am_cost (am_t_poll_retransmit_start_update f13 e) = am_cost e"
  "am_cost (sdus_update f14 e) = am_cost e"
  by (simp_all add: am_cost_def am_compute_pdu_header_size_def fun_eq_iff)

lemma seg_sn_frame [simp]:
  "seg_sn (bstatus_update f1 e) = seg_sn e"
  "seg_sn (stats_update f2 e) = seg_sn e"
  "seg_sn (ev_update f3 e) = seg_sn e"
  "seg_sn (am_tx_list_update f4 e) = seg_sn e"
  "seg_sn (am_tx_end_update f5 e) = seg_sn e"
  "seg_sn (am_wait_list_update f6 e) = seg_sn e"
  "seg_sn (am_wait_end_update f7 e) = seg_sn e"
  "seg_sn (am_retransmit_list_update f8 e) = seg_sn e"
  "seg_sn (am_tx_size_update f9 e) = seg_sn e"
  "seg_sn (am_tx_next_update f10 e) = seg_sn e"
  "seg_sn (am_tx_next_ack_update f11 e) = seg_sn e"
  "seg_sn (am_force_poll_update f12 e) = seg_sn e"
  "seg_sn (am_t_poll_retransmit_start_update f13 e) = seg_sn e"
  by (simp_all add: seg_sn_def fun_eq_iff)

section \<open>Taking segments from the lists and putting them back\<close>

lemmas am_tx_defs = am_tx_core_def am_tx_mem_def am_segs_def am_tx_acct_def am_tx_sns_def

lemma am_detach_rtx:
  assumes "am_tx_core L e" "am_retransmit_list e = s # l"
  shows "am_tx_core (add_mset s L)
    (bstatus_update (bs_retx_size_update (\<lambda>n. n - am_cost e s)) (e\<lparr>am_retransmit_list := l\<rparr>))"
  using assms by (simp add: am_tx_defs)

lemma am_attach_rtx:
  assumes "am_tx_core (add_mset s L) e" "seg_sn e s \<noteq> Some (-1)" "mset r = add_mset s (mset (am_retransmit_list e))"
  shows "am_tx_core L (bstatus_update (bs_retx_size_update (\<lambda>n. n + am_cost e s)) (e\<lparr>am_retransmit_list := r\<rparr>))"
proof -
  have "set r = insert s (set (am_retransmit_list e))" using arg_cong [OF assms(3), of set_mset] by simp
  moreover have "(\<Sum>t\<leftarrow>r. f t) = f s + (\<Sum>t\<leftarrow>am_retransmit_list e. f t)" for f :: "seg \<Rightarrow> int"
  proof -
    have "sum_mset (image_mset f (mset r)) = sum_mset (image_mset f (add_mset s (mset (am_retransmit_list e))))"
      using assms(3) by simp
    then show ?thesis by (simp flip: sum_mset_sum_list)
  qed
  ultimately show ?thesis using assms by (auto simp: am_tx_defs)
qed

lemma list_end_tl: "list_end (s # l) e \<Longrightarrow> list_end l (if l = [] then None else e)"
  by (simp add: list_end_def)

lemma am_detach_wait:
  assumes "am_tx_core L e" "am_wait_list e = s # l"
  shows "am_tx_core (add_mset s L) (e\<lparr>am_wait_list := l, am_wait_end := if l = [] then None else am_wait_end e\<rparr>)"
  using assms list_end_tl [of s l "am_wait_end e"] by (simp add: am_tx_defs)

lemma am_attach_wait:
  assumes "am_tx_core (add_mset s L) e" "seg_sn e s \<noteq> Some (-1)" "mset w = add_mset s (mset (am_wait_list e))" "list_end w w'"
  shows "am_tx_core L (e\<lparr>am_wait_list := w, am_wait_end := w'\<rparr>)"
proof -
  have "set w = insert s (set (am_wait_list e))" using arg_cong [OF assms(3), of set_mset] by simp
  then show ?thesis using assms by (auto simp: am_tx_defs)
qed

lemma am_detach_tx:
  assumes "am_tx_core L e" "am_tx_list e = s # l"
  shows "am_tx_core (add_mset s L) (bstatus_update (bs_tx_size_update (\<lambda>n. n - am_cost e s))
    (e\<lparr>am_tx_list := l, am_tx_end := if l = [] then None else am_tx_end e\<rparr>))"
proof -
  have "set (tl l) \<subseteq> set l" by (cases l) auto
  then show ?thesis using assms list_end_tl [of s l "am_tx_end e"] by (auto simp: am_tx_defs)
qed

lemma list_end_Cons: "list_end l e \<Longrightarrow> list_end (s # l) (if e = None then Some s else e)"
  by (auto simp: list_end_def)

lemma am_attach_tx:
  assumes "am_tx_core (add_mset s L) e" "seg_sn e s \<noteq> Some (-1)" "\<not> seg_is_first s" "seg_is_last s"
    and "\<forall>t \<in> set (am_tx_list e). seg_is_first t"
  shows "am_tx_core L (bstatus_update (bs_tx_size_update (\<lambda>n. n + am_cost e s))
    (e\<lparr>am_tx_list := s # am_tx_list e, am_tx_end := if am_tx_end e = None then Some s else am_tx_end e\<rparr>))"
  using assms list_end_Cons [of "am_tx_list e" "am_tx_end e" s] by (auto simp: am_tx_defs)

section \<open>The order of the transmitted segments\<close>

definition am_tx_base :: "am \<Rightarrow> bool" where
  "am_tx_base e \<longleftrightarrow> am_cfg e \<and> sn_valid e (am_tx_next_ack e)"

definition tx_dist :: "am \<Rightarrow> int \<Rightarrow> int" where
  "tx_dist e sn = circ_dist (am_sn_modulus e) (am_tx_next_ack e) sn"

interpretation amtx: sn_order am_tx_base am_sn_modulus am_tx_next_ack am_sn_compare_tx
proof
  fix e assume b: "am_tx_base e"
  show "0 < am_sn_modulus e" using b am_cfg_facts [of e] by (simp add: am_tx_base_def)
  show r: "0 \<le> am_tx_next_ack e \<and> am_tx_next_ack e < am_sn_modulus e" using b by (simp add: am_tx_base_def sn_valid_def)
  show "am_sn_compare_tx e a c = circ_dist (am_sn_modulus e) (am_tx_next_ack e) a - circ_dist (am_sn_modulus e) (am_tx_next_ack e) c"
    if "0 \<le> a" "a < am_sn_modulus e" "0 \<le> c" "c < am_sn_modulus e" for a c
    using that r by (simp add: am_sn_compare_tx_def am_modulus_tx_def Let_def circ_dist_wrap)
qed

lemma sn_compare_tx_dist:
  "am_tx_base e \<Longrightarrow> sn_valid e a \<Longrightarrow> sn_valid e b \<Longrightarrow> am_sn_compare_tx e a b = tx_dist e a - tx_dist e b"
  using amtx.cmp_dist [of e a b] by (simp add: tx_dist_def sn_valid_def)

lemma tx_dist_inj: "am_tx_base e \<Longrightarrow> sn_valid e a \<Longrightarrow> sn_valid e b \<Longrightarrow> tx_dist e a = tx_dist e b \<longleftrightarrow> a = b"
  using amtx.cmp_zero_iff [of e a b] sn_compare_tx_dist [of e a b] by (auto simp: amtx.sn_ok_def sn_valid_def)

lemma tx_dist_range: "am_tx_base e \<Longrightarrow> 0 \<le> tx_dist e a \<and> tx_dist e a < am_sn_modulus e"
  using amtx.modulus_pos [of e] by (simp add: tx_dist_def circ_dist_bounds)

text \<open>The order by sequence number and offset in which the wait and retransmit lists are kept.\<close>

definition seg_less :: "am \<Rightarrow> seg \<Rightarrow> seg \<Rightarrow> bool" where
  "seg_less e s t \<longleftrightarrow> tx_dist e (the (seg_sn e s)) < tx_dist e (the (seg_sn e t)) \<or>
     (the (seg_sn e s) = the (seg_sn e t) \<and> seg_so s < seg_so t)"

lemma seg_less_trans: "seg_less e s t \<Longrightarrow> seg_less e t u \<Longrightarrow> seg_less e s u"
  by (auto simp: seg_less_def)

lemma tx_dist_frame [simp]:
  "tx_dist (bstatus_update f1 e) = tx_dist e"
  "tx_dist (stats_update f2 e) = tx_dist e"
  "tx_dist (ev_update f3 e) = tx_dist e"
  "tx_dist (am_tx_list_update f4 e) = tx_dist e"
  "tx_dist (am_tx_end_update f5 e) = tx_dist e"
  "tx_dist (am_wait_list_update f6 e) = tx_dist e"
  "tx_dist (am_wait_end_update f7 e) = tx_dist e"
  "tx_dist (am_retransmit_list_update f8 e) = tx_dist e"
  "tx_dist (am_tx_size_update f9 e) = tx_dist e"
  "tx_dist (am_tx_next_update f10 e) = tx_dist e"
  "tx_dist (am_force_poll_update f11 e) = tx_dist e"
  "tx_dist (am_t_poll_retransmit_start_update f12 e) = tx_dist e"
  "tx_dist (sdus_update f13 e) = tx_dist e"
  by (simp_all add: tx_dist_def fun_eq_iff)

lemma seg_less_frame [simp]:
  "seg_less (bstatus_update f1 e) = seg_less e"
  "seg_less (stats_update f2 e) = seg_less e"
  "seg_less (ev_update f3 e) = seg_less e"
  "seg_less (am_tx_list_update f4 e) = seg_less e"
  "seg_less (am_tx_end_update f5 e) = seg_less e"
  "seg_less (am_wait_list_update f6 e) = seg_less e"
  "seg_less (am_wait_end_update f7 e) = seg_less e"
  "seg_less (am_retransmit_list_update f8 e) = seg_less e"
  "seg_less (am_tx_size_update f9 e) = seg_less e"
  "seg_less (am_tx_next_update f10 e) = seg_less e"
  "seg_less (am_force_poll_update f11 e) = seg_less e"
  "seg_less (am_t_poll_retransmit_start_update f12 e) = seg_less e"
  by (simp_all add: seg_less_def fun_eq_iff)

definition am_tx_order :: "am \<Rightarrow> bool" where
  "am_tx_order e \<longleftrightarrow> tx_dist e (am_tx_next e) \<le> am_window_size e \<and>
     (\<forall>a sdu. heap_sdus (sdus e) a = Some sdu \<longrightarrow> sdu_sn sdu \<noteq> -1 \<longrightarrow>
        tx_dist e (sdu_sn sdu) < tx_dist e (am_tx_next e)) \<and>
     (\<forall>a b sdu sdu'. heap_sdus (sdus e) a = Some sdu \<longrightarrow> heap_sdus (sdus e) b = Some sdu' \<longrightarrow>
        sdu_sn sdu = sdu_sn sdu' \<longrightarrow> sdu_sn sdu \<noteq> -1 \<longrightarrow> a = b) \<and>
     sorted_wrt (seg_less e) (am_wait_list e) \<and> sorted_wrt (seg_less e) (am_retransmit_list e)"

definition am_tx_ok :: "seg multiset \<Rightarrow> am \<Rightarrow> bool" where
  "am_tx_ok L e \<longleftrightarrow> am_tx_core L e \<and> am_tx_order e"

lemma am_tx_ok_cong:
  assumes "am_txv e' = am_txv e"
  shows "am_tx_ok L e' \<longleftrightarrow> am_tx_ok L e"
proof -
  have "tx_dist e' = tx_dist e" "seg_less e' = seg_less e"
    using assms by (simp_all add: am_txv_def tx_dist_def seg_less_def seg_sn_def fun_eq_iff)
  then have "am_tx_order e' = am_tx_order e" using assms by (simp add: am_txv_def am_tx_order_def)
  then show ?thesis using am_tx_core_cong [OF assms] by (simp add: am_tx_ok_def)
qed

lemma am_tx_core_base: "am_tx_core L e \<Longrightarrow> am_tx_base e"
  by (simp add: am_tx_core_def am_tx_base_def am_tx_sns_def)

text \<open>A segment of the entity has its SDU in the store, and a sequence number that is valid or not yet assigned.\<close>

lemma am_seg_sdu:
  assumes "am_tx_core L e" "s \<in># am_segs e + L"
  obtains sdu where "heap_sdus (sdus e) (seg_sdu s) = Some sdu" "seg_sn e s = Some (sdu_sn sdu)"
    "seg_fits sdu s" "sdu_sn sdu = -1 \<or> sn_valid e (sdu_sn sdu)"
proof -
  from assms obtain sdu where sdu: "heap_sdus (sdus e) (seg_sdu s) = Some sdu"
    using heap_ok_lookup [of "sdus e" "am_segs e + L" s] by (auto simp: am_tx_core_def am_tx_mem_def)
  moreover have "seg_fits sdu s" using assms sdu by (auto simp: am_tx_core_def am_tx_mem_def segs_fit_def)
  moreover have "sdu_sn sdu = -1 \<or> sn_valid e (sdu_sn sdu)" using assms(1) sdu by (auto simp: am_tx_core_def am_tx_sns_def)
  ultimately show ?thesis by (intro that [of sdu]) (simp_all add: seg_sn_def)
qed

lemma am_seg_numbered:
  assumes "am_tx_core L e" "s \<in># am_segs e + L" "seg_sn e s \<noteq> Some (-1)"
  obtains sn where "seg_sn e s = Some sn" "sn_valid e sn"
  by (rule am_seg_sdu [OF assms(1,2)]) (use assms(3) that in auto)

lemma seg_less_linear:
  assumes ok: "am_tx_ok L e" and s: "s \<in># am_segs e + L" "seg_sn e s \<noteq> Some (-1)"
    and t: "t \<in># am_segs e + L" "seg_sn e t \<noteq> Some (-1)" and ne: "seg_addr s \<noteq> seg_addr t"
  shows "seg_less e s t \<or> seg_less e t s"
proof -
  have core: "am_tx_core L e" using ok by (simp add: am_tx_ok_def)
  obtain a where a: "heap_sdus (sdus e) (seg_sdu s) = Some a" "seg_sn e s = Some (sdu_sn a)" "sn_valid e (sdu_sn a)"
    by (rule am_seg_sdu [OF core s(1)]) (use s(2) that in auto)
  obtain b where b: "heap_sdus (sdus e) (seg_sdu t) = Some b" "seg_sn e t = Some (sdu_sn b)" "sn_valid e (sdu_sn b)"
    by (rule am_seg_sdu [OF core t(1)]) (use t(2) that in auto)
  show ?thesis
  proof (cases "sdu_sn a = sdu_sn b")
    case True
    then have "seg_sdu s = seg_sdu t" using ok a b s(2) by (auto simp: am_tx_ok_def am_tx_order_def)
    then have "seg_before s t \<or> seg_before t s"
      using core s(1) t(1) ne by (auto simp: am_tx_core_def am_tx_mem_def segs_apart_def)
    then show ?thesis using True a b by (auto simp: seg_less_def seg_before_def)
  next
    case False
    then show ?thesis using a b tx_dist_inj [OF am_tx_core_base [OF core] a(3) b(3)] by (auto simp: seg_less_def)
  qed
qed

section \<open>Ordered insertion\<close>

lemma tx_list_add_loop_insert:
  assumes "am_tx_base e" "\<forall>t \<in> insert s (set l). \<exists>sn. seg_sn e t = Some sn \<and> sn_valid e sn"
  shows "tx_list_add_loop e l s = Some (list_add_before (seg_less e s) s l)"
  using assms(2)
proof (induction l)
  case Nil
  then show ?case by simp
next
  case (Cons c l)
  from Cons.prems obtain a b where "seg_sn e s = Some a" "sn_valid e a" "seg_sn e c = Some b" "sn_valid e b" by auto
  moreover from this have "tx_before e a (seg_so s) b (seg_so c) \<longleftrightarrow> seg_less e s c"
    using sn_compare_tx_dist [OF assms(1)] by (auto simp: tx_before_def seg_less_def)
  ultimately show ?case using Cons by simp
qed

lemma sorted_insert:
  assumes "am_tx_ok L e" "sorted_wrt (seg_less e) l" "set l \<subseteq> set_mset (am_segs e + L)" "s \<in># am_segs e + L"
    and "\<forall>t \<in> insert s (set l). seg_sn e t \<noteq> Some (-1)" "\<forall>t \<in> set l. seg_addr t \<noteq> seg_addr s"
  shows "sorted_wrt (seg_less e) (list_add_before (seg_less e s) s l)"
proof (rule sorted_list_add_before [OF assms(2)])
  show "seg_less e c s" if "c \<in> set l" "\<not> seg_less e s c" for c
    using seg_less_linear [OF assms(1), of s c] that assms(3-6) by fastforce
qed (use seg_less_trans in auto)

text \<open>An element behind the last one is appended by the insertion as well.\<close>

lemma insert_after_last:
  assumes "sorted_wrt (seg_less e) l" "l \<noteq> []" "seg_less e (last l) s"
  shows "list_add_before (seg_less e s) s l = l @ [s]"
proof (rule list_add_before_append, rule ballI, rule notI)
  fix c assume c: "c \<in> set l" "seg_less e s c"
  have "c = last l \<or> seg_less e c (last l)"
    using assms(1,2) c(1) by (cases l rule: rev_cases) (auto simp: sorted_wrt_append)
  then have "seg_less e s s" using c(2) assms(3) seg_less_trans by blast
  then show False by (simp add: seg_less_def)
qed

lemma am_seg_addr:
  assumes "am_tx_core (add_mset s L) e" "t \<in># am_segs e + L"
  shows "seg_addr t \<noteq> seg_addr s"
proof -
  have "addr_uses (seg_addr s) (am_segs e + L) = 0"
    using assms(1) heap_okD(4) [of "sdus e" "add_mset s (am_segs e + L)" "seg_addr s"]
    by (simp add: am_tx_core_def am_tx_mem_def)
  then show ?thesis using assms(2) by (simp add: addr_uses_eq_0)
qed

lemma am_tx_order_lists:
  assumes "am_tx_order e" "sorted_wrt (seg_less e) w" "sorted_wrt (seg_less e) r"
  shows "am_tx_order (e\<lparr>am_wait_list := w, am_wait_end := x, am_retransmit_list := r\<rparr>)"
  using assms by (simp add: am_tx_order_def)

lemma am_wait_facts:
  assumes "am_tx_ok (add_mset s L) e" "seg_sn e s \<noteq> Some (-1)"
  shows "am_tx_base e" "set (am_wait_list e) \<subseteq> set_mset (am_segs e + L)"
    "\<forall>t \<in> insert s (set (am_wait_list e)). seg_sn e t \<noteq> Some (-1)"
    "\<forall>t \<in> insert s (set (am_wait_list e)). \<exists>sn. seg_sn e t = Some sn \<and> sn_valid e sn"
    "\<forall>t \<in> set (am_wait_list e). seg_addr t \<noteq> seg_addr s" "sorted_wrt (seg_less e) (am_wait_list e)"
    "distinct (map seg_addr (am_wait_list e))" "list_end (am_wait_list e) (am_wait_end e)"
proof -
  let ?l = "am_wait_list e"
  have core: "am_tx_core (add_mset s L) e" and ord: "am_tx_order e" using assms(1) by (simp_all add: am_tx_ok_def)
  show "am_tx_base e" by (rule am_tx_core_base [OF core])
  show sub: "set ?l \<subseteq> set_mset (am_segs e + L)" by (auto simp: am_segs_def)
  show num: "\<forall>t \<in> insert s (set ?l). seg_sn e t \<noteq> Some (-1)" using assms(2) core by (auto simp: am_tx_core_def am_tx_sns_def)
  show "\<forall>t \<in> insert s (set ?l). \<exists>sn. seg_sn e t = Some sn \<and> sn_valid e sn"
    by (rule ballI, rule am_seg_numbered [OF core]) (use num sub in auto)
  show "\<forall>t \<in> set ?l. seg_addr t \<noteq> seg_addr s" using am_seg_addr [OF core] sub by blast
  show "sorted_wrt (seg_less e) ?l" using ord by (simp add: am_tx_order_def)
  show "distinct (map seg_addr ?l)"
    using core heap_ok_distinct_addr [of "sdus e" ?l "mset (am_tx_list e) + mset (am_retransmit_list e) + add_mset s L"]
    by (simp add: am_tx_core_def am_tx_mem_def am_segs_def ac_simps)
  show "list_end ?l (am_wait_end e)" using core by (simp add: am_tx_core_def am_tx_mem_def)
qed

lemma put_in_wait_list_insert:
  assumes ok: "am_tx_ok (add_mset s L) e" and s: "seg_sn e s \<noteq> Some (-1)"
  defines "w \<equiv> list_add_before (seg_less e s) s (am_wait_list e)"
  shows "put_in_wait_list e s = Some (e\<lparr>am_wait_list := w, am_wait_end := Some (last w)\<rparr>)"
proof (cases "am_wait_list e = []")
  case True
  then have "am_wait_end e = None" using am_wait_facts(8) [OF ok s] by simp
  then show ?thesis using True by (simp add: put_in_wait_list_def nr_rlc_sdu_segment_list_append_def w_def)
next
  case False
  let ?l = "am_wait_list e" and ?z = "last (am_wait_list e)"
  note f = am_wait_facts [OF ok s]
  have z: "am_wait_end e = Some ?z" "?z \<in> set ?l" using f(8) False by (simp_all add: list_end_def)
  from f(4) z(2) obtain a b where
    ab: "seg_sn e s = Some a" "sn_valid e a" "seg_sn e ?z = Some b" "sn_valid e b" by auto
  have after: "(am_sn_compare_tx e a b > 0 \<or> (am_sn_compare_tx e a b = 0 \<and> seg_so s > seg_so ?z)) \<longleftrightarrow> seg_less e ?z s"
    using ab sn_compare_tx_dist [OF f(1)] tx_dist_inj [OF f(1)] by (auto simp: seg_less_def)
  show ?thesis
  proof (cases "seg_less e ?z s")
    case True
    then show ?thesis
      using insert_after_last [OF f(6) False True] after ab z(1) segment_list_append [OF f(8,7), of s]
      by (simp add: put_in_wait_list_def w_def)
  next
    case not: False
    have "?z \<in># am_segs e + add_mset s L" using f(2) z(2) by auto
    then have "seg_less e s ?z" using seg_less_linear [OF ok, of s ?z] f(3,5) not z(2) by auto
    then have "last w = ?z" using z(2) unfolding w_def by (intro last_list_add_before) auto
    then show ?thesis
      using not after ab z(1) tx_list_add_loop_insert [OF f(1,4)] False
      by (auto simp: put_in_wait_list_def nr_rlc_tx_sdu_segment_list_add_def w_def)
  qed
qed

lemma put_in_wait_list:
  assumes ok: "am_tx_ok (add_mset s L) e" and s: "seg_sn e s \<noteq> Some (-1)"
  obtains w where "put_in_wait_list e s = Some (e\<lparr>am_wait_list := w, am_wait_end := Some (last w)\<rparr>)"
    "am_tx_ok L (e\<lparr>am_wait_list := w, am_wait_end := Some (last w)\<rparr>)" "mset w = add_mset s (mset (am_wait_list e))"
proof (rule that [OF put_in_wait_list_insert [OF ok s]])
  let ?w = "list_add_before (seg_less e s) s (am_wait_list e)"
  note f = am_wait_facts [OF ok s]
  have core: "am_tx_core (add_mset s L) e" and ord: "am_tx_order e" using ok by (simp_all add: am_tx_ok_def)
  have "sorted_wrt (seg_less e) ?w"
    by (rule sorted_insert [OF ok f(6) _ _ f(3,5)]) (use f(2) in auto)
  then have "am_tx_order (e\<lparr>am_wait_list := ?w, am_wait_end := Some (last ?w)\<rparr>)"
    using ord by (simp add: am_tx_order_def)
  then show "am_tx_ok L (e\<lparr>am_wait_list := ?w, am_wait_end := Some (last ?w)\<rparr>)"
    using am_attach_wait [OF core s, of ?w] by (simp add: am_tx_ok_def list_end_def)
qed simp

section \<open>Changes of the SDU store\<close>

text \<open>A store with the same sequence numbers, and possibly other segments outside the lists.\<close>

lemma am_tx_heap:
  assumes mem: "heap_ok h (am_segs e + L')" "segs_fit h (am_segs e + L')" "segs_apart (am_segs e + L')"
    and bytes: "heap_bytes h = heap_bytes (sdus e)"
    and sn: "\<And>a. map_option sdu_sn (heap_sdus h a) = map_option sdu_sn (heap_sdus (sdus e) a)"
  shows "seg_sn (e\<lparr>sdus := h\<rparr>) = seg_sn e" "am_tx_core L e \<Longrightarrow> am_tx_core L' (e\<lparr>sdus := h\<rparr>)"
    "am_tx_order e \<Longrightarrow> am_tx_order (e\<lparr>sdus := h\<rparr>)" "am_tx_ok L e \<Longrightarrow> am_tx_ok L' (e\<lparr>sdus := h\<rparr>)"
proof -
  let ?e = "e\<lparr>sdus := h\<rparr>"
  show sns: "seg_sn ?e = seg_sn e" using sn by (simp add: seg_sn_def fun_eq_iff)
  have less: "seg_less ?e = seg_less e" by (simp add: seg_less_def sns fun_eq_iff)
  have old: "\<exists>old. heap_sdus (sdus e) a = Some old \<and> sdu_sn old = sdu_sn sdu" if "heap_sdus h a = Some sdu" for a sdu
    using sn [of a] that by (cases "heap_sdus (sdus e) a") auto
  show core: "am_tx_core L' ?e" if "am_tx_core L e"
    using that mem bytes old
    by (simp add: am_tx_core_def am_tx_mem_def am_tx_acct_def am_tx_sns_def am_segs_def sns) metis
  show order: "am_tx_order ?e" if "am_tx_order e"
    using that old by (simp add: am_tx_order_def less) metis
  show "am_tx_ok L' ?e" if "am_tx_ok L e" using core order that by (simp add: am_tx_ok_def)
qed

lemmas am_tx_ok_heap = am_tx_heap(4) [rotated 5]

lemma am_tx_sdu:
  assumes "am_tx_core L e" "heap_sdus (sdus e) a = Some old"
    and "sdu_ref_count new = sdu_ref_count old" "sdu_free_count new = sdu_free_count old" "sdu_sn new = sdu_sn old"
    and "sdu_size new = sdu_size old" "sdu_data new = sdu_data old"
  shows "am_tx_core L (e\<lparr>sdus := heap_put (sdus e) a new\<rparr>)" "seg_sn (e\<lparr>sdus := heap_put (sdus e) a new\<rparr>) = seg_sn e"
    "am_tx_order e \<Longrightarrow> am_tx_order (e\<lparr>sdus := heap_put (sdus e) a new\<rparr>)"
proof -
  have m: "heap_ok (sdus e) (am_segs e + L)" "segs_fit (sdus e) (am_segs e + L)" "segs_apart (am_segs e + L)"
    using assms(1) by (simp_all add: am_tx_core_def am_tx_mem_def)
  have h: "heap_ok (heap_put (sdus e) a new) (am_segs e + L)" by (rule heap_ok_put [OF m(1) assms(2-4)])
  have f: "segs_fit (heap_put (sdus e) a new) (am_segs e + L)"
    by (rule segs_fit_upd [OF m(2) assms(2), of _ "Some new"]) (simp_all add: heap_put_def assms)
  have b: "heap_bytes (heap_put (sdus e) a new) = heap_bytes (sdus e)"
    by (rule heap_bytes_put [OF m(1) assms(2,6)])
  have sn: "map_option sdu_sn (heap_sdus (heap_put (sdus e) a new) x) = map_option sdu_sn (heap_sdus (sdus e) x)" for x
    using assms(2,5) by (simp add: heap_put_def)
  note r = am_tx_heap [OF h f m(3) b sn]
  show "am_tx_core L (e\<lparr>sdus := heap_put (sdus e) a new\<rparr>)" by (rule r(2) [OF assms(1)])
  show "seg_sn (e\<lparr>sdus := heap_put (sdus e) a new\<rparr>) = seg_sn e" by (rule r(1))
  show "am_tx_order (e\<lparr>sdus := heap_put (sdus e) a new\<rparr>)" if "am_tx_order e" by (rule r(3) [OF that])
qed

lemma am_tx_ok_sdu:
  assumes "am_tx_ok L e" "heap_sdus (sdus e) a = Some old"
    and "sdu_ref_count new = sdu_ref_count old" "sdu_free_count new = sdu_free_count old" "sdu_sn new = sdu_sn old"
    and "sdu_size new = sdu_size old" "sdu_data new = sdu_data old"
  shows "am_tx_ok L (e\<lparr>sdus := heap_put (sdus e) a new\<rparr>)"
  using am_tx_sdu [of L, OF _ assms(2-7)] assms(1) by (auto simp: am_tx_ok_def)

text \<open>A segment in hand that does not fit is cut in two.\<close>

lemma am_resegment:
  assumes ok: "am_tx_ok (add_mset s L) e"
    and sz: "am_compute_pdu_header_size e s + 1 \<le> sz" "sz < am_cost e s"
  obtains t u e' h where "am_resegment s e sz = Some (t, u, e')" "e' = e\<lparr>sdus := h\<rparr>"
    "am_tx_ok (add_mset t (add_mset u L)) e'" "am_cost e t = sz" "seg_sdu t = seg_sdu s" "seg_sdu u = seg_sdu s"
    "seg_so t = seg_so s" "seg_so s < seg_so u" "seg_so u < seg_so s + seg_size s" "seg_is_first t = seg_is_first s"
    "\<not> seg_is_first u" "seg_is_last u = seg_is_last s" "seg_sn e' = seg_sn e" 
proof -
  have core: "am_tx_core (add_mset s L) e" using ok by (simp add: am_tx_ok_def)
  have m: "heap_ok (sdus e) (add_mset s (am_segs e + L))" "segs_fit (sdus e) (add_mset s (am_segs e + L))"
    "segs_apart (add_mset s (am_segs e + L))"
    using core by (simp_all add: am_tx_core_def am_tx_mem_def)
  obtain sdu where sdu: "heap_sdus (sdus e) (seg_sdu s) = Some sdu" "seg_fits sdu s"
    by (rule am_seg_sdu [OF core, of s]) (simp, rule that)
  define over where "over = am_cost e s - sz"
  define t where "t = s\<lparr>seg_size := seg_size s - over, seg_is_last := False\<rparr>"
  define u where "u = s\<lparr>seg_addr := heap_next (sdus e), seg_size := over, seg_so := seg_so t + seg_size t, seg_is_first := False\<rparr>"
  define h where "h = (heap_put (sdus e) (seg_sdu s) (sdu\<lparr>sdu_ref_count := sdu_ref_count sdu + 1\<rparr>))\<lparr>heap_next := heap_next (sdus e) + 1\<rparr>"
  have o: "0 < over" "over < seg_size s" using sz by (simp_all add: over_def am_cost_def)
  have so: "0 \<le> seg_so s" using sdu(2) by (simp add: seg_fits_def)
  have run: "am_resegment s e sz = Some (t, u, e\<lparr>sdus := h\<rparr>)"
    using sdu(1) by (simp add: am_resegment_def Let_def t_def u_def h_def over_def am_cost_def heap_put_def)
  have m1: "heap_ok (sdus e) (add_mset t (am_segs e + L))" by (rule heap_ok_replace [OF m(1)]) (simp_all add: t_def)
  have "heap_ok h (add_mset u (add_mset t (am_segs e + L)))" "heap_bytes h = heap_bytes (sdus e)"
    using heap_ok_split [OF m1, of t sdu u h] sdu(1) by (simp_all add: t_def u_def h_def)
  then have h: "heap_ok h (am_segs e + add_mset t (add_mset u L))" "heap_bytes h = heap_bytes (sdus e)"
    by (simp_all add: add_mset_commute)
  have "seg_fits sdu t" "seg_fits sdu u" using sdu(2) o by (auto simp: seg_fits_def t_def u_def)
  then have "segs_fit (sdus e) (am_segs e + add_mset t (add_mset u L))" using m(2) sdu(1) by (simp add: t_def u_def)
  then have fit: "segs_fit h (am_segs e + add_mset t (add_mset u L))"
    by (rule segs_fit_upd [OF _ sdu(1), of _ _ "Some (sdu\<lparr>sdu_ref_count := sdu_ref_count sdu + 1\<rparr>)"])
      (simp_all add: h_def heap_put_def)
  have "segs_apart (add_mset t (am_segs e + L))"
    using m(3) o by (fastforce simp: segs_apart_add t_def seg_before_def)
  then have "segs_apart (add_mset u (add_mset t (am_segs e + L)))"
    using m(3) o so am_seg_addr [OF core] by (fastforce simp: segs_apart_add t_def u_def seg_before_def)
  then have "am_tx_ok (add_mset t (add_mset u L)) (e\<lparr>sdus := h\<rparr>)"
    by (intro am_tx_ok_heap [OF ok h(1) fit _ h(2)]) (use sdu(1) in \<open>simp_all add: add_mset_commute h_def heap_put_def\<close>)
  moreover have "seg_sn (e\<lparr>sdus := h\<rparr>) = seg_sn e" using sdu(1) by (simp add: seg_sn_def h_def heap_put_def fun_eq_iff)
  ultimately show ?thesis
    by (intro that [OF run refl]) (use o in \<open>simp_all add: t_def u_def am_cost_def am_compute_pdu_header_size_def over_def\<close>)
qed

section \<open>The window\<close>

lemma is_window_stalling_dist:
  assumes "am_tx_base e" "sn_valid e (am_tx_next e)"
  shows "is_window_stalling e \<longleftrightarrow> am_window_size e \<le> tx_dist e (am_tx_next e)"
proof -
  have cfg: "am_sn_modulus e = 2 * am_window_size e" "0 < am_window_size e" "0 < am_sn_modulus e"
    using am_cfg_facts [of e] assms(1) by (simp_all add: am_tx_base_def)
  have v: "sn_valid e (am_tx_next_ack e)" using assms(1) by (simp add: am_tx_base_def)
  let ?top = "(am_tx_next_ack e + am_window_size e) mod am_sn_modulus e"
  have c: "cmod (am_tx_next_ack e + am_window_size e) (am_sn_modulus e) = ?top" using cfg v by (simp add: sn_valid_def)
  have "sn_valid e ?top" using cfg by (simp add: sn_valid_def)
  moreover have "tx_dist e ?top = am_window_size e" using cfg by (simp add: tx_dist_def circ_dist_add)
  moreover have "tx_dist e (am_tx_next_ack e) = 0" by (simp add: tx_dist_def)
  ultimately show ?thesis
    using sn_compare_tx_dist [OF assms(1)] v assms(2) tx_dist_range [OF assms(1), of "am_tx_next e"] c
    by (auto simp: is_window_stalling_def)
qed

lemma am_next_sn:
  assumes "am_tx_base e" "sn_valid e (am_tx_next e)" "tx_dist e (am_tx_next e) < am_window_size e"
  defines "n \<equiv> cmod (am_tx_next e + 1) (am_sn_modulus e)"
  shows "sn_valid e n" "tx_dist e n = tx_dist e (am_tx_next e) + 1"
proof -
  have cfg: "am_sn_modulus e = 2 * am_window_size e" "0 < am_window_size e" "0 < am_sn_modulus e"
    using am_cfg_facts [of e] assms(1) by (simp_all add: am_tx_base_def)
  have n: "n = (am_tx_next e + 1) mod am_sn_modulus e" using assms(2) cfg by (simp add: n_def sn_valid_def)
  show "sn_valid e n" using cfg by (simp add: n sn_valid_def)
  show "tx_dist e n = tx_dist e (am_tx_next e) + 1"
    using circ_dist_add_small [of "am_sn_modulus e" 1 "am_tx_next_ack e" "am_tx_next e"] assms(3) cfg by (simp add: n tx_dist_def)
qed

text \<open>A whole SDU in hand gets the next sequence number.\<close>

lemma am_assign_new_sn:
  assumes ok: "am_tx_ok (add_mset s L) e" and win: "tx_dist e (am_tx_next e) < am_window_size e"
    and s: "seg_sn e s = Some (-1)" "seg_is_first s" "seg_is_last s"
  obtains h n where "am_assign_sn e s = Some (e\<lparr>sdus := h, am_tx_next := n\<rparr>)"
    "am_tx_ok (add_mset s L) (e\<lparr>sdus := h, am_tx_next := n\<rparr>)"
    "seg_sn (e\<lparr>sdus := h, am_tx_next := n\<rparr>) s \<noteq> Some (-1)"
    "\<forall>t. seg_sdu t \<noteq> seg_sdu s \<longrightarrow> seg_sn (e\<lparr>sdus := h, am_tx_next := n\<rparr>) t = seg_sn e t"
proof -
  have core: "am_tx_core (add_mset s L) e" and ord: "am_tx_order e" using ok by (simp_all add: am_tx_ok_def)
  have base: "am_tx_base e" by (rule am_tx_core_base [OF core])
  have m: "heap_ok (sdus e) (am_segs e + add_mset s L)" "segs_fit (sdus e) (am_segs e + add_mset s L)"
    "segs_apart (am_segs e + add_mset s L)" using core by (simp_all add: am_tx_core_def am_tx_mem_def)
  obtain sdu where sdu: "heap_sdus (sdus e) (seg_sdu s) = Some sdu" "sdu_sn sdu = -1"
    by (rule am_seg_sdu [OF core, of s]) (use s that in auto)
  let ?a = "seg_sdu s" and ?new = "sdu\<lparr>sdu_sn := am_tx_next e\<rparr>"
  define h where "h = heap_put (sdus e) ?a ?new"
  define n where "n = cmod (am_tx_next e + 1) (am_sn_modulus e)"
  define e' where "e' = e\<lparr>sdus := h, am_tx_next := n\<rparr>"
  have v: "sn_valid e (am_tx_next e)" using core by (simp add: am_tx_core_def am_tx_sns_def)
  note nx = am_next_sn [OF base v win, folded n_def]
  have run: "am_assign_sn e s = Some e'" using sdu by (simp add: am_assign_sn_def e'_def h_def n_def)
  have alone: "seg_sdu t \<noteq> ?a" if "t \<in># am_segs e + L" for t
    by (rule whole_alone [of "sdus e" s "am_segs e + L"]) (use m s that in simp_all)
  have sn: "seg_sn e' t = seg_sn e t" if "seg_sdu t \<noteq> ?a" for t using that by (simp add: e'_def seg_sn_def h_def heap_put_def)
  have lists: "seg_sn e' t = seg_sn e t" if "t \<in> set (am_tx_list e) \<union> set (am_wait_list e) \<union> set (am_retransmit_list e)" for t
    by (rule sn, rule alone) (use that in \<open>auto simp: am_segs_def\<close>)
  have less: "seg_less e' t u \<longleftrightarrow> seg_less e t u" if "seg_sn e' t = seg_sn e t" "seg_sn e' u = seg_sn e u" for t u
    using that by (simp add: seg_less_def e'_def)
  have hput: "heap_ok h (am_segs e + add_mset s L)" "heap_bytes h = heap_bytes (sdus e)"
    unfolding h_def by (rule heap_ok_put [OF m(1) sdu(1)], simp, simp, rule heap_bytes_put [OF m(1) sdu(1)], simp)
  have fit: "segs_fit h (am_segs e + add_mset s L)"
    by (rule segs_fit_upd [OF m(2) sdu(1), of _ "Some ?new"]) (simp_all add: h_def heap_put_def)
  have "am_tx_core (add_mset s L) e'"
    using core hput fit nx(1) v lists
    unfolding e'_def by (auto simp: am_tx_core_def am_tx_mem_def am_tx_acct_def am_tx_sns_def am_segs_def h_def heap_put_def)
  moreover have "am_tx_order e'"
  proof -
    have "sorted_wrt (seg_less e') (am_wait_list e)" "sorted_wrt (seg_less e') (am_retransmit_list e)"
      using ord lists less by (auto simp: am_tx_order_def intro: sorted_wrt_mono_rel [rotated])
    then show ?thesis
      using ord nx(2) win sdu unfolding am_tx_order_def
      by (auto simp: e'_def h_def heap_put_def split: if_splits) force+
  qed
  ultimately show ?thesis
    by (intro that [of n h]) (use run sn v sdu in \<open>auto simp: am_tx_ok_def e'_def seg_sn_def h_def heap_put_def sn_valid_def\<close>)
qed

section \<open>The views of the two sides\<close>

text \<open>The fields of the receiver and the events, which the transmitter leaves alone.\<close>

definition am_rxv where
  "am_rxv (e :: am) = ((am_sn_field_length e, am_sn_modulus e, am_window_size e), (am_rx e, am_rx_next e, am_rx_next_highest e),
     (am_rx_highest_status e, am_rx_next_status_trigger e, am_t_reassembly_start e), (am_rx_size e, am_rx_maxsize e), ev e)"

lemma am_rx_ok_congv:
  assumes "am_rxv e' = am_rxv e"
  shows "am_rx_ok e' \<longleftrightarrow> am_rx_ok e"
proof -
  have v: "rx_dist e' = rx_dist e" "sn_valid e' = sn_valid e" "rx_sn e' = rx_sn e" "slot_done e' = slot_done e"
    using rx_view_cong [of e' e] assms by (simp_all add: slot_done_def am_rxv_def fun_eq_iff)
  show ?thesis
    using assms v by (simp add: am_rxv_def am_rx_ok_def am_rx_base_def am_cfg_def am_slots_ok_def am_rx_window_def
        am_rx_open_def am_timer_ok_def am_rx_acct_def)
qed

lemma am_view_frame [simp]:
  "am_txv (stats_update f1 e) = am_txv e" "am_rxv (stats_update f1 e) = am_rxv e"
  "am_txv (am_force_poll_update f2 e) = am_txv e" "am_rxv (am_force_poll_update f2 e) = am_rxv e"
  "am_rxv (bstatus_update f3 e) = am_rxv e" "am_rxv (am_retransmit_list_update f4 e) = am_rxv e"
  "am_rxv (sdus_update f5 e) = am_rxv e" "am_rxv (am_tx_list_update f4 e) = am_rxv e" "am_rxv (am_tx_end_update f6 e) = am_rxv e"
  "am_rxv (am_wait_list_update f4 e) = am_rxv e" "am_rxv (am_wait_end_update f6 e) = am_rxv e"
  "am_rxv (am_tx_next_update f7 e) = am_rxv e" "am_rxv (am_tx_size_update f7 e) = am_rxv e"
  "am_rxv (am_tx_next_ack_update f7 e) = am_rxv e" "am_rxv (txsdu_avg_time_to_tx_update f8 e) = am_rxv e"
  by (simp_all add: am_txv_def am_rxv_def)

end
