(* ===== verification/RLC_AM_Generate.thy ===== *)
theory RLC_AM_Generate
  imports RLC_AM_Tx_Inv
begin

text \<open>
  The generation of data PDUs by an AM entity: what \<open>serialize_sdu\<close> writes, and that the transmission
  of new SDUs and the retransmission keep the invariant, fill at most the size they are given and put
  what they send into the wait list.
\<close>

section \<open>Serialization\<close>

lemma am_header_size: "am_cfg e \<Longrightarrow> 8 * nat (am_compute_pdu_header_size e s) =
    fields_width (am_header_fields e p sn so (seg_is_first s) l)"
  by (simp add: am_header_width am_compute_pdu_header_size_def)

text \<open>The poll bit is set in the first byte of a PDU that is already written.\<close>

lemma byte_bits_poll: "byte_bits (b OR 0x40) = (byte_bits b)[1 := True]"
proof -
  have "bit (0x40 :: byte) k \<longleftrightarrow> k = 6" if "k < 8" for k
  proof -
    have "(0x40 :: byte) = push_bit 6 1" by simp
    then have "bit (0x40 :: byte) k \<longleftrightarrow> bit (push_bit 6 1 :: byte) k" by (simp only:)
    also have "\<dots> \<longleftrightarrow> k = 6" using that by (simp only: bit_push_bit_iff) (auto simp: bit_1_iff)
    finally show ?thesis .
  qed
  then have "byte_bits (b OR 0x40) ! i = (byte_bits b)[1 := True] ! i" if "i < 8" for i
    using that by (auto simp: byte_bits_def bit_or_iff nth_list_update)
  then show ?thesis by (auto intro!: nth_equalityI)
qed

lemma header_poll:
  assumes "0 < h" "h \<le> length buf" "bits_of (take h buf) = fields_bits (am_header_fields e 0 sn so f l)"
  shows "bits_of (take h (buf[0 := buf ! 0 OR 0x40])) = fields_bits (am_header_fields e 1 sn so f l)"
proof -
  obtain b rest where buf: "take h buf = b # rest" "buf ! 0 = b" "take h (buf[0 := b OR 0x40]) = (b OR 0x40) # rest"
    using assms(1,2) by (cases buf; cases h) auto
  have "bits_of (take h (buf[0 := buf ! 0 OR 0x40])) = (bits_of (take h buf))[1 := True]"
    unfolding buf(2,3) by (simp add: buf(1) byte_bits_poll list_update_append)
  then show ?thesis using assms(3) by (simp add: am_header_fields_def int_bits_def)
qed

text \<open>The buffer holds a data PDU with the bytes of a segment.\<close>

definition am_pdu_image :: "am \<Rightarrow> seg \<Rightarrow> nr_rlc_sdu_t \<Rightarrow> bool \<Rightarrow> byte list \<Rightarrow> bool" where
  "am_pdu_image e s sdu p buffer \<longleftrightarrow>
     bits_of (take (nat (am_compute_pdu_header_size e s)) buffer) =
       fields_bits (am_header_fields e (of_bool p) (sdu_sn sdu) (seg_so s) (seg_is_first s) (seg_is_last s)) \<and>
     take (nat (seg_size s)) (drop (nat (am_compute_pdu_header_size e s)) buffer) =
       take (nat (seg_size s)) (drop (nat (seg_so s)) (sdu_data sdu))"

definition am_polled :: "am \<Rightarrow> am" where
  "am_polled e = e\<lparr>am_pdu_without_poll := 0, am_byte_without_poll := 0,
     am_poll_sn := cmod (am_tx_next e - 1 + am_sn_modulus e) (am_sn_modulus e),
     am_t_poll_retransmit_start := am_t_current e\<rparr>"

lemma am_serialize_fields:
  assumes "am_cfg e" "heap_sdus (sdus e) (seg_sdu s) = Some sdu"
  shows "am_serialize_sdu e s buffer sz p = do {
     enc \<leftarrow> put_fields (nr_rlc_pdu_encoder_init buffer sz)
       (am_header_fields e 0 (sdu_sn sdu) (seg_so s) (seg_is_first s) (seg_is_last s));
     payload \<leftarrow> mem_slice (sdu_data sdu) (seg_so s) (seg_size s);
     buffer \<leftarrow> mem_blit (enc_buffer enc) (enc_byte enc) payload;
     (e, buffer) \<leftarrow> (if p then include_poll e buffer else Some (e, buffer));
     Some (e, buffer, enc_byte enc + seg_size s)
   }"
  using assms by (auto simp: am_serialize_sdu_def am_header_fields_def am_cfg_def cong: Option.bind_cong)

lemma am_serialize:
  assumes cfg: "am_cfg e" and sdu: "heap_sdus (sdus e) (seg_sdu s) = Some sdu" "seg_fits sdu s"
    and sz: "am_cost e s \<le> sz" "sz \<le> int (length buffer)"
  obtains buffer' where "am_serialize_sdu e s buffer sz p = Some (if p then am_polled e else e, buffer', am_cost e s)"
    "length buffer' = length buffer" "am_pdu_image e s sdu p buffer'"
proof -
  define h where "h = nat (am_compute_pdu_header_size e s)"
  define n where "n = nat (seg_size s)"
  let ?fs = "\<lambda>p. am_header_fields e p (sdu_sn sdu) (seg_so s) (seg_is_first s) (seg_is_last s)"
  let ?data = "take n (drop (nat (seg_so s)) (sdu_data sdu))"
  have fit: "0 \<le> seg_so s" "0 \<le> seg_size s" "seg_so s + seg_size s \<le> int (length (sdu_data sdu))"
    using sdu(2) by (auto simp: seg_fits_def)
  have hs: "am_compute_pdu_header_size e s = int h" "0 < h" by (auto simp: h_def am_compute_pdu_header_size_def)
  have ns: "seg_size s = int n" using fit(2) by (simp add: n_def)
  have cost: "am_cost e s = int (h + n)" by (simp add: am_cost_def hs ns)
  have room: "h + n \<le> length buffer" "h \<le> nat sz" "sz \<le> int (length buffer)" using sz by (simp_all add: cost)
  have w: "fields_width (?fs p) = 8 * h" for p using am_header_size [OF cfg, of s p] by (simp add: h_def)
  have small: "\<forall>(n, v) \<in> set (?fs 0). n \<le> 31" using cfg by (auto simp: am_header_fields_def am_cfg_def)
  have "enc_size (nr_rlc_pdu_encoder_init buffer sz) = sz" "enc_buffer (nr_rlc_pdu_encoder_init buffer sz) = buffer"
    by (simp_all add: nr_rlc_pdu_encoder_init_def)
  then obtain enc where enc: "put_fields (nr_rlc_pdu_encoder_init buffer sz) (?fs 0) = Some enc"
    "enc_wrote enc (fields_bits (?fs 0))" "length (enc_buffer enc) = length buffer"
    using put_fields_wrote [OF encoder_init_wrote [OF room(3)] small] w [of 0] room(2) by auto
  note al = enc_wrote_aligned [OF enc(2), unfolded length_fields_bits, OF w]
  define b1 where "b1 = take h (enc_buffer enc) @ ?data @ drop (h + n) (enc_buffer enc)"
  have b1: "length b1 = length buffer" "take h b1 = take h (enc_buffer enc)" "take n (drop h b1) = ?data" "0 < length b1"
    using enc(3) room(1) fit hs(2) ns by (auto simp: b1_def)
  have pay: "mem_slice (sdu_data sdu) (seg_so s) (seg_size s) = Some ?data"
    using fit ns by (simp add: mem_simps)
  have blit: "mem_blit (enc_buffer enc) (int h) ?data = Some b1"
    using enc(3) room(1) fit ns by (simp add: mem_blit_def b1_def)
  define b2 where "b2 = (if p then b1[0 := b1 ! 0 OR 0x40] else b1)"
  have run: "am_serialize_sdu e s buffer sz p = Some (if p then am_polled e else e, b2, am_cost e s)"
    using b1(4) by (simp add: am_serialize_fields [OF cfg sdu(1)] enc(1) pay [unfolded ns] al(1) blit cost ns include_poll_def
        mem_simps am_polled_def b2_def)
  have "take n (drop h b2) = ?data" using b1(3) hs(2) by (simp add: b2_def drop_update_cancel)
  moreover have "bits_of (take h b2) = fields_bits (?fs (of_bool p))"
    using header_poll [OF hs(2), of b1 e "sdu_sn sdu" "seg_so s" "seg_is_first s" "seg_is_last s"] b1(1,2) al(2) room(1)
    by (simp add: b2_def)
  ultimately have "am_pdu_image e s sdu p b2" by (simp add: am_pdu_image_def h_def n_def)
  then show ?thesis using that [OF run] by (simp add: b2_def b1(1))
qed

section \<open>Generation of PDUs\<close>

lemma am_polled_views [simp]: "am_txv (am_polled e) = am_txv e" "am_rxv (am_polled e) = am_rxv e"
  by (simp_all add: am_polled_def am_txv_def am_rxv_def)

lemma am_image_cong: "am_sn_field_length e' = am_sn_field_length e \<Longrightarrow> am_pdu_image e' s sdu p b = am_pdu_image e s sdu p b"
  by (simp add: am_pdu_image_def am_compute_pdu_header_size_def am_header_fields_def)

text \<open>A PDU of \<open>n\<close> bytes with the segment \<open>t\<close> is in the buffer, and the segment is in the wait list.\<close>

definition am_sent :: "am \<Rightarrow> seg \<Rightarrow> bool \<Rightarrow> byte list \<Rightarrow> int \<Rightarrow> bool" where
  "am_sent e t p buffer n \<longleftrightarrow> t \<in> set (am_wait_list e) \<and> n = am_cost e t \<and>
     (\<exists>sdu. heap_sdus (sdus e) (seg_sdu t) = Some sdu \<and> seg_fits sdu t \<and> sn_valid e (sdu_sn sdu) \<and> am_pdu_image e t sdu p buffer)"

lemma am_sent_cong: "am_txv e' = am_txv e \<Longrightarrow> am_sent e' t p b n = am_sent e t p b n"
  using am_image_cong [of e' e] by (simp add: am_sent_def am_txv_def am_cost_def am_compute_pdu_header_size_def sn_valid_def)

lemma am_send:
  assumes ok: "am_tx_ok (add_mset s L) e" and sn: "seg_sn e s \<noteq> Some (-1)"
    and sz: "am_cost e s \<le> sz" "sz \<le> int (length buffer)"
  obtains e1 where "put_in_wait_list e s = Some e1" "am_tx_ok L e1" "am_rxv e1 = am_rxv e"
    "\<And>e2 p. am_txv e2 = am_txv e1 \<Longrightarrow> \<exists>b. am_serialize_sdu e2 s buffer sz p = Some (if p then am_polled e2 else e2, b, am_cost e s) \<and>
       length b = length buffer \<and> am_sent e2 s p b (am_cost e s)"
proof -
  from put_in_wait_list [OF ok sn] obtain w where
    put: "put_in_wait_list e s = Some (e\<lparr>am_wait_list := w, am_wait_end := Some (last w)\<rparr>)"
    and ok1: "am_tx_ok L (e\<lparr>am_wait_list := w, am_wait_end := Some (last w)\<rparr>)" and w: "mset w = add_mset s (mset (am_wait_list e))" by blast
  let ?e1 = "e\<lparr>am_wait_list := w, am_wait_end := Some (last w)\<rparr>"
  have inw: "s \<in> set w" using arg_cong [OF w, of set_mset] by simp
  have core1: "am_tx_core L ?e1" using ok1 by (simp add: am_tx_ok_def)
  obtain sdu where sdu: "heap_sdus (sdus e) (seg_sdu s) = Some sdu" "seg_fits sdu s" "sn_valid e (sdu_sn sdu)"
    by (rule am_seg_sdu [of "add_mset s L" e s]) (use ok sn that in \<open>auto simp: am_tx_ok_def\<close>)
  show ?thesis
  proof (rule that [OF put ok1])
    show "am_rxv ?e1 = am_rxv e" by (simp add: am_rxv_def)
    fix e2 p assume v: "am_txv e2 = am_txv ?e1"
    then have e2: "am_cfg e2 = am_cfg e" "sdus e2 = sdus e" "am_cost e2 s = am_cost e s" "am_wait_list e2 = w" "sn_valid e2 = sn_valid e"
      by (simp_all add: am_txv_def am_cfg_def am_cost_def am_compute_pdu_header_size_def sn_valid_def fun_eq_iff)
    have "am_cfg e2" using ok e2(1) by (simp add: am_tx_ok_def am_tx_core_def)
    from am_serialize [OF this, of s sdu sz buffer p] sdu e2 sz obtain b where
      "am_serialize_sdu e2 s buffer sz p = Some (if p then am_polled e2 else e2, b, am_cost e s)" "length b = length buffer"
      "am_pdu_image e2 s sdu p b" by auto
    then show "\<exists>b. am_serialize_sdu e2 s buffer sz p = Some (if p then am_polled e2 else e2, b, am_cost e s) \<and>
       length b = length buffer \<and> am_sent e2 s p b (am_cost e s)"
      using sdu e2 inw by (auto simp: am_sent_def)
  qed
qed

definition am_generated :: "am \<Rightarrow> byte list \<Rightarrow> int \<Rightarrow> am \<Rightarrow> byte list \<Rightarrow> int \<Rightarrow> bool" where
  "am_generated e buffer sz e' b n \<longleftrightarrow> am_rxv e' = am_rxv e \<and> length b = length buffer \<and>
     (n = 0 \<and> e' = e \<or> 0 < n \<and> n \<le> sz \<and> (\<exists>t p. am_sent e' t p b n))"

lemma am_ok_detach_rtx:
  assumes "am_tx_ok L e" "am_retransmit_list e = s # l"
  shows "am_tx_ok (add_mset s L)
    (bstatus_update (bs_retx_size_update (\<lambda>n. n - am_cost e s)) (e\<lparr>am_retransmit_list := l\<rparr>))"
  using assms am_detach_rtx [of L e s l] by (simp add: am_tx_ok_def am_tx_order_def)

lemma am_cost_pos: "am_tx_core L e \<Longrightarrow> s \<in># am_segs e + L \<Longrightarrow> 0 < am_cost e s"
  by (erule am_seg_sdu, assumption) (simp add: am_cost_def am_compute_pdu_header_size_def seg_fits_def)

text \<open>The rest of a segment that was the first of the retransmit list is again the first.\<close>

lemma am_ok_rest_rtx:
  assumes ok: "am_tx_ok (add_mset u L) e" and u: "seg_sn e u \<noteq> Some (-1)"
    and less: "\<forall>t \<in> set (am_retransmit_list e). seg_less e u t"
  shows "am_tx_ok L (bstatus_update (bs_retx_size_update (\<lambda>n. n + am_cost e u))
    (e\<lparr>am_retransmit_list := u # am_retransmit_list e\<rparr>))"
  using am_attach_rtx [of u L e "u # am_retransmit_list e"] assms by (simp add: am_tx_ok_def am_tx_order_def)

lemma rest_seg_less:
  assumes ok: "am_tx_ok (add_mset s L) e" and less: "seg_less e s t" "t \<in># am_segs e + L" "seg_sn e s \<noteq> Some (-1)"
    and u: "seg_sdu u = seg_sdu s" "seg_so s < seg_so u" "seg_so u < seg_so s + seg_size s"
  shows "seg_less e u t"
proof -
  have core: "am_tx_core (add_mset s L) e" using ok by (simp add: am_tx_ok_def)
  have su: "seg_sn e u = seg_sn e s" using u(1) by (simp add: seg_sn_def)
  show ?thesis
  proof (cases "seg_sn e s = seg_sn e t")
    case True
    obtain a where a: "heap_sdus (sdus e) (seg_sdu s) = Some a" "seg_sn e s = Some (sdu_sn a)" by (rule am_seg_sdu [OF core, of s]) (use that in auto)
    obtain b where b: "heap_sdus (sdus e) (seg_sdu t) = Some b" "seg_sn e t = Some (sdu_sn b)" by (rule am_seg_sdu [OF core, of t]) (use less that in auto)
    have "seg_sdu s = seg_sdu t" using ok a b True less(3) by (auto simp: am_tx_ok_def am_tx_order_def)
    moreover have "seg_so s < seg_so t" using less(1) True by (auto simp: seg_less_def)
    ultimately have "seg_so s + seg_size s \<le> seg_so t"
      using core less(2) am_seg_addr [OF core less(2)] by (auto simp: am_tx_core_def am_tx_mem_def segs_apart_add seg_before_def)
    then show ?thesis using u(3) su True by (simp add: seg_less_def)
  next
    case False
    obtain a where a: "seg_sn e s = Some a" "sn_valid e a" by (rule am_seg_numbered [OF core, of s]) (use less(3) that in auto)
    obtain b where b: "seg_sn e t = Some b" by (rule am_seg_sdu [OF core, of t]) (use less that in auto)
    show ?thesis using less(1) su False a b by (auto simp: seg_less_def)
  qed
qed

lemma take_force_poll_views:
  "am_txv (fst (take_force_poll e p)) = am_txv e \<and> am_rxv (fst (take_force_poll e p)) = am_rxv e"
  by (simp add: take_force_poll_def)

text \<open>The common end of the two kinds of transmission, for a segment in hand that fits.\<close>

lemma am_transmit:
  assumes ok: "am_tx_ok (add_mset t L) e" and t: "seg_sn e t \<noteq> Some (-1)" "am_cost e t \<le> sz" "sz \<le> int (length buffer)"
    and poll: "\<And>e. am_txv (fst (poll e)) = am_txv e \<and> am_rxv (fst (poll e)) = am_rxv e"
  obtains e1 e2 e3 p b where "put_in_wait_list e t = Some e1" "poll e1 = (e2, p)"
    "am_serialize_sdu e2 t buffer sz p = Some (e3, b, am_cost e t)" "am_tx_ok L e3" "am_rxv e3 = am_rxv e"
    "length b = length buffer" "am_sent e3 t p b (am_cost e t)"
proof -
  from am_send [OF ok t] obtain e1 where put: "put_in_wait_list e t = Some e1" "am_tx_ok L e1" "am_rxv e1 = am_rxv e"
    and ser: "\<And>e2 p. am_txv e2 = am_txv e1 \<Longrightarrow> \<exists>b. am_serialize_sdu e2 t buffer sz p =
      Some (if p then am_polled e2 else e2, b, am_cost e t) \<and> length b = length buffer \<and> am_sent e2 t p b (am_cost e t)" by blast
  obtain e2 p where p: "poll e1 = (e2, p)" by (cases "poll e1")
  have v: "am_txv e2 = am_txv e1" "am_rxv e2 = am_rxv e1" using poll [of e1] p by simp_all
  from ser [OF v(1), of p] obtain b where
    b: "am_serialize_sdu e2 t buffer sz p = Some (if p then am_polled e2 else e2, b, am_cost e t)"
    "length b = length buffer" "am_sent e2 t p b (am_cost e t)" by blast
  define e3 where "e3 = (if p then am_polled e2 else e2)"
  have v3: "am_txv e3 = am_txv e2" "am_rxv e3 = am_rxv e2" by (simp_all add: e3_def)
  show ?thesis
    by (rule that [OF put(1) p b(1) [folded e3_def]])
      (use put(2,3) v v3 b am_tx_ok_cong [of e3 e1 L] am_sent_cong [of e3 e2] in simp_all)
qed

text \<open>The segment at the head of the retransmit list, cut when the PDU is too small for it.\<close>

lemma am_cut_retx:
  assumes ok: "am_tx_ok (add_mset s L) e" and s: "seg_sn e s \<noteq> Some (-1)" "\<forall>t \<in> set (am_retransmit_list e). seg_less e s t"
    and sz: "am_compute_pdu_header_size e s + 1 \<le> sz"
  obtains t e1 where "(if am_cost e s > sz
      then do {
        (s, next_sdu, e) \<leftarrow> am_resegment s e sz;
        let e = bstatus_update (bs_retx_size_update (\<lambda>n. n + am_cost e next_sdu))
          (e\<lparr>am_retransmit_list := next_sdu # am_retransmit_list e\<rparr>);
        Some (s, stats_update (txpdu_segmented_update (\<lambda>n. n + 1)) e)
      }
      else Some (s, e)) = Some (t, e1)"
    "am_tx_ok (add_mset t L) e1" "seg_sn e1 t \<noteq> Some (-1)" "am_cost e1 t \<le> sz" "am_rxv e1 = am_rxv e"
proof (cases "am_cost e s > sz")
  case False
  then show ?thesis using ok s by (intro that [of s e]) simp_all
next
  case True
  obtain t u e' h where seg: "am_resegment s e sz = Some (t, u, e')" "e' = e\<lparr>sdus := h\<rparr>"
    and ok': "am_tx_ok (add_mset t (add_mset u L)) e'"
    and tu: "am_cost e t = sz" "seg_sdu t = seg_sdu s" "seg_sdu u = seg_sdu s" "seg_so t = seg_so s" "seg_so s < seg_so u"
      "seg_so u < seg_so s + seg_size s" "seg_is_first t = seg_is_first s" "\<not> seg_is_first u" "seg_is_last u = seg_is_last s"
      "seg_sn e' = seg_sn e"
    by (rule am_resegment [OF ok sz True], rule that)
  have less: "\<forall>t \<in> set (am_retransmit_list e'). seg_less e' u t"
    using rest_seg_less [OF ok _ _ s(1) tu(3,5,6)] s(2) tu(10) by (simp add: seg(2) am_segs_def seg_less_def)
  have sn: "seg_sn e t = seg_sn e s" "seg_sn e u = seg_sn e s" using tu(2,3) by (simp_all add: seg_sn_def)
  let ?e1 = "bstatus_update (bs_retx_size_update (\<lambda>n. n + am_cost e' u)) (e'\<lparr>am_retransmit_list := u # am_retransmit_list e'\<rparr>)"
  have "am_tx_ok (add_mset t L) ?e1"
    by (rule am_ok_rest_rtx) (use ok' less sn s(1) tu(10) in \<open>simp_all add: add_mset_commute\<close>)
  then show ?thesis
    using True seg sn s(1) tu(1,10) am_tx_ok_cong [of "stats_update (txpdu_segmented_update (\<lambda>n. n + 1)) ?e1" ?e1]
    by (intro that [of t "stats_update (txpdu_segmented_update (\<lambda>n. n + 1)) ?e1"]) (simp_all add: Let_def)
qed

lemma generate_retx_pdu:
  assumes ok: "am_tx_ok L e" and ne: "am_retransmit_list e = s # l" and sz: "sz \<le> int (length buffer)"
  shows "\<exists>e' b n. generate_retx_pdu e buffer sz = Some (e', b, n) \<and> am_tx_ok L e' \<and> am_generated e buffer sz e' b n"
proof (cases "am_compute_pdu_header_size e s + 1 > sz")
  case True
  then show ?thesis using ok ne by (simp add: generate_retx_pdu_def Let_def am_generated_def)
next
  case False
  let ?e0 = "bstatus_update (bs_retx_size_update (\<lambda>n. n - am_cost e s)) (e\<lparr>am_retransmit_list := l\<rparr>)"
  have ok0: "am_tx_ok (add_mset s L) ?e0" by (rule am_ok_detach_rtx [OF ok ne])
  have s: "seg_sn ?e0 s \<noteq> Some (-1)" "\<forall>t \<in> set (am_retransmit_list ?e0). seg_less ?e0 s t"
    "am_compute_pdu_header_size ?e0 s + 1 \<le> sz"
    using ok ne False by (auto simp: am_tx_ok_def am_tx_core_def am_tx_sns_def am_tx_order_def am_compute_pdu_header_size_def)
  obtain t e1 where cut: "(if am_cost ?e0 s > sz
      then do {
        (s, next_sdu, e) \<leftarrow> am_resegment s ?e0 sz;
        let e = bstatus_update (bs_retx_size_update (\<lambda>n. n + am_cost e next_sdu))
          (e\<lparr>am_retransmit_list := next_sdu # am_retransmit_list e\<rparr>);
        Some (s, stats_update (txpdu_segmented_update (\<lambda>n. n + 1)) e)
      }
      else Some (s, ?e0)) = Some (t, e1)"
    and t: "am_tx_ok (add_mset t L) e1" "seg_sn e1 t \<noteq> Some (-1)" "am_cost e1 t \<le> sz" "am_rxv e1 = am_rxv ?e0"
    by (rule am_cut_retx [OF ok0 s], rule that)
  obtain e2 e3 e4 p b where fin: "put_in_wait_list e1 t = Some e2"
    "take_force_poll e2 (check_poll_after_pdu_assembly e2) = (e3, p)"
    "am_serialize_sdu e3 t buffer sz p = Some (e4, b, am_cost e1 t)" "am_tx_ok L e4" "am_rxv e4 = am_rxv e1"
    "length b = length buffer" "am_sent e4 t p b (am_cost e1 t)"
    by (rule am_transmit [OF t(1,2,3) sz, where poll = "\<lambda>e. take_force_poll e (check_poll_after_pdu_assembly e)"])
      (rule take_force_poll_views, rule that)
  let ?n = "am_cost e1 t"
  let ?e5 = "stats_update (txpdu_pkts_update (\<lambda>n. n + 1) \<circ> txpdu_bytes_update (\<lambda>n. n + of_int ?n) \<circ>
    txpdu_retx_pkts_update (\<lambda>n. n + 1) \<circ> txpdu_retx_bytes_update (\<lambda>n. n + of_int ?n)) e4"
  have "generate_retx_pdu e buffer sz = Some (?e5, b, ?n)"
    using cut fin(1-3) False ne
    by (cases "sz < am_cost e s") (auto simp: generate_retx_pdu_def Let_def am_cost_def [symmetric] bind_Some_iff)
  moreover have "0 < ?n" using am_cost_pos [of "add_mset t L" e1 t] t(1) by (simp add: am_tx_ok_def)
  ultimately show ?thesis
    using fin(4-7) t(3,4) am_tx_ok_cong [of ?e5 e4] am_sent_cong [of ?e5 e4]
    by (intro exI [of _ ?e5] exI [of _ b] exI [of _ ?n]) (auto simp: am_generated_def)
qed

text \<open>The first transmission of an SDU or of the rest of one.\<close>

lemma am_ok_detach_tx:
  assumes "am_tx_ok L e" "am_tx_list e = s # l"
  shows "am_tx_ok (add_mset s L) (bstatus_update (bs_tx_size_update (\<lambda>n. n - am_cost e s))
    (e\<lparr>am_tx_list := l, am_tx_end := if l = [] then None else am_tx_end e\<rparr>))"
    "seg_is_last s" "seg_is_first s \<longleftrightarrow> seg_sn e s = Some (-1)" "\<forall>t \<in> set l. seg_is_first t"
proof -
  let ?e = "bstatus_update (bs_tx_size_update (\<lambda>n. n - am_cost e s))
    (e\<lparr>am_tx_list := l, am_tx_end := if l = [] then None else am_tx_end e\<rparr>)"
  have "am_tx_core L e" "am_tx_order e" using assms(1) by (simp_all add: am_tx_ok_def)
  moreover from this have "am_tx_order ?e" by (simp add: am_tx_order_def)
  ultimately show "am_tx_ok (add_mset s L) ?e" using am_detach_tx [of L e s l] assms(2) by (simp only: am_tx_ok_def)
  have "am_tx_sns e" using assms(1) by (simp add: am_tx_ok_def am_tx_core_def)
  then show "seg_is_last s" "seg_is_first s \<longleftrightarrow> seg_sn e s = Some (-1)" "\<forall>t \<in> set l. seg_is_first t"
    using assms(2) by (auto simp: am_tx_sns_def)
qed

lemma is_window_stalling_frame [simp]:
  "is_window_stalling (bstatus_update f1 e) = is_window_stalling e"
  "is_window_stalling (am_tx_list_update f2 e) = is_window_stalling e"
  "is_window_stalling (am_tx_end_update f3 e) = is_window_stalling e"
  by (simp_all add: is_window_stalling_def am_sn_compare_tx_def am_modulus_tx_def Let_def)

lemma am_assign_sn:
  assumes ok: "am_tx_ok (add_mset s L) e" and win: "\<not> is_window_stalling e"
    and s: "seg_is_last s" "seg_is_first s \<longleftrightarrow> seg_sn e s = Some (-1)"
  obtains e1 where "am_assign_sn e s = Some e1" "am_tx_ok (add_mset s L) e1" "seg_sn e1 s \<noteq> Some (-1)" "am_rxv e1 = am_rxv e"
    "am_tx_list e1 = am_tx_list e" "am_cost e1 = am_cost e" "am_compute_pdu_header_size e1 = am_compute_pdu_header_size e"
    "avg_time_is_on e1 = avg_time_is_on e"
proof (cases "seg_sn e s = Some (-1)")
  case True
  have core: "am_tx_core (add_mset s L) e" using ok by (simp add: am_tx_ok_def)
  have "sn_valid e (am_tx_next e)" using core by (simp add: am_tx_core_def am_tx_sns_def)
  then have "tx_dist e (am_tx_next e) < am_window_size e"
    using is_window_stalling_dist [OF am_tx_core_base [OF core]] win by simp
  from am_assign_new_sn [OF ok this True] s True obtain h n where
    "am_assign_sn e s = Some (e\<lparr>sdus := h, am_tx_next := n\<rparr>)"
    "am_tx_ok (add_mset s L) (e\<lparr>sdus := h, am_tx_next := n\<rparr>)"
    "seg_sn (e\<lparr>sdus := h, am_tx_next := n\<rparr>) s \<noteq> Some (-1)" by blast
  then show ?thesis by (rule that) (simp_all add: am_compute_pdu_header_size_def fun_eq_iff)
next
  case False
  obtain sdu where "heap_sdus (sdus e) (seg_sdu s) = Some sdu" "sdu_sn sdu \<noteq> -1"
    by (rule am_seg_sdu [of "add_mset s L" e s]) (use ok False that in \<open>auto simp: am_tx_ok_def\<close>)
  then show ?thesis using ok False by (intro that [of e]) (simp_all add: am_assign_sn_def)
qed

lemma am_cut_tx:
  assumes ok: "am_tx_ok (add_mset s L) e" and s: "seg_sn e s \<noteq> Some (-1)" "seg_is_last s" "\<forall>t \<in> set (am_tx_list e). seg_is_first t"
    and sz: "am_compute_pdu_header_size e s + 1 \<le> sz"
  obtains t e1 where "(if am_cost e s > sz
      then do {
        (s, next_sdu, e) \<leftarrow> am_resegment s e sz;
        let e = e\<lparr>am_tx_list := next_sdu # am_tx_list e, am_tx_end := (if am_tx_end e = None then Some next_sdu else am_tx_end e)\<rparr>;
        let e = stats_update (txpdu_segmented_update (\<lambda>n. n + 1)) e;
        Some (s, bstatus_update (bs_tx_size_update (\<lambda>n. n + am_cost e next_sdu)) e)
      }
      else Some (s, e)) = Some (t, e1)"
    "am_tx_ok (add_mset t L) e1" "seg_sn e1 t \<noteq> Some (-1)" "am_cost e1 t \<le> sz" "am_rxv e1 = am_rxv e"
proof (cases "am_cost e s > sz")
  case False
  then show ?thesis using ok s by (intro that [of s e]) simp_all
next
  case True
  obtain t u e' h where seg: "am_resegment s e sz = Some (t, u, e')" "e' = e\<lparr>sdus := h\<rparr>"
    and ok': "am_tx_ok (add_mset t (add_mset u L)) e'"
    and tu: "am_cost e t = sz" "seg_sdu t = seg_sdu s" "seg_sdu u = seg_sdu s" "seg_so t = seg_so s" "seg_so s < seg_so u"
      "seg_so u < seg_so s + seg_size s" "seg_is_first t = seg_is_first s" "\<not> seg_is_first u" "seg_is_last u = seg_is_last s"
      "seg_sn e' = seg_sn e"
    by (rule am_resegment [OF ok sz True], rule that)
  have sn: "seg_sn e t = seg_sn e s" "seg_sn e u = seg_sn e s" using tu(2,3) by (simp_all add: seg_sn_def)
  let ?e1 = "bstatus_update (bs_tx_size_update (\<lambda>n. n + am_cost e' u))
    (e'\<lparr>am_tx_list := u # am_tx_list e', am_tx_end := if am_tx_end e' = None then Some u else am_tx_end e'\<rparr>)"
  have "am_tx_core (add_mset t L) ?e1"
    by (rule am_attach_tx) (use ok' sn s tu(8-10) seg(2) in \<open>simp_all add: am_tx_ok_def add_mset_commute\<close>)
  moreover have "am_tx_order ?e1" using ok' by (simp add: am_tx_ok_def am_tx_order_def)
  ultimately have "am_tx_ok (add_mset t L) ?e1" by (simp add: am_tx_ok_def)
  then show ?thesis
    using True seg sn s(1) tu(1,10) am_tx_ok_cong [of "stats_update (txpdu_segmented_update (\<lambda>n. n + 1)) ?e1" ?e1]
    by (intro that [of t "stats_update (txpdu_segmented_update (\<lambda>n. n + 1)) ?e1"]) (simp_all add: Let_def)
qed

lemma account_waited_time:
  assumes "am_tx_ok L e" "am_sent e s p b n"
  obtains e' where "account_waited_time time_now e s = Some e'" "am_tx_ok L e'" "am_rxv e' = am_rxv e" "am_sent e' s p b n"
proof (cases "avg_time_is_on e")
  case True
  obtain sdu where sdu: "heap_sdus (sdus e) (seg_sdu s) = Some sdu" using assms(2) by (auto simp: am_sent_def)
  have "window_ok (txsdu_avg_time_to_tx e)" using assms(1) by (simp add: am_tx_ok_def am_tx_core_def)
  from time_average_add_window [OF this] obtain t where
    t: "time_average_add (txsdu_avg_time_to_tx e) time_now (time_now - sdu_time_of_arrival sdu) = Some t" "window_ok t" by blast
  let ?e = "e\<lparr>txsdu_avg_time_to_tx := t\<rparr>"
  have v: "tx_dist ?e = tx_dist e" "seg_less ?e = seg_less e" "seg_sn ?e = seg_sn e" "am_cost ?e = am_cost e" "sn_valid ?e = sn_valid e"
    by (simp_all add: tx_dist_def seg_less_def seg_sn_def am_cost_def am_compute_pdu_header_size_def sn_valid_def fun_eq_iff)
  have "am_tx_ok L ?e"
    using assms(1) t(2) by (simp add: am_tx_ok_def am_tx_core_def am_tx_mem_def am_tx_acct_def am_tx_sns_def am_tx_order_def am_segs_def am_cfg_def v)
  moreover have "am_sent ?e s p b n" using assms(2) am_image_cong [of ?e e] by (simp add: am_sent_def v)
  ultimately show ?thesis using True sdu t(1) by (intro that [of ?e]) (simp_all add: account_waited_time_def)
next
  case False
  then show ?thesis using assms by (intro that [of e]) (simp_all add: account_waited_time_def)
qed

lemma poll_new_pdu_views:
  "am_txv (fst (poll_new_pdu e s)) = am_txv e \<and> am_rxv (fst (poll_new_pdu e s)) = am_rxv e"
  using take_force_poll_views by (simp add: poll_new_pdu_def Let_def am_txv_def am_rxv_def)

lemma am_generate_tx_pdu:
  assumes ok: "am_tx_ok L e" and sz: "sz \<le> int (length buffer)"
  shows "\<exists>e' b n. am_generate_tx_pdu time_now e buffer sz = Some (e', b, n) \<and> am_tx_ok L e' \<and> am_generated e buffer sz e' b n"
proof (cases "is_window_stalling e \<or> am_tx_list e = [] \<or> am_compute_pdu_header_size e (hd (am_tx_list e)) + 1 > sz")
  case True
  then show ?thesis using ok by (auto simp: am_generate_tx_pdu_def Let_def am_generated_def split: list.splits)
next
  case False
  then obtain s l where ne: "am_tx_list e = s # l" and run: "\<not> is_window_stalling e" "\<not> am_compute_pdu_header_size e s + 1 > sz"
    by (cases "am_tx_list e") auto
  let ?e0 = "bstatus_update (bs_tx_size_update (\<lambda>n. n - am_cost e s))
    (e\<lparr>am_tx_list := l, am_tx_end := if l = [] then None else am_tx_end e\<rparr>)"
  note d = am_ok_detach_tx [OF ok ne]
  have win: "\<not> is_window_stalling ?e0" using run(1) by simp
  obtain e1 where asg: "am_assign_sn ?e0 s = Some e1" and ok1: "am_tx_ok (add_mset s L) e1" "seg_sn e1 s \<noteq> Some (-1)" "am_rxv e1 = am_rxv ?e0"
    and v1: "am_tx_list e1 = am_tx_list ?e0" "am_cost e1 = am_cost ?e0" "am_compute_pdu_header_size e1 = am_compute_pdu_header_size ?e0"
    by (rule am_assign_sn [OF d(1) win d(2)]) (use d(3) that in \<open>simp_all\<close>)
  have pre: "\<forall>t \<in> set (am_tx_list e1). seg_is_first t" "am_compute_pdu_header_size e1 s + 1 \<le> sz"
    using d(4) v1 run(2) by (simp_all add: am_compute_pdu_header_size_def)
  obtain t e2 where cut: "(if am_cost e1 s > sz
      then do {
        (s, next_sdu, e) \<leftarrow> am_resegment s e1 sz;
        let e = e\<lparr>am_tx_list := next_sdu # am_tx_list e, am_tx_end := (if am_tx_end e = None then Some next_sdu else am_tx_end e)\<rparr>;
        let e = stats_update (txpdu_segmented_update (\<lambda>n. n + 1)) e;
        Some (s, bstatus_update (bs_tx_size_update (\<lambda>n. n + am_cost e next_sdu)) e)
      }
      else Some (s, e1)) = Some (t, e2)"
    and t: "am_tx_ok (add_mset t L) e2" "seg_sn e2 t \<noteq> Some (-1)" "am_cost e2 t \<le> sz" "am_rxv e2 = am_rxv e1"
    by (rule am_cut_tx [OF ok1(1,2) d(2) pre], rule that)
  obtain e3 e4 e5 p b where fin: "put_in_wait_list e2 t = Some e3" "poll_new_pdu e3 t = (e4, p)"
    "am_serialize_sdu e4 t buffer sz p = Some (e5, b, am_cost e2 t)" "am_tx_ok L e5" "am_rxv e5 = am_rxv e2"
    "length b = length buffer" "am_sent e5 t p b (am_cost e2 t)"
    by (rule am_transmit [OF t(1,2,3) sz, where poll = "\<lambda>e. poll_new_pdu e t"]) (rule poll_new_pdu_views, rule that)
  let ?n = "am_cost e2 t"
  let ?e6 = "stats_update (txpdu_pkts_update (\<lambda>n. n + 1) \<circ> txpdu_bytes_update (\<lambda>n. n + of_int ?n)) e5"
  have ok6: "am_tx_ok L ?e6" "am_sent ?e6 t p b ?n" using fin(4,7) am_tx_ok_cong [of ?e6 e5] am_sent_cong [of ?e6 e5] by simp_all
  obtain e7 where acc: "account_waited_time time_now ?e6 t = Some e7" "am_tx_ok L e7" "am_rxv e7 = am_rxv ?e6" "am_sent e7 t p b ?n"
    by (rule account_waited_time [OF ok6], rule that)
  have "am_generate_tx_pdu time_now e buffer sz = Some (e7, b, ?n)"
    using asg cut fin(1-3) acc(1) run ne v1(2)
    by (cases "sz < am_cost e s") (auto simp: am_generate_tx_pdu_def Let_def am_cost_def [symmetric] bind_Some_iff split del: if_split)
  moreover have "0 < ?n" using am_cost_pos [of "add_mset t L" e2 t] t(1) by (simp add: am_tx_ok_def)
  ultimately show ?thesis
    using acc(2-4) fin(5,6) t(3,4) ok1(3)
    by (intro exI [of _ e7] exI [of _ b] exI [of _ ?n]) (auto simp: am_generated_def)
qed

end
