(* ===== verification/RLC_AM_Tx_Ops.thy ===== *)
theory RLC_AM_Tx_Ops
  imports RLC_AM_Tx_Inv
begin

text \<open>
  The other operations of an AM entity keep its invariant: SDUs from the upper layer, discard,
  re-establishment and deletion, and the timers.
\<close>

section \<open>SDUs from the upper layer\<close>

lemma am_append_sdu:
  assumes ok: "am_tx_ok L e" and sz: "0 \<le> sz" "sz \<le> int (length buffer)" "am_tx_size e + sz \<le> am_tx_maxsize e"
  obtains s h where "nr_rlc_new_sdu (sdus e) buffer sz sdu_id = Some (s, h)"
    "nr_rlc_sdu_segment_list_append (am_tx_list e) (am_tx_end e) s = Some (am_tx_list e @ [s], Some s)"
    "am_tx_ok L (bstatus_update (bs_tx_size_update (\<lambda>n. n + am_cost e s))
      (e\<lparr>am_tx_size := am_tx_size e + sz, sdus := h, am_tx_list := am_tx_list e @ [s], am_tx_end := Some s\<rparr>))"
    "heap_sdus h = (heap_sdus (sdus e))(seg_sdu s \<mapsto>
       \<lparr>sdu_sn = -1, sdu_upper_layer_id = sdu_id, sdu_data = take (nat sz) buffer, sdu_size = sz,
        sdu_retx_count = -1, sdu_ref_count = 1, sdu_free_count = 0, sdu_time_of_arrival = 0\<rparr>)"
    "seg_size s = sz" "seg_so s = 0" "seg_is_first s" "seg_is_last s"
proof -
  have core: "am_tx_core L e" and ord: "am_tx_order e" using ok by (simp_all add: am_tx_ok_def)
  have m: "heap_ok (sdus e) (am_segs e + L)" "segs_fit (sdus e) (am_segs e + L)" "segs_apart (am_segs e + L)"
    "list_end (am_tx_list e) (am_tx_end e)" using core by (simp_all add: am_tx_core_def am_tx_mem_def)
  obtain s h where new: "nr_rlc_new_sdu (sdus e) buffer sz sdu_id = Some (s, h)" "heap_ok h (add_mset s (am_segs e + L))"
    "heap_bytes h = heap_bytes (sdus e) + sz" "seg_sdu s = heap_next (sdus e)" "seg_size s = sz" "seg_so s = 0"
    "seg_is_first s" "seg_is_last s"
    and hs: "heap_sdus h = (heap_sdus (sdus e))(heap_next (sdus e) \<mapsto>
       \<lparr>sdu_sn = -1, sdu_upper_layer_id = sdu_id, sdu_data = take (nat sz) buffer, sdu_size = sz,
        sdu_retx_count = -1, sdu_ref_count = 1, sdu_free_count = 0, sdu_time_of_arrival = 0\<rparr>)"
    by (rule new_sdu [OF m(1) sz(1,2), of sdu_id], rule that)
  have "distinct (map seg_addr (am_tx_list e))"
    using m(1) heap_ok_distinct_addr [of "sdus e" "am_tx_list e" "mset (am_wait_list e) + mset (am_retransmit_list e) + L"]
    by (simp add: am_segs_def ac_simps)
  note app = segment_list_append [OF m(4) this, of s]
  have old: "seg_sdu t \<noteq> heap_next (sdus e)" if "t \<in># am_segs e + L" for t
    using heap_okD(3) [OF m(1) that] heap_ok_fresh [OF m(1), of "heap_next (sdus e)"] by auto
  have fit: "segs_fit h (add_mset s (am_segs e + L))"
    using m(2) old new(4-8) sz by (auto simp: segs_fit_def hs seg_fits_def)
  have apart: "segs_apart (add_mset s (am_segs e + L))"
    using m(3) old new(4,6) unfolding segs_apart_add by metis
  let ?e = "bstatus_update (bs_tx_size_update (\<lambda>n. n + am_cost e s))
      (e\<lparr>am_tx_size := am_tx_size e + sz, sdus := h, am_tx_list := am_tx_list e @ [s], am_tx_end := Some s\<rparr>)"
  have sn: "seg_sn ?e t = (if t = s then Some (-1) else seg_sn e t)" if "t \<in># add_mset s (am_segs e + L)" for t
    using that old [of t] new(4) by (auto simp: seg_sn_def hs)
  have lists: "seg_sn ?e t = seg_sn e t" if "t \<in> set (am_tx_list e) \<union> set (am_wait_list e) \<union> set (am_retransmit_list e)" for t
    using that old [of t] by (auto simp: am_segs_def seg_sn_def hs)
  have less: "seg_less ?e t u \<longleftrightarrow> seg_less e t u" if "seg_sn ?e t = seg_sn e t" "seg_sn ?e u = seg_sn e u" for t u
    using that by (simp add: seg_less_def)
  have "am_tx_sns ?e"
    using core lists sn [of s] new(7,8) unfolding am_tx_core_def am_tx_sns_def
    by (cases "am_tx_list e") (auto simp: hs)
  then have "am_tx_core L ?e"
    using core new(2,3) fit apart sz(3) by (simp add: am_tx_core_def am_tx_mem_def am_tx_acct_def am_segs_def)
  moreover have "am_tx_order ?e"
  proof -
    have "sorted_wrt (seg_less ?e) (am_wait_list e)" "sorted_wrt (seg_less ?e) (am_retransmit_list e)"
      using ord lists less by (auto simp: am_tx_order_def intro: sorted_wrt_mono_rel [rotated])
    then show ?thesis using ord by (auto simp: am_tx_order_def hs)
  qed
  ultimately have "am_tx_ok L ?e" by (simp add: am_tx_ok_def)
  then show ?thesis by (rule that [OF new(1) app]) (use new hs in simp_all)
qed

text \<open>What is queued: the SDUs of the segments still to be sent, with their ids.\<close>

definition am_queued :: "am \<Rightarrow> seg \<Rightarrow> (int \<times> byte list) option" where
  "am_queued e s = map_option (\<lambda>sdu. (sdu_upper_layer_id sdu, sdu_data sdu)) (heap_sdus (sdus e) (seg_sdu s))"

lemma am_recv_sdu:
  assumes ok: "am_tx_ok L e" and sz: "0 \<le> sz" "sz \<le> int (length buffer)" "sz \<le> NR_SDU_MAX"
  shows "\<exists>e'. nr_rlc_entity_am_recv_sdu time_now e buffer sz sdu_id = Some e' \<and> am_tx_ok L e' \<and> am_rxv e' = am_rxv e \<and>
    (if am_tx_size e + sz > am_tx_maxsize e then am_txv e' = am_txv e
     else \<exists>s. am_tx_list e' = am_tx_list e @ [s] \<and> am_queued e' s = Some (sdu_id, take (nat sz) buffer) \<and>
       am_wait_list e' = am_wait_list e \<and> am_retransmit_list e' = am_retransmit_list e \<and> am_tx_size e' = am_tx_size e + sz)"
proof -
  define e0 where "e0 = (let e = stats_update (rxsdu_pkts_update (\<lambda>n. n + 1)) e in
    if am_sdu_rejected e \<noteq> 0 \<and> am_t_current e > am_t_log_buffer_full e + 1000
    then e\<lparr>am_sdu_rejected := 0, am_t_log_buffer_full := am_t_current e\<rparr> else e)"
  have v0: "am_txv e0 = am_txv e" "am_rxv e0 = am_rxv e" by (simp_all add: e0_def Let_def am_txv_def am_rxv_def)
  then have f0: "am_tx_size e0 = am_tx_size e" "am_tx_maxsize e0 = am_tx_maxsize e" "am_tx_list e0 = am_tx_list e"
    "am_wait_list e0 = am_wait_list e" "am_retransmit_list e0 = am_retransmit_list e" by (simp_all add: am_txv_def)
  show ?thesis
  proof (cases "am_tx_size e + sz > am_tx_maxsize e")
    case True
    let ?e = "stats_update (txpdu_dd_pkts_update (\<lambda>n. n + 1) \<circ> txpdu_dd_bytes_update (\<lambda>n. n + of_int sz))
      (e0\<lparr>am_sdu_rejected := am_sdu_rejected e0 + 1\<rparr>)"
    have "nr_rlc_entity_am_recv_sdu time_now e buffer sz sdu_id = Some ?e"
      using True sz(3) f0 by (simp add: nr_rlc_entity_am_recv_sdu_def Let_def e0_def split: if_splits)
    moreover have "am_txv ?e = am_txv e" "am_rxv ?e = am_rxv e" using v0 by (simp_all add: am_txv_def am_rxv_def)
    ultimately show ?thesis using True ok am_tx_ok_cong [of ?e e] by auto
  next
    case False
    define e1 where "e1 = stats_update (rxsdu_bytes_update (\<lambda>n. n + of_int sz)) e0"
    have v1: "am_txv e1 = am_txv e" "am_rxv e1 = am_rxv e" using v0 by (simp_all add: e1_def)
    then have f1: "am_tx_size e1 = am_tx_size e" "am_tx_maxsize e1 = am_tx_maxsize e" "am_tx_list e1 = am_tx_list e"
      "am_wait_list e1 = am_wait_list e" "am_retransmit_list e1 = am_retransmit_list e" by (simp_all add: am_txv_def)
    have ok1: "am_tx_ok L e1" using ok am_tx_ok_cong [OF v1(1)] by simp
    have room: "am_tx_size e1 + sz \<le> am_tx_maxsize e1" using False f1 by simp
    obtain s h where new: "nr_rlc_new_sdu (sdus e1) buffer sz sdu_id = Some (s, h)"
      "nr_rlc_sdu_segment_list_append (am_tx_list e1) (am_tx_end e1) s = Some (am_tx_list e1 @ [s], Some s)"
      and ok2: "am_tx_ok L (bstatus_update (bs_tx_size_update (\<lambda>n. n + am_cost e1 s))
        (e1\<lparr>am_tx_size := am_tx_size e1 + sz, sdus := h, am_tx_list := am_tx_list e1 @ [s], am_tx_end := Some s\<rparr>))"
      and hs: "heap_sdus h = (heap_sdus (sdus e1))(seg_sdu s \<mapsto>
       \<lparr>sdu_sn = -1, sdu_upper_layer_id = sdu_id, sdu_data = take (nat sz) buffer, sdu_size = sz,
        sdu_retx_count = -1, sdu_ref_count = 1, sdu_free_count = 0, sdu_time_of_arrival = 0\<rparr>)"
      by (rule am_append_sdu [OF ok1 sz(1,2) room, of sdu_id], rule that)
    define e2 where "e2 = bstatus_update (bs_tx_size_update (\<lambda>n. n + am_cost e1 s))
        (e1\<lparr>am_tx_size := am_tx_size e1 + sz, sdus := h, am_tx_list := am_tx_list e1 @ [s], am_tx_end := Some s\<rparr>)"
    define e3 where "e3 = (if avg_time_is_on e2 then e2\<lparr>sdus := heap_put (sdus e2) (seg_sdu s)
        ((the (heap_sdus h (seg_sdu s)))\<lparr>sdu_time_of_arrival := time_now\<rparr>)\<rparr> else e2)"
    have run: "nr_rlc_entity_am_recv_sdu time_now e buffer sz sdu_id = Some e3"
      using False sz(3) f0 new hs
      by (cases "am_sdu_rejected e \<noteq> 0 \<and> am_t_current e > am_t_log_buffer_full e + 1000")
        (auto simp: nr_rlc_entity_am_recv_sdu_def Let_def e0_def e1_def e2_def e3_def am_cost_def am_compute_pdu_header_size_def)
    have "am_tx_ok L e3" using ok2 am_tx_ok_sdu [of L e2 "seg_sdu s"] hs by (auto simp: e3_def e2_def [symmetric]) (simp add: e2_def)
    moreover have "am_rxv e3 = am_rxv e" using v1(2) by (simp add: e3_def e2_def)
    moreover have "am_queued e3 s = Some (sdu_id, take (nat sz) buffer)"
      by (simp add: am_queued_def e3_def e2_def hs heap_put_def)
    moreover have "am_tx_list e3 = am_tx_list e @ [s]" "am_wait_list e3 = am_wait_list e"
      "am_retransmit_list e3 = am_retransmit_list e" "am_tx_size e3 = am_tx_size e + sz"
      using f1 by (simp_all add: e3_def e2_def)
    ultimately show ?thesis using run False by (intro exI [of _ e3]) simp
  qed
qed

section \<open>Freeing a segment in hand\<close>

lemma am_tx_order_heap:
  assumes "am_tx_order e" "\<And>t. t \<in> set (am_wait_list e) \<union> set (am_retransmit_list e) \<Longrightarrow> seg_sn (e\<lparr>sdus := h\<rparr>) t = seg_sn e t"
    and "\<And>a sdu. heap_sdus h a = Some sdu \<Longrightarrow> \<exists>old. heap_sdus (sdus e) a = Some old \<and> sdu_sn old = sdu_sn sdu"
  shows "am_tx_order (e\<lparr>sdus := h\<rparr>)"
proof -
  have "seg_less (e\<lparr>sdus := h\<rparr>) t u \<longleftrightarrow> seg_less e t u"
    if "seg_sn (e\<lparr>sdus := h\<rparr>) t = seg_sn e t" "seg_sn (e\<lparr>sdus := h\<rparr>) u = seg_sn e u" for t u
    using that by (simp add: seg_less_def)
  then have "sorted_wrt (seg_less (e\<lparr>sdus := h\<rparr>)) (am_wait_list e)" "sorted_wrt (seg_less (e\<lparr>sdus := h\<rparr>)) (am_retransmit_list e)"
    using assms(1,2) by (auto simp: am_tx_order_def intro: sorted_wrt_mono_rel [rotated])
  then show ?thesis using assms(1,3) unfolding am_tx_order_def by simp metis
qed

lemma am_free:
  assumes core: "am_tx_core (add_mset s L) e"
  obtains sdu h freed where "heap_sdus (sdus e) (seg_sdu s) = Some sdu" "nr_rlc_free_sdu_segment (sdus e) s = Some (freed, h)"
    "freed \<longleftrightarrow> (\<forall>t \<in># am_segs e + L. seg_sdu t \<noteq> seg_sdu s)"
    "am_tx_core L (e\<lparr>sdus := h, am_tx_size := am_tx_size e - (if freed then sdu_size sdu else 0)\<rparr>)"
    "am_tx_order e \<Longrightarrow> am_tx_order (e\<lparr>sdus := h\<rparr>)"
    "\<forall>t \<in># am_segs e + L. seg_sn (e\<lparr>sdus := h\<rparr>) t = seg_sn e t"
    "\<forall>a x. heap_sdus h a = Some x \<longrightarrow> (\<exists>old. heap_sdus (sdus e) a = Some old \<and> sdu_sn old = sdu_sn x)"
proof -
  have m: "heap_ok (sdus e) (add_mset s (am_segs e + L))" "segs_fit (sdus e) (am_segs e + L)" "segs_apart (am_segs e + L)"
    using core segs_apart_mono [of "add_mset s (am_segs e + L)" "am_segs e + L"] by (simp_all add: am_tx_core_def am_tx_mem_def)
  obtain sdu where sdu: "heap_sdus (sdus e) (seg_sdu s) = Some sdu" "seg_fits sdu s"
    by (rule am_seg_sdu [OF core, of s]) (use that in auto)
  define freed where "freed = (refs (seg_sdu s) (am_segs e + L) = 0)"
  let ?new = "sdu\<lparr>sdu_free_count := sdu_free_count sdu + 1\<rparr>"
  obtain h where h: "nr_rlc_free_sdu_segment (sdus e) s = Some (freed, h)" "heap_ok h (am_segs e + L)"
    "heap_bytes h = heap_bytes (sdus e) - (if freed then sdu_size sdu else 0)"
    and hs: "heap_sdus h = (heap_sdus (sdus e))(seg_sdu s := if freed then None else Some ?new)"
    by (rule free_segment [OF m(1) sdu(1), folded freed_def], rule that)
  have fr: "freed \<longleftrightarrow> (\<forall>t \<in># am_segs e + L. seg_sdu t \<noteq> seg_sdu s)" by (simp add: freed_def refs_eq_0)
  have fit: "segs_fit h (am_segs e + L)"
    by (rule segs_fit_upd [OF m(2) sdu(1) hs]) auto
  have sn: "seg_sn (e\<lparr>sdus := h\<rparr>) t = seg_sn e t" if "t \<in># am_segs e + L" for t
    using that fr sdu(1) by (auto simp: seg_sn_def hs)
  have old: "\<exists>old. heap_sdus (sdus e) a = Some old \<and> sdu_sn old = sdu_sn x" if "heap_sdus h a = Some x" for a x
    using that sdu(1) by (auto simp: hs split: if_splits)
  have lists: "seg_sn (e\<lparr>sdus := h\<rparr>) t = seg_sn e t" if "t \<in> set (am_tx_list e) \<union> set (am_wait_list e) \<union> set (am_retransmit_list e)" for t
    using that sn [of t] by (auto simp: am_segs_def)
  have s0: "0 \<le> sdu_size sdu" using sdu(2) by (simp add: seg_fits_def)
  have "am_tx_sns (e\<lparr>sdus := h\<rparr>)"
    using core lists old unfolding am_tx_core_def am_tx_sns_def by simp metis
  then have "am_tx_core L (e\<lparr>sdus := h, am_tx_size := am_tx_size e - (if freed then sdu_size sdu else 0)\<rparr>)"
    using core h(2,3) fit m(3) s0 by (simp add: am_tx_core_def am_tx_mem_def am_tx_acct_def am_tx_sns_def am_segs_def)
  then show ?thesis
    using that [OF sdu(1) h(1) fr] am_tx_order_heap [of e h] lists old sn by blast
qed

section \<open>Discard, re-establishment, deletion\<close>

lemma list_end_remove:
  assumes "list_end (passed @ s # l) e" "distinct (map seg_addr (passed @ s # l))"
  shows "list_end (passed @ l) (if map_option seg_addr e = Some (seg_addr s)
    then (if passed = [] then None else Some (last passed)) else e)"
proof (cases "l = []")
  case True
  then show ?thesis using assms by (auto simp: list_end_def)
next
  case False
  then have "seg_addr (last l) \<in> seg_addr ` set l" by simp
  then have "seg_addr (last l) \<noteq> seg_addr s" using assms(2) by auto
  then show ?thesis using assms(1) False by (simp add: list_end_def)
qed

lemma am_discard_sdu:
  assumes ok: "am_tx_ok L e"
  shows "\<exists>e'. nr_rlc_entity_am_discard_sdu e sdu_id = Some e' \<and> am_tx_ok L e' \<and> am_rxv e' = am_rxv e \<and>
    (e' = e \<or> (\<exists>passed s l. am_tx_list e = passed @ s # l \<and> am_tx_list e' = passed @ l \<and> seg_is_first s \<and> seg_is_last s \<and>
      map_option fst (am_queued e s) = Some sdu_id \<and> am_wait_list e' = am_wait_list e \<and> am_retransmit_list e' = am_retransmit_list e))"
proof -
  have core: "am_tx_core L e" and ord: "am_tx_order e" using ok by (simp_all add: am_tx_ok_def)
  have m: "heap_ok (sdus e) (am_segs e + L)" "list_end (am_tx_list e) (am_tx_end e)"
    using core by (simp_all add: am_tx_core_def am_tx_mem_def)
  have "\<forall>s \<in> set (am_tx_list e). heap_sdus (sdus e) (seg_sdu s) \<noteq> None"
    using heap_okD(3) [OF m(1)] by (simp add: am_segs_def)
  then obtain passed rest where find: "find_sdu_id (sdus e) sdu_id (am_tx_list e) = Some (passed, rest)"
    and l: "am_tx_list e = passed @ rest"
    and uid: "rest \<noteq> [] \<Longrightarrow> map_option sdu_upper_layer_id (heap_sdus (sdus e) (seg_sdu (hd rest))) = Some sdu_id"
    by (rule find_sdu_id_split [where sdu_id = sdu_id]) (rule that)
  show ?thesis
  proof (cases "rest = [] \<or> \<not> seg_is_first (hd rest) \<or> \<not> seg_is_last (hd rest)")
    case True
    then show ?thesis using find ok by (cases rest) (auto simp: nr_rlc_entity_am_discard_sdu_def)
  next
    case False
    then obtain s l' where rest: "rest = s # l'" and s: "seg_is_first s" "seg_is_last s" by (cases rest) auto
    let ?last = "if map_option seg_addr (am_tx_end e) = Some (seg_addr s)
      then (if passed = [] then None else Some (last passed)) else am_tx_end e"
    define e1 where "e1 = bstatus_update (bs_tx_size_update (\<lambda>n. n - am_cost e s)) (e\<lparr>am_tx_list := passed @ l', am_tx_end := ?last\<rparr>)"
    have "distinct (map seg_addr (am_tx_list e))"
      using m(1) heap_ok_distinct_addr [of "sdus e" "am_tx_list e" "mset (am_wait_list e) + mset (am_retransmit_list e) + L"]
      by (simp add: am_segs_def ac_simps)
    then have end1: "list_end (passed @ l') ?last" using m(2) unfolding l rest by (intro list_end_remove)
    have tl: "set (tl (passed @ l')) \<subseteq> set (tl (passed @ s # l'))" by (cases passed; cases l') auto
    have core1: "am_tx_core (add_mset s L) e1"
      using core end1 tl unfolding l rest am_tx_core_def am_tx_mem_def am_tx_acct_def am_tx_sns_def e1_def
      by (auto simp: am_segs_def l rest)
    have ord1: "am_tx_order e1" using ord by (simp add: am_tx_order_def e1_def)
    obtain sdu h freed where free: "heap_sdus (sdus e1) (seg_sdu s) = Some sdu" "nr_rlc_free_sdu_segment (sdus e1) s = Some (freed, h)"
      "freed \<longleftrightarrow> (\<forall>t \<in># am_segs e1 + L. seg_sdu t \<noteq> seg_sdu s)"
      and ok2: "am_tx_core L (e1\<lparr>sdus := h, am_tx_size := am_tx_size e1 - (if freed then sdu_size sdu else 0)\<rparr>)"
        "am_tx_order e1 \<Longrightarrow> am_tx_order (e1\<lparr>sdus := h\<rparr>)"
      by (rule am_free [OF core1], rule that)
    have "seg_sdu t \<noteq> seg_sdu s" if "t \<in># am_segs e1 + L" for t
      using core1 whole_alone [OF _ _ _ s that, of "sdus e1"] by (simp add: am_tx_core_def am_tx_mem_def)
    then have fr: freed using free(3) by blast
    let ?e2 = "e1\<lparr>sdus := h, am_tx_size := am_tx_size e1 - sdu_size sdu\<rparr>"
    have "am_tx_ok L ?e2" using ok2 ord1 fr by (simp add: am_tx_ok_def am_tx_order_def)
    moreover have "nr_rlc_entity_am_discard_sdu e sdu_id = Some ?e2"
      using find rest s free(1,2) by (simp add: nr_rlc_entity_am_discard_sdu_def e1_def am_cost_def am_compute_pdu_header_size_def Let_def split del: if_split)
    moreover have "map_option fst (am_queued e s) = Some sdu_id" using uid rest by (simp add: am_queued_def option.map_comp o_def)
    ultimately show ?thesis
      using l rest s by (intro exI [of _ ?e2]) (simp add: e1_def, blast)
  qed
qed

lemma heap_bytes_nonneg:
  assumes "heap_ok h M" "segs_fit h M"
  shows "0 \<le> heap_bytes h"
  unfolding heap_bytes_def
proof (rule sum_nonneg)
  fix a assume "a \<in> dom (heap_sdus h)"
  then obtain sdu where sdu: "heap_sdus h a = Some sdu" by auto
  then have "0 < refs a M" using heap_okD(5) [OF assms(1)] by blast
  then obtain s where "s \<in># M" "seg_sdu s = a" using refs_eq_0 [of a M] by auto
  then have "seg_fits sdu s" using assms(2) sdu by (auto simp: segs_fit_def)
  then show "0 \<le> sdu_size (the (heap_sdus h a))" using sdu by (simp add: seg_fits_def)
qed

text \<open>Clearing an entity brings it back to an empty one; nothing of its SDUs remains in memory.\<close>

lemma am_clear:
  assumes "am_tx_ok {#} e" "am_rx_base e" "0 \<le> am_rx_maxsize e"
  shows "\<exists>e'. am_clear_entity e = Some e' \<and> am_tx_ok {#} e' \<and> am_rx_ok e' \<and> am_segs e' = {#} \<and>
    heap_sdus (sdus e') = Map.empty \<and> ev e' = ev e"
proof -
  have core: "am_tx_core {#} e" using assms(1) by (simp add: am_tx_ok_def)
  have heap: "heap_ok (sdus e) (mset (am_tx_list e) + (mset (am_wait_list e) + (mset (am_retransmit_list e) + {#})))"
    using core by (simp add: am_tx_core_def am_tx_mem_def am_segs_def ac_simps)
  from free_segment_list [OF heap] obtain h1 where h1: "nr_rlc_free_sdu_segment_list (sdus e) (am_tx_list e) = Some h1"
    "heap_ok h1 (mset (am_wait_list e) + (mset (am_retransmit_list e) + {#}))" by blast
  from free_segment_list [OF h1(2)] obtain h2 where h2: "nr_rlc_free_sdu_segment_list h1 (am_wait_list e) = Some h2"
    "heap_ok h2 (mset (am_retransmit_list e) + {#})" by blast
  from free_segment_list [OF h2(2)] obtain h3 where h3: "nr_rlc_free_sdu_segment_list h2 (am_retransmit_list e) = Some h3" "heap_ok h3 {#}" by blast
  have emp: "heap_sdus h3 = Map.empty" by (rule heap_ok_no_segments [OF h3(2)])
  obtain e' where e': "am_clear_entity e = Some e'" using h1(1) h2(1) h3(1) by (simp add: am_clear_entity_def)
  have f: "am_rx e' = nr_rlc_clear_rx_manager (am_rx e)" "am_rx_next e' = 0" "am_rx_highest_status e' = 0" "am_rx_next_highest e' = 0"
    "am_rx_next_status_trigger e' = 0" "am_t_reassembly_start e' = 0" "am_rx_size e' = 0" "am_rx_maxsize e' = am_rx_maxsize e"
    "am_sn_field_length e' = am_sn_field_length e" "am_sn_modulus e' = am_sn_modulus e" "am_window_size e' = am_window_size e"
    "sdus e' = h3" "am_tx_list e' = []" "am_wait_list e' = []" "am_retransmit_list e' = []" "am_tx_end e' = None" "am_wait_end e' = None"
    "am_tx_size e' = 0" "am_tx_maxsize e' = am_tx_maxsize e" "am_tx_next e' = 0" "am_tx_next_ack e' = 0"
    "bs_tx_size (bstatus e') = 0" "bs_retx_size (bstatus e') = 0" "txsdu_avg_time_to_tx e' = txsdu_avg_time_to_tx e" "ev e' = ev e"
    using e' h1(1) h2(1) h3(1) by (auto simp: am_clear_entity_def Let_def)
  have cfg: "am_cfg e'" using assms(2) f by (simp add: am_rx_base_def am_cfg_def)
  have "am_rx e' = nr_rlc_new_rx_manager (am_window_size e')"
    using clear_rx_manager_new [of "am_rx e"] am_rx_baseD(1,2) [OF assms(2)] by (simp add: f)
  note rx = am_rx_fresh(1) [OF cfg this f(2-7)]
  have "0 \<le> am_tx_maxsize e"
    using core heap_bytes_nonneg [of "sdus e" "am_segs e + {#}"] unfolding am_tx_core_def am_tx_mem_def am_tx_acct_def by linarith
  then have "am_tx_ok {#} e'"
    using cfg am_cfg_facts [OF cfg] core h3(2) emp
    by (simp add: am_tx_ok_def am_tx_core_def am_tx_mem_def am_tx_acct_def am_tx_sns_def am_tx_order_def am_segs_def f sn_valid_def
        tx_dist_def heap_bytes_def segs_apart_def)
  then show ?thesis using e' rx f emp assms(3) by (intro exI [of _ e']) (simp add: am_segs_def)
qed

section \<open>Retransmission when no status arrives\<close>

lemma am_ok_detach_wait:
  assumes "am_tx_ok L e" "am_wait_list e = s # l"
  shows "am_tx_ok (add_mset s L) (e\<lparr>am_wait_list := l, am_wait_end := if l = [] then None else am_wait_end e\<rparr>)"
proof -
  let ?e = "e\<lparr>am_wait_list := l, am_wait_end := if l = [] then None else am_wait_end e\<rparr>"
  have "am_tx_order ?e" using assms by (simp add: am_tx_ok_def am_tx_order_def)
  moreover have "am_tx_core (add_mset s L) ?e" using assms am_detach_wait [of L e s l] by (simp only: am_tx_ok_def)
  ultimately show ?thesis by (simp only: am_tx_ok_def)
qed

text \<open>A segment in hand goes to its place in the retransmit list.\<close>

lemma am_ok_insert_rtx:
  assumes ok: "am_tx_ok (add_mset s L) e" and s: "seg_sn e s \<noteq> Some (-1)"
  defines "r \<equiv> list_add_before (seg_less e s) s (am_retransmit_list e)"
  shows "tx_list_add_loop e (am_retransmit_list e) s = Some r"
    "am_tx_ok L (bstatus_update (bs_retx_size_update (\<lambda>n. n + am_cost e s)) (e\<lparr>am_retransmit_list := r\<rparr>))"
proof -
  let ?l = "am_retransmit_list e"
  have core: "am_tx_core (add_mset s L) e" and ord: "am_tx_order e" using ok by (simp_all add: am_tx_ok_def)
  have sub: "set ?l \<subseteq> set_mset (am_segs e + L)" by (auto simp: am_segs_def)
  have num: "\<forall>t \<in> insert s (set ?l). seg_sn e t \<noteq> Some (-1)" using s core by (auto simp: am_tx_core_def am_tx_sns_def)
  have sns: "\<forall>t \<in> insert s (set ?l). \<exists>sn. seg_sn e t = Some sn \<and> sn_valid e sn"
    by (rule ballI, rule am_seg_numbered [OF core]) (use num sub in auto)
  have addr: "\<forall>t \<in> set ?l. seg_addr t \<noteq> seg_addr s" using am_seg_addr [OF core] sub by blast
  have sorted: "sorted_wrt (seg_less e) ?l" using ord by (simp add: am_tx_order_def)
  show "tx_list_add_loop e ?l s = Some r" unfolding r_def by (rule tx_list_add_loop_insert [OF am_tx_core_base [OF core] sns])
  have "sorted_wrt (seg_less e) r"
    unfolding r_def by (rule sorted_insert [OF ok sorted _ _ num addr]) (use sub in auto)
  then show "am_tx_ok L (bstatus_update (bs_retx_size_update (\<lambda>n. n + am_cost e s)) (e\<lparr>am_retransmit_list := r\<rparr>))"
    using ord am_attach_rtx [OF core s, of r] by (simp add: am_tx_ok_def am_tx_order_def r_def)
qed

lemma tx_before_frame [simp]: "tx_before (bstatus_update f e) = tx_before e"
  by (simp add: tx_before_def am_sn_compare_tx_def am_modulus_tx_def fun_eq_iff Let_def cong: if_cong)

lemma retransmit_loop:
  assumes "am_tx_ok L e" "am_wait_list e = ws"
  shows "\<exists>e'. retransmit_loop ws sn e = Some e' \<and> am_tx_ok L e' \<and> am_rxv e' = am_rxv e \<and> am_max_retx_threshold e' = am_max_retx_threshold e \<and>
    am_wait_list e' = dropWhile (\<lambda>s. seg_sn e s = Some sn) ws \<and>
    mset (am_retransmit_list e') = mset (takeWhile (\<lambda>s. seg_sn e s = Some sn) ws) + mset (am_retransmit_list e) \<and> sdus e' = sdus e"
  using assms
proof (induction ws arbitrary: e)
  case Nil
  then show ?case by simp
next
  case (Cons s l)
  have core: "am_tx_core L e" using Cons.prems(1) by (simp add: am_tx_ok_def)
  have num: "seg_sn e s \<noteq> Some (-1)" using core Cons.prems(2) by (simp add: am_tx_core_def am_tx_sns_def)
  obtain sn' where sn': "seg_sn e s = Some sn'"
    by (rule am_seg_sdu [OF core, of s]) (use Cons.prems(2) that in \<open>auto simp: am_segs_def\<close>)
  show ?case
  proof (cases "sn' = sn")
    case False
    then show ?thesis using sn' Cons.prems by simp
  next
    case True
    define e1 where "e1 = e\<lparr>am_wait_list := l, am_wait_end := if l = [] then None else am_wait_end e\<rparr>"
    have ok1: "am_tx_ok (add_mset s L) e1" unfolding e1_def by (rule am_ok_detach_wait [OF Cons.prems])
    have v1: "seg_sn e1 = seg_sn e" "am_cost e1 = am_cost e" "am_retransmit_list e1 = am_retransmit_list e" by (simp_all add: e1_def)
    define r where "r = list_add_before (seg_less e1 s) s (am_retransmit_list e1)"
    note ins = am_ok_insert_rtx [OF ok1, unfolded v1(1), OF num, folded r_def]
    define e2 where "e2 = bstatus_update (bs_retx_size_update (\<lambda>n. n + am_cost e1 s)) (e1\<lparr>am_retransmit_list := r\<rparr>)"
    have "am_wait_list e2 = l" by (simp add: e2_def e1_def)
    from Cons.IH [OF ins(2) [folded e2_def] this] obtain e' where
      e': "retransmit_loop l sn e2 = Some e'" "am_tx_ok L e'" "am_rxv e' = am_rxv e2" "am_max_retx_threshold e' = am_max_retx_threshold e2"
      "am_wait_list e' = dropWhile (\<lambda>s. seg_sn e2 s = Some sn) l"
      "mset (am_retransmit_list e') = mset (takeWhile (\<lambda>s. seg_sn e2 s = Some sn) l) + mset (am_retransmit_list e2)" "sdus e' = sdus e2" by blast
    let ?e3 = "bstatus_update (bs_retx_size_update (\<lambda>n. n + am_cost e1 s)) e1"
    have "nr_rlc_tx_sdu_segment_list_add ?e3 (am_retransmit_list ?e3) s = Some r"
    proof -
      have "tx_list_add_loop ?e3 l' s = tx_list_add_loop e1 l' s" for l'
        by (induction l') (simp_all cong: if_cong)
      then show ?thesis using ins(1) by (simp add: nr_rlc_tx_sdu_segment_list_add_def)
    qed
    moreover have "e2 = ?e3\<lparr>am_retransmit_list := r\<rparr>" by (simp add: e2_def)
    ultimately have "retransmit_loop (s # l) sn e = Some e'"
      using sn' True e'(1) by (simp add: Let_def e1_def [symmetric] am_cost_def [symmetric] del: if_split)
    then show ?thesis using e' sn' True by (simp add: e2_def e1_def r_def)
  qed
qed

definition t_poll_expired :: "am \<Rightarrow> bool" where
  "t_poll_expired e \<longleftrightarrow> am_t_poll_retransmit_start e \<noteq> 0 \<and>
     am_t_current e > am_t_poll_retransmit_start e + of_int (am_t_poll_retransmit e)"

lemma am_view_t_poll [simp]:
  "am_txv (am_t_poll_retransmit_start_update f e) = am_txv e" "am_rxv (am_t_poll_retransmit_start_update f e) = am_rxv e"
  "am_txv (ev_update g e) = am_txv e"
  by (simp_all add: am_txv_def am_rxv_def)

lemma check_poll_frame [simp]:
  "check_poll_after_pdu_assembly (am_force_poll_update f1 (am_t_poll_retransmit_start_update f2 e)) = check_poll_after_pdu_assembly e"
  by (simp add: check_poll_after_pdu_assembly_def is_window_stalling_def am_sn_compare_tx_def am_modulus_tx_def Let_def cong: if_cong)

lemma check_t_poll_retransmit:
  assumes ok: "am_tx_ok L e" and nz: "t_poll_expired e \<Longrightarrow> check_poll_after_pdu_assembly e \<Longrightarrow> am_wait_list e \<noteq> []"
  shows "\<exists>e' out. check_t_poll_retransmit e = Some e' \<and> am_tx_ok L e' \<and> am_rxv e' = am_rxv (e\<lparr>ev := ev e @ out\<rparr>) \<and> set out \<subseteq> {Max_retx_reached}"
proof (cases "t_poll_expired e")
  case False
  then have "check_t_poll_retransmit e = Some e" by (auto simp: check_t_poll_retransmit_def t_poll_expired_def not_less)
  then show ?thesis using ok by (intro exI [of _ e] exI [of _ "[]"]) simp
next
  case exp: True
  define e1 where "e1 = e\<lparr>am_t_poll_retransmit_start := 0, am_force_poll := True\<rparr>"
  have ok1: "am_tx_ok L e1" using ok am_tx_ok_cong [of e1 e L] by (simp add: e1_def)
  have cp: "check_poll_after_pdu_assembly e1 = check_poll_after_pdu_assembly e" by (simp add: e1_def)
  show ?thesis
  proof (cases "check_poll_after_pdu_assembly e")
    case False
    then have "check_t_poll_retransmit e = Some e1"
      using exp cp by (auto simp: check_t_poll_retransmit_def t_poll_expired_def e1_def [symmetric])
    then show ?thesis using ok1 by (intro exI [of _ e1] exI [of _ "[]"]) (simp add: e1_def am_rxv_def)
  next
    case True
    then obtain s l where wl: "am_wait_list e1 = s # l" using nz exp by (cases "am_wait_list e") (auto simp: e1_def)
    obtain sdu where sdu: "heap_sdus (sdus e1) (seg_sdu s) = Some sdu"
      by (rule am_seg_sdu [of L e1 s]) (use ok1 wl that in \<open>auto simp: am_tx_ok_def am_segs_def\<close>)
    let ?sdu = "sdu\<lparr>sdu_retx_count := sdu_retx_count sdu + 1\<rparr>"
    define e2 where "e2 = e1\<lparr>sdus := heap_put (sdus e1) (seg_sdu s) ?sdu\<rparr>"
    have ok2: "am_tx_ok L e2" unfolding e2_def by (rule am_tx_ok_sdu [OF ok1 sdu]) simp_all
    have "am_wait_list e2 = s # l" using wl by (simp add: e2_def)
    from retransmit_loop [OF ok2 this, of "sdu_sn sdu"] obtain e3 where
      e3: "retransmit_loop (s # l) (sdu_sn sdu) e2 = Some e3" "am_tx_ok L e3" "am_rxv e3 = am_rxv e2" by blast
    define out where "out = (if sdu_retx_count ?sdu \<ge> am_max_retx_threshold e3 then [Max_retx_reached] else [])"
    have "check_t_poll_retransmit e = Some (e3\<lparr>ev := ev e3 @ out\<rparr>)"
      using exp cp True wl sdu e3(1) by (auto simp: check_t_poll_retransmit_def t_poll_expired_def e1_def [symmetric] e2_def out_def Let_def simp del: retransmit_loop.simps)
    moreover have "am_tx_ok L (e3\<lparr>ev := ev e3 @ out\<rparr>)" using e3(2) am_tx_ok_cong [of "e3\<lparr>ev := ev e3 @ out\<rparr>" e3 L] by simp
    moreover have "am_rxv (e3\<lparr>ev := ev e3 @ out\<rparr>) = am_rxv (e\<lparr>ev := ev e @ out\<rparr>)" using e3(3) by (simp add: am_rxv_def e2_def e1_def)
    moreover have "set out \<subseteq> {Max_retx_reached}" by (auto simp: out_def)
    ultimately show ?thesis by (intro exI [of _ "e3\<lparr>ev := ev e3 @ out\<rparr>"] exI [of _ out]) simp
  qed
qed

lemma am_check_t_reassembly:
  assumes ok: "am_rx_ok e"
  shows "\<exists>e'. am_check_t_reassembly e = Some e' \<and> am_rx_ok e' \<and> am_txv e' = am_txv e \<and> ev e' = ev e"
proof (cases "am_t_reassembly_start e = 0 \<or> am_t_current e \<le> am_t_reassembly_start e + of_int (am_t_reassembly e)")
  case True
  then have "am_check_t_reassembly e = Some e" by (auto simp: am_check_t_reassembly_def)
  then show ?thesis using ok by auto
next
  case exp: False
  have base: "am_rx_base e" and win: "am_rx_window e" and opn: "am_rx_open e" using ok by (simp_all add: am_rx_ok_def)
  note b = am_rx_baseD [OF base]
  let ?W = "am_window_size e" and ?t = "rx_dist e (am_rx_next_status_trigger e)" and ?nh = "rx_dist e (am_rx_next_highest e)"
  have t: "0 < ?t" "?t \<le> ?nh" "?nh \<le> ?W" "sn_valid e (am_rx_next_status_trigger e)" "sn_valid e (am_rx_next_highest e)"
    using ok exp by (auto simp: am_rx_ok_def am_timer_ok_def am_rx_window_def)
  have "\<not> slot_done e ?nh"
  proof (cases "?nh = ?W")
    case True
    then show ?thesis using opn by (simp add: am_rx_open_def slot_done_def)
  next
    case False
    then have "?nh < ?W" using t(3) by simp
    moreover from this have "rx_slot e ?nh = []" using win by (simp add: am_rx_window_def)
    ultimately show ?thesis using t(1,2) by (simp add: slot_done_in)
  qed
  then obtain j where j: "?t \<le> j" "j \<le> ?nh" "\<forall>k. ?t \<le> k \<and> k < j \<longrightarrow> slot_done e k" "\<not> slot_done e j"
    using first_open [OF t(2), of "slot_done e"] by (metis order_le_less)
  define hs where "hs = rx_sn e j"
  have hs: "sn_valid e hs" "rx_dist e hs = j" using j t b(5,6) by (auto simp: hs_def base intro: rx_dist_sn)
  define e2 where "e2 = e\<lparr>am_t_reassembly_start := 0, am_rx_highest_status := hs, am_status_triggered := True\<rparr>"
  let ?e1 = "e\<lparr>am_t_reassembly_start := 0\<rparr>"
  have v: "rx_dist e' = rx_dist e" "sn_valid e' = sn_valid e" "rx_sn e' = rx_sn e" "slot_done e' = slot_done e" "am_rx_base e'"
    if "am_rxv (e'\<lparr>am_t_reassembly_start := 0, am_rx_highest_status := 0, am_rx_next_status_trigger := 0\<rparr>) =
      am_rxv (e\<lparr>am_t_reassembly_start := 0, am_rx_highest_status := 0, am_rx_next_status_trigger := 0\<rparr>)" for e'
    using rx_view_cong [of e' e] rx_base_cong(1) [OF base, of e'] that by (simp_all add: am_rxv_def slot_done_def fun_eq_iff)
  note v1 = v [of ?e1] and v2 = v [of e2]
  have scan: "delivered_scan ?e1 (am_rx_next_status_trigger e) = Some hs"
    using delivered_scan_stops [of ?e1 ?t j] v1 t j rx_sn_dist [OF base t(4)] by (simp add: am_rxv_def hs_def)
  let ?after = "cmod (hs + 1) (am_sn_modulus e)"
  have after: "?after = rx_sn e (j + 1)" "sn_valid e ?after" "rx_dist e ?after = j + 1"
    using rx_sn_Suc [OF base, of j] j t b(5,6) rx_dist_sn [OF base, of "j + 1"] by (simp_all add: hs_def base)
  obtain missing where missing: "sdu_has_missing_bytes e2 hs = Some missing"
    using rx_lookup [OF v2(5), of hs] hs v2(2) by (auto simp: sdu_has_missing_bytes_def e2_def am_rxv_def)
  define restart where "restart \<longleftrightarrow> ?nh > j + 1 \<or> am_rx_next_highest e = ?after \<and> missing"
  define e3 where "e3 = (if restart then e2\<lparr>am_t_reassembly_start := am_t_current e, am_rx_next_status_trigger := am_rx_next_highest e\<rparr> else e2)"
  have "am_sn_compare_rx e2 (am_rx_next_highest e) ?after = ?nh - (j + 1)"
    using sn_compare_rx_dist [OF v2(5)] v2(1,2) after t(5) by (simp add: e2_def am_rxv_def)
  then have run: "am_check_t_reassembly e = Some e3"
    using exp scan missing by (auto simp: am_check_t_reassembly_def Let_def e3_def restart_def e2_def)
  have "restart \<Longrightarrow> 0 < ?nh" using after(3) j(1) t(1,2) by simp
  then have "am_rx_ok e3"
    using ok hs j t v [of e3] unfolding e3_def e2_def
    by (auto simp: am_rxv_def am_rx_ok_def am_slots_ok_def am_rx_window_def am_rx_open_def am_timer_ok_def am_rx_acct_def)
  then show ?thesis using run by (intro exI [of _ e3]) (simp add: e3_def e2_def am_txv_def)
qed

end
