(* ===== verification/RLC_AM_Ack.thy ===== *)
theory RLC_AM_Ack
  imports RLC_AM_Tx_Ops
begin

text \<open>
  The processing of a status PDU by an AM entity (\<open>process_control_pdu\<close>) keeps the invariant of the
  transmit side.
\<close>

section \<open>Steps on the entity\<close>

text \<open>What the processing of a status PDU leaves alone; it reports deliveries and too many retransmissions.\<close>

definition am_ctrl_frame :: "am \<Rightarrow> am \<Rightarrow> bool" where
  "am_ctrl_frame e e' \<longleftrightarrow> (\<exists>out. am_rxv e' = am_rxv (e\<lparr>ev := ev e @ out\<rparr>) \<and> (\<forall>d. Deliver_sdu d \<notin> set out)) \<and>
     am_tx_next e' = am_tx_next e \<and> am_tx_next_ack e' = am_tx_next_ack e \<and> am_tx_list e' = am_tx_list e \<and>
     am_wait_end e' = am_wait_end e \<and> am_poll_sn e' = am_poll_sn e"

lemma am_ctrl_frame_refl: "am_ctrl_frame e e"
  unfolding am_ctrl_frame_def by (auto intro!: exI [of _ "[]"] simp: am_rxv_def)

lemma am_ctrl_frame_trans:
  assumes "am_ctrl_frame e e1" "am_ctrl_frame e1 e2"
  shows "am_ctrl_frame e e2"
proof -
  from assms obtain o1 o2 where "am_rxv e1 = am_rxv (e\<lparr>ev := ev e @ o1\<rparr>)" "\<forall>d. Deliver_sdu d \<notin> set o1"
    "am_rxv e2 = am_rxv (e1\<lparr>ev := ev e1 @ o2\<rparr>)" "\<forall>d. Deliver_sdu d \<notin> set o2" by (auto simp: am_ctrl_frame_def)
  then have "am_rxv e2 = am_rxv (e\<lparr>ev := ev e @ (o1 @ o2)\<rparr>)" "\<forall>d. Deliver_sdu d \<notin> set (o1 @ o2)"
    by (simp_all add: am_rxv_def)
  then show ?thesis using assms unfolding am_ctrl_frame_def by metis
qed

lemma am_ctrl_frame_cfg:
  assumes "am_ctrl_frame e e'"
  shows "am_sn_modulus e' = am_sn_modulus e" "am_sn_field_length e' = am_sn_field_length e" "am_window_size e' = am_window_size e"
    "sn_valid e' = sn_valid e" "tx_dist e' = tx_dist e" "am_cost e' = am_cost e"
  using assms by (auto simp: am_ctrl_frame_def am_rxv_def sn_valid_def tx_dist_def am_cost_def am_compute_pdu_header_size_def fun_eq_iff)

text \<open>
  A segment in hand is acknowledged. The entity \<open>e\<close> the code works on and the entity \<open>a\<close> with the lists as
  they stand share the store.
\<close>

lemma ack_segment:
  assumes core: "am_tx_core (add_mset s L) a" and same: "sdus a = sdus e" "am_tx_size a = am_tx_size e"
  obtains e' where "ack_segment e s = Some e'" "am_tx_core L (a\<lparr>sdus := sdus e', am_tx_size := am_tx_size e'\<rparr>)" "am_ctrl_frame e e'"
    "am_txv e' = am_txv (e\<lparr>sdus := sdus e', am_tx_size := am_tx_size e'\<rparr>)"
    "\<forall>t \<in># am_segs a + L. seg_sn e' t = seg_sn e t"
    "am_tx_order a \<Longrightarrow> am_tx_order (a\<lparr>sdus := sdus e', am_tx_size := am_tx_size e'\<rparr>)"
proof -
  obtain sdu h freed where free: "heap_sdus (sdus a) (seg_sdu s) = Some sdu" "nr_rlc_free_sdu_segment (sdus a) s = Some (freed, h)"
    and core': "am_tx_core L (a\<lparr>sdus := h, am_tx_size := am_tx_size a - (if freed then sdu_size sdu else 0)\<rparr>)"
    and ord: "am_tx_order a \<Longrightarrow> am_tx_order (a\<lparr>sdus := h\<rparr>)"
    and sn: "\<forall>t \<in># am_segs a + L. seg_sn (a\<lparr>sdus := h\<rparr>) t = seg_sn a t"
    by (rule am_free [OF core], rule that)
  define e' where "e' = (if freed
       then emit (Sdu_successful_delivery (sdu_upper_layer_id sdu))
              (stats_update (txsdu_bytes_update (\<lambda>n. n + of_int (sdu_size sdu)))
                (e\<lparr>sdus := h, am_tx_size := am_tx_size e - sdu_size sdu\<rparr>))
       else e\<lparr>sdus := h\<rparr>)"
  have run: "ack_segment e s = Some e'" using free same by (simp add: ack_segment_def Let_def e'_def)
  have f: "sdus e' = h" "am_tx_size e' = am_tx_size a - (if freed then sdu_size sdu else 0)" using same by (simp_all add: e'_def)
  have "am_ctrl_frame e e'"
    unfolding am_ctrl_frame_def e'_def am_rxv_def
    by (auto intro!: exI [of _ "if freed then [Sdu_successful_delivery (sdu_upper_layer_id sdu)] else []"])
  moreover have "am_txv e' = am_txv (e\<lparr>sdus := sdus e', am_tx_size := am_tx_size e'\<rparr>)" by (simp add: e'_def am_txv_def)
  ultimately show ?thesis
    by (intro that [OF run]) (use core' ord sn f same in \<open>simp_all add: seg_sn_def am_tx_order_def\<close>)
qed

lemma am_detach_wait_at:
  assumes "am_tx_core L e" "am_wait_list e = p @ s # l" "list_end (p @ l) x"
  shows "am_tx_core (add_mset s L) (e\<lparr>am_wait_list := p @ l, am_wait_end := x\<rparr>)"
  using assms by (simp add: am_tx_defs)

lemma am_detach_rtx_at:
  assumes "am_tx_core L e" "am_retransmit_list e = p @ s # l"
  shows "am_tx_core (add_mset s L)
    (bstatus_update (bs_retx_size_update (\<lambda>n. n - am_cost e s)) (e\<lparr>am_retransmit_list := p @ l\<rparr>))"
  using assms by (simp add: am_tx_defs)

section \<open>Steps on the local state\<close>

text \<open>
  The entity as it would be left when the processing stopped now, without what is linked behind
  \<open>new_retransmit_list\<close> and no longer reached.
\<close>

definition ctrl_am :: "ctrl_t \<Rightarrow> am" where
  "ctrl_am c = bstatus_update (bs_retx_size_update (\<lambda>n. n - (\<Sum>s\<leftarrow>rtx_link c. am_cost (c_e c) s))) (ctrl_finish c)"

definition ctrl_end_ok :: "ctrl_t \<Rightarrow> bool" where
  "ctrl_end_ok c \<longleftrightarrow> (case wl_end c of
       None \<Rightarrow> list_end (wl_kept c @ wl_rest c) (am_wait_end (c_e c))
     | Some x \<Rightarrow> wl_rest c = [] \<and> list_end (wl_kept c) x)"

definition ctrl_ok :: "seg multiset \<Rightarrow> ctrl_t \<Rightarrow> bool" where
  "ctrl_ok L c \<longleftrightarrow> am_tx_core (L + mset (rtx_link c)) (ctrl_am c) \<and> ctrl_end_ok c \<and>
     (rtx_link c \<noteq> [] \<longrightarrow> cur_wait c = [] \<and> rtx_cur c = [])"

lemma ctrl_am_sel [simp]:
  "am_wait_list (ctrl_am c) = wl_kept c @ wl_rest c" "am_retransmit_list (ctrl_am c) = rtx_new c @ rtx_cur c"
  "am_wait_end (ctrl_am c) = (case wl_end c of None \<Rightarrow> am_wait_end (c_e c) | Some x \<Rightarrow> x)" "sdus (ctrl_am c) = sdus (c_e c)"
  "am_tx_list (ctrl_am c) = am_tx_list (c_e c)" "am_cost (ctrl_am c) = am_cost (c_e c)" "seg_sn (ctrl_am c) = seg_sn (c_e c)"
  "sn_valid (ctrl_am c) = sn_valid (c_e c)" "tx_dist (ctrl_am c) = tx_dist (c_e c)" "seg_less (ctrl_am c) = seg_less (c_e c)"
  "am_tx_next (ctrl_am c) = am_tx_next (c_e c)" "am_tx_next_ack (ctrl_am c) = am_tx_next_ack (c_e c)"
  "am_window_size (ctrl_am c) = am_window_size (c_e c)" "am_sn_modulus (ctrl_am c) = am_sn_modulus (c_e c)"
  by (simp_all add: ctrl_am_def ctrl_finish_def)

lemma ctrl_end_list: "ctrl_end_ok c \<Longrightarrow> list_end (wl_kept c @ wl_rest c) (case wl_end c of None \<Rightarrow> am_wait_end (c_e c) | Some x \<Rightarrow> x)"
  by (auto simp: ctrl_end_ok_def split: option.splits)

lemma unlink_wait_sel [simp]:
  "c_e (unlink_wait c s) = c_e c" "wl_kept (unlink_wait c s) = wl_kept c" "wl_rest (unlink_wait c s) = tl (wl_rest c)"
  "wl_null (unlink_wait c s) = wl_null c" "rtx_new (unlink_wait c s) = rtx_new c" "rtx_link (unlink_wait c s) = rtx_link c"
  "rtx_cur (unlink_wait c s) = rtx_cur c"
  by (simp_all add: unlink_wait_def)

lemma ctrl_unlink_end:
  assumes "ctrl_end_ok c" "wl_rest c = s # l" "distinct (map seg_addr (wl_kept c @ wl_rest c))"
  shows "ctrl_end_ok (unlink_wait c s)" "wl_kept (unlink_wait c s) = wl_kept c" "wl_rest (unlink_wait c s) = l"
proof -
  have e: "wl_end c = None" "list_end (wl_kept c @ s # l) (am_wait_end (c_e c))"
    using assms(1,2) by (auto simp: ctrl_end_ok_def split: option.splits)
  show "ctrl_end_ok (unlink_wait c s)"
  proof (cases "l = []")
    case True
    then show ?thesis using e assms(2) by (simp add: ctrl_end_ok_def unlink_wait_def list_end_def prev_wait_def)
  next
    case False
    then have "seg_addr (last l) \<in> seg_addr ` set l" by simp
    then have "seg_addr (last l) \<noteq> seg_addr s" using assms(2,3) by auto
    then show ?thesis using e False assms(2) by (simp add: ctrl_end_ok_def unlink_wait_def list_end_def)
  qed
qed (use assms(2) in simp_all)

lemma ctrl_ok_distinct:
  assumes "ctrl_ok L c"
  shows "distinct (map seg_addr (wl_kept c @ wl_rest c))"
proof -
  have "heap_ok (sdus (c_e c)) (mset (wl_kept c @ wl_rest c) + (mset (am_tx_list (c_e c)) + mset (rtx_new c @ rtx_cur c) + L + mset (rtx_link c)))"
    using assms by (simp add: ctrl_ok_def am_tx_core_def am_tx_mem_def am_segs_def ac_simps)
  then show ?thesis by (rule heap_ok_distinct_addr)
qed

lemma ctrl_ok_cong:
  assumes "am_txv (ctrl_am c') = am_txv e" "am_tx_core (L + mset (rtx_link c')) e" "ctrl_end_ok c'"
    and "rtx_link c' \<noteq> [] \<longrightarrow> cur_wait c' = [] \<and> rtx_cur c' = []"
  shows "ctrl_ok L c'"
  using assms am_tx_core_cong [OF assms(1)] by (simp add: ctrl_ok_def)

text \<open>The head of the wait list is acknowledged.\<close>

lemma cur_wait_Cons: "cur_wait c = s # l \<Longrightarrow> \<not> wl_null c \<and> wl_rest c = s # l"
  by (auto simp: cur_wait_def split: if_splits)

lemma ctrl_ack_wait:
  assumes ok: "ctrl_ok L c" and cur: "cur_wait c = s # l"
  obtains e' where "ack_segment (c_e c) s = Some e'" "ctrl_ok L ((unlink_wait c s)\<lparr>c_e := e'\<rparr>)" "am_ctrl_frame (c_e c) e'"
    "\<forall>t \<in># am_segs ((ctrl_am c)\<lparr>am_wait_list := wl_kept c @ l\<rparr>) + L. seg_sn e' t = seg_sn (c_e c) t"
proof -
  have w: "\<not> wl_null c" "wl_rest c = s # l" using cur_wait_Cons [OF cur] by simp_all
  have link: "rtx_link c = []" and core: "am_tx_core L (ctrl_am c)" and end0: "ctrl_end_ok c"
    using ok cur by (auto simp: ctrl_ok_def)
  note u = ctrl_unlink_end [OF end0 w(2) ctrl_ok_distinct [OF ok]]
  let ?x = "case wl_end (unlink_wait c s) of None \<Rightarrow> am_wait_end (c_e c) | Some x \<Rightarrow> x"
  have x: "list_end (wl_kept c @ l) ?x" using ctrl_end_list [OF u(1)] u(2,3) by (simp cong: option.case_cong)
  let ?a = "(ctrl_am c)\<lparr>am_wait_list := wl_kept c @ l, am_wait_end := ?x\<rparr>"
  have a: "am_tx_core (add_mset s L) ?a" by (rule am_detach_wait_at [OF core _ x]) (simp add: w)
  have same: "sdus ?a = sdus (c_e c)" "am_tx_size ?a = am_tx_size (c_e c)" by (simp_all add: ctrl_am_def ctrl_finish_def)
  obtain e' where e': "ack_segment (c_e c) s = Some e'" "am_tx_core L (?a\<lparr>sdus := sdus e', am_tx_size := am_tx_size e'\<rparr>)"
    "am_ctrl_frame (c_e c) e'" "am_txv e' = am_txv ((c_e c)\<lparr>sdus := sdus e', am_tx_size := am_tx_size e'\<rparr>)"
    "\<forall>t \<in># am_segs ?a + L. seg_sn e' t = seg_sn (c_e c) t"
    by (rule ack_segment [OF a same], rule that)
  have "ctrl_ok L ((unlink_wait c s)\<lparr>c_e := e'\<rparr>)"
  proof (rule ctrl_ok_cong)
    show "am_txv (ctrl_am ((unlink_wait c s)\<lparr>c_e := e'\<rparr>)) = am_txv (?a\<lparr>sdus := sdus e', am_tx_size := am_tx_size e'\<rparr>)"
      using e'(4) u(2,3) by (simp add: am_txv_def ctrl_am_def ctrl_finish_def link cong: option.case_cong)
    show "ctrl_end_ok ((unlink_wait c s)\<lparr>c_e := e'\<rparr>)" using u(1) e'(3) by (simp add: ctrl_end_ok_def am_ctrl_frame_def cong: option.case_cong)
  qed (use e'(2) link in simp_all)
  then show ?thesis using that [OF e'(1) _ e'(3)] e'(5) by (simp add: am_segs_def)
qed

lemma ctrl_ack_rtx:
  assumes ok: "ctrl_ok L c" and cur: "rtx_cur c = s # l"
  defines "e \<equiv> bstatus_update (bs_retx_size_update (\<lambda>n. n - am_cost (c_e c) s)) (c_e c)"
  obtains e' where "ack_segment e s = Some e'" "ctrl_ok L (c\<lparr>c_e := e', rtx_cur := l\<rparr>)" "am_ctrl_frame (c_e c) e'"
    "\<forall>t \<in># am_segs ((ctrl_am c)\<lparr>am_retransmit_list := rtx_new c @ l\<rparr>) + L. seg_sn e' t = seg_sn (c_e c) t"
proof -
  have link: "rtx_link c = []" and core: "am_tx_core L (ctrl_am c)" and end0: "ctrl_end_ok c"
    using ok cur by (auto simp: ctrl_ok_def)
  let ?a = "bstatus_update (bs_retx_size_update (\<lambda>n. n - am_cost (ctrl_am c) s)) ((ctrl_am c)\<lparr>am_retransmit_list := rtx_new c @ l\<rparr>)"
  have a: "am_tx_core (add_mset s L) ?a" by (rule am_detach_rtx_at [OF core]) (simp add: cur)
  have same: "sdus ?a = sdus e" "am_tx_size ?a = am_tx_size e" by (simp_all add: e_def ctrl_am_def ctrl_finish_def)
  obtain e' where e': "ack_segment e s = Some e'" "am_tx_core L (?a\<lparr>sdus := sdus e', am_tx_size := am_tx_size e'\<rparr>)"
    "am_ctrl_frame e e'" "am_txv e' = am_txv (e\<lparr>sdus := sdus e', am_tx_size := am_tx_size e'\<rparr>)"
    "\<forall>t \<in># am_segs ?a + L. seg_sn e' t = seg_sn e t"
    by (rule ack_segment [OF a same], rule that)
  have fr: "am_ctrl_frame (c_e c) e'" using e'(3) by (simp add: am_ctrl_frame_def e_def am_rxv_def)
  have "ctrl_ok L (c\<lparr>c_e := e', rtx_cur := l\<rparr>)"
  proof (rule ctrl_ok_cong)
    show "am_txv (ctrl_am (c\<lparr>c_e := e', rtx_cur := l\<rparr>)) = am_txv (?a\<lparr>sdus := sdus e', am_tx_size := am_tx_size e'\<rparr>)"
      using e'(4) by (simp add: am_txv_def ctrl_am_def ctrl_finish_def link e_def cong: option.case_cong)
    show "ctrl_end_ok (c\<lparr>c_e := e', rtx_cur := l\<rparr>)" using end0 fr by (simp add: ctrl_end_ok_def am_ctrl_frame_def cong: option.case_cong)
  qed (use e'(2) link in simp_all)
  then show ?thesis using that [OF e'(1) _ fr] e'(5) by (simp add: am_segs_def e_def)
qed

text \<open>The head of the wait list is to be sent again.\<close>

lemma ctrl_nack_wait:
  fixes n :: int and b :: bool
  assumes ok: "ctrl_ok L c" and cur: "cur_wait c = s # l" and sdu: "heap_sdus (sdus (c_e c)) (seg_sdu s) = Some sdu"
  defines "e1 \<equiv> (c_e c)\<lparr>sdus := heap_put (sdus (c_e c)) (seg_sdu s) (sdu\<lparr>sdu_retx_count := n\<rparr>)\<rparr>"
  defines "e' \<equiv> bstatus_update (bs_retx_size_update (\<lambda>n. n + am_cost (c_e c) s)) (if b then emit Max_retx_reached e1 else e1)"
  defines "c' \<equiv> (unlink_wait c s)\<lparr>rtx_new := rtx_new c @ [s], rtx_link := [], c_e := e'\<rparr>"
  shows "ctrl_ok L c'" "am_ctrl_frame (c_e c) e'" "seg_sn e' = seg_sn (c_e c)"
proof -
  have w: "\<not> wl_null c" "wl_rest c = s # l" using cur_wait_Cons [OF cur] by simp_all
  have link: "rtx_link c = []" and core: "am_tx_core L (ctrl_am c)" and end0: "ctrl_end_ok c"
    using ok cur by (auto simp: ctrl_ok_def)
  note u = ctrl_unlink_end [OF end0 w(2) ctrl_ok_distinct [OF ok]]
  let ?x = "case wl_end (unlink_wait c s) of None \<Rightarrow> am_wait_end (c_e c) | Some x \<Rightarrow> x"
  have x: "list_end (wl_kept c @ l) ?x" using ctrl_end_list [OF u(1)] u(2,3) by (simp cong: option.case_cong)
  let ?a = "(ctrl_am c)\<lparr>am_wait_list := wl_kept c @ l, am_wait_end := ?x\<rparr>"
  have a: "am_tx_core (add_mset s L) ?a" by (rule am_detach_wait_at [OF core _ x]) (simp add: w)
  have num: "seg_sn ?a s \<noteq> Some (-1)" using core w by (auto simp: am_tx_core_def am_tx_sns_def)
  let ?r = "rtx_new c @ s # rtx_cur c"
  let ?b = "bstatus_update (bs_retx_size_update (\<lambda>n. n + am_cost ?a s)) (?a\<lparr>am_retransmit_list := ?r\<rparr>)"
  have b: "am_tx_core L ?b" by (rule am_attach_rtx [OF a num]) simp
  let ?h = "heap_put (sdus (c_e c)) (seg_sdu s) (sdu\<lparr>sdu_retx_count := n\<rparr>)"
  note d = am_tx_sdu [OF b, of "seg_sdu s" sdu "sdu\<lparr>sdu_retx_count := n\<rparr>"]
  show fr: "am_ctrl_frame (c_e c) e'"
    unfolding am_ctrl_frame_def by (intro conjI exI [of _ "if b then [Max_retx_reached] else []"]) (auto simp: e'_def e1_def am_rxv_def)
  show "seg_sn e' = seg_sn (c_e c)" using d(2) sdu by (auto simp: e'_def e1_def seg_sn_def fun_eq_iff heap_put_def)
  have f: "sdus e' = ?h" "bs_retx_size (bstatus e') = bs_retx_size (bstatus (c_e c)) + am_cost (c_e c) s"
    "am_txv e' = am_txv (bstatus_update (bs_retx_size_update (\<lambda>n. n + am_cost (c_e c) s)) ((c_e c)\<lparr>sdus := ?h\<rparr>))"
    by (simp_all add: e'_def e1_def am_txv_def)
  show "ctrl_ok L c'"
  proof (rule ctrl_ok_cong)
    show "am_txv (ctrl_am c') = am_txv (?b\<lparr>sdus := ?h\<rparr>)"
      using f u(2,3) by (simp add: c'_def am_txv_def ctrl_am_def ctrl_finish_def link cong: option.case_cong)
    show "ctrl_end_ok c'" using u(1) fr by (simp add: ctrl_end_ok_def am_ctrl_frame_def c'_def cong: option.case_cong)
    show "am_tx_core (L + mset (rtx_link c')) (?b\<lparr>sdus := ?h\<rparr>)" using d(1) sdu by (simp add: c'_def)
  qed (simp add: c'_def)
qed

text \<open>Moving on in a list without changing it.\<close>

lemma ctrl_keep_wait:
  assumes "ctrl_ok L c" "cur_wait c = s # l"
  shows "ctrl_ok L (c\<lparr>wl_kept := wl_kept c @ [s], wl_rest := l\<rparr>)"
proof (rule ctrl_ok_cong [of _ "ctrl_am c"])
  have w: "\<not> wl_null c" "wl_rest c = s # l" "rtx_link c = []" using cur_wait_Cons [OF assms(2)] assms by (auto simp: ctrl_ok_def)
  show "am_txv (ctrl_am (c\<lparr>wl_kept := wl_kept c @ [s], wl_rest := l\<rparr>)) = am_txv (ctrl_am c)"
    using w by (simp add: am_txv_def ctrl_am_def ctrl_finish_def cong: option.case_cong)
  have "ctrl_end_ok c" using assms(1) by (simp add: ctrl_ok_def)
  then show "ctrl_end_ok (c\<lparr>wl_kept := wl_kept c @ [s], wl_rest := l\<rparr>)"
    using w by (auto simp: ctrl_end_ok_def split: option.splits)
qed (use assms in \<open>auto simp: ctrl_ok_def\<close>)

lemma ctrl_move_rtx:
  assumes "ctrl_ok L c" "rtx_cur c = s # l"
  shows "ctrl_ok L (c\<lparr>rtx_new := rtx_new c @ [s], rtx_link := [], rtx_cur := l\<rparr>)"
proof (rule ctrl_ok_cong [of _ "ctrl_am c"])
  have w: "rtx_link c = []" using assms by (auto simp: ctrl_ok_def)
  show "am_txv (ctrl_am (c\<lparr>rtx_new := rtx_new c @ [s], rtx_link := [], rtx_cur := l\<rparr>)) = am_txv (ctrl_am c)"
    using w assms(2) by (simp add: am_txv_def ctrl_am_def ctrl_finish_def cong: option.case_cong)
  show "ctrl_end_ok (c\<lparr>rtx_new := rtx_new c @ [s], rtx_link := [], rtx_cur := l\<rparr>)"
    using assms(1) by (simp add: ctrl_ok_def ctrl_end_ok_def cong: option.case_cong)
qed (use assms in \<open>auto simp: ctrl_ok_def\<close>)

lemma ctrl_null:
  assumes "ctrl_ok L c"
  shows "ctrl_ok L (c\<lparr>wl_null := True\<rparr>)"
  using assms by (auto simp: ctrl_ok_def ctrl_end_ok_def ctrl_am_def ctrl_finish_def cur_wait_def cong: option.case_cong)

text \<open>The rest of the retransmit list is lost.\<close>

lemma ctrl_lose_rtx:
  assumes "ctrl_ok L c" "rtx_link c = []" "cur_wait c = []"
  shows "ctrl_ok L (c\<lparr>rtx_link := rtx_cur c, rtx_cur := []\<rparr>)"
proof -
  have "cur_wait (c\<lparr>rtx_link := rtx_cur c, rtx_cur := []\<rparr>) = []" using assms(3) by (simp add: cur_wait_def split: if_splits)
  then show ?thesis
    using assms by (simp add: ctrl_ok_def ctrl_end_ok_def am_tx_defs ctrl_am_def ctrl_finish_def ac_simps cong: option.case_cong)
qed

section \<open>One step of the processing of a NACK\<close>

text \<open>A NACK hits a segment, or the segment lies behind it.\<close>

definition nack_hits :: "am \<Rightarrow> int \<Rightarrow> int \<Rightarrow> int \<Rightarrow> seg \<Rightarrow> bool" where
  "nack_hits e nack_sn so_start so_end s \<longleftrightarrow> seg_sn e s = Some nack_sn \<and>
     so_overlap so_start so_end (seg_so s) (seg_so s + seg_size s - 1)"

definition seg_behind :: "am \<Rightarrow> int \<Rightarrow> int \<Rightarrow> seg \<Rightarrow> bool" where
  "seg_behind e nack_sn so_start s \<longleftrightarrow> tx_dist e nack_sn < tx_dist e (the (seg_sn e s)) \<or>
     (the (seg_sn e s) = nack_sn \<and> so_start < seg_so s)"

lemma ctrl_seg:
  assumes "ctrl_ok L c" "s \<in> set (wl_rest c) \<union> set (rtx_cur c)"
  obtains sdu where "heap_sdus (sdus (c_e c)) (seg_sdu s) = Some sdu" "seg_sn (c_e c) s = Some (sdu_sn sdu)" "sn_valid (c_e c) (sdu_sn sdu)"
proof -
  have core: "am_tx_core (L + mset (rtx_link c)) (ctrl_am c)" using assms(1) by (simp add: ctrl_ok_def)
  have "s \<in># am_segs (ctrl_am c) + (L + mset (rtx_link c))" using assms(2) by (auto simp: am_segs_def)
  moreover have "seg_sn (ctrl_am c) s \<noteq> Some (-1)" using core assms(2) by (auto simp: am_tx_core_def am_tx_sns_def)
  ultimately show ?thesis
    using am_seg_sdu [OF core, of s] that by (metis ctrl_am_sel(4,7,8))
qed

lemma ctrl_base: "ctrl_ok L c \<Longrightarrow> am_tx_base (c_e c)"
  using am_tx_core_base [of "L + mset (rtx_link c)" "ctrl_am c"]
  by (simp add: ctrl_ok_def am_tx_base_def ctrl_am_def ctrl_finish_def)

lemma process_wait_list_head:
  assumes ok: "ctrl_ok L c" and cur: "cur_wait c = s # l" and v: "sn_valid (c_e c) nack_sn" "sn_valid (c_e c) ack_sn"
  obtains
    (hit) e' where "process_wait_list_head ack_sn nack_sn so_start so_end c s =
        Some (Inr ((unlink_wait c s)\<lparr>rtx_new := rtx_new c @ [s], rtx_link := [], c_e := e'\<rparr>))"
      "nack_hits (c_e c) nack_sn so_start so_end s" "am_ctrl_frame (c_e c) e'" "seg_sn e' = seg_sn (c_e c)"
      "ctrl_ok L ((unlink_wait c s)\<lparr>rtx_new := rtx_new c @ [s], rtx_link := [], c_e := e'\<rparr>)"
  | (behind) "process_wait_list_head ack_sn nack_sn so_start so_end c s = Some (Inl (Done_nack, c))"
      "\<not> nack_hits (c_e c) nack_sn so_start so_end s" "seg_behind (c_e c) nack_sn so_start s"
  | (ack) e' where "process_wait_list_head ack_sn nack_sn so_start so_end c s = Some (Inr ((unlink_wait c s)\<lparr>c_e := e'\<rparr>))"
      "\<not> nack_hits (c_e c) nack_sn so_start so_end s" "\<not> seg_behind (c_e c) nack_sn so_start s"
      "tx_dist (c_e c) (the (seg_sn (c_e c) s)) < tx_dist (c_e c) ack_sn" "am_ctrl_frame (c_e c) e'"
      "\<forall>t \<in># am_segs ((ctrl_am c)\<lparr>am_wait_list := wl_kept c @ l\<rparr>) + L. seg_sn e' t = seg_sn (c_e c) t"
      "ctrl_ok L ((unlink_wait c s)\<lparr>c_e := e'\<rparr>)"
  | (past) "process_wait_list_head ack_sn nack_sn so_start so_end c s = Some (Inr (c\<lparr>wl_null := True\<rparr>))"
      "\<not> seg_behind (c_e c) nack_sn so_start s" "tx_dist (c_e c) ack_sn < tx_dist (c_e c) (the (seg_sn (c_e c) s))"
      "ctrl_ok L (c\<lparr>wl_null := True\<rparr>)"
  | (keep) "process_wait_list_head ack_sn nack_sn so_start so_end c s = Some (Inr (c\<lparr>wl_kept := wl_kept c @ [s], wl_rest := l\<rparr>))"
      "\<not> nack_hits (c_e c) nack_sn so_start so_end s" "\<not> seg_behind (c_e c) nack_sn so_start s" "seg_sn (c_e c) s = Some ack_sn"
      "ctrl_ok L (c\<lparr>wl_kept := wl_kept c @ [s], wl_rest := l\<rparr>)"
proof -
  have w: "\<not> wl_null c" "wl_rest c = s # l" using cur_wait_Cons [OF cur] by simp_all
  obtain sdu where sdu: "heap_sdus (sdus (c_e c)) (seg_sdu s) = Some sdu" "seg_sn (c_e c) s = Some (sdu_sn sdu)" "sn_valid (c_e c) (sdu_sn sdu)"
    by (rule ctrl_seg [OF ok, of s]) (use w that in auto)
  let ?sn = "sdu_sn sdu" and ?e = "c_e c"
  have base: "am_tx_base ?e" by (rule ctrl_base [OF ok])
  note cmp = sn_compare_tx_dist [OF base sdu(3) v(1)] sn_compare_tx_dist [OF base sdu(3) v(2)] and inj = tx_dist_inj [OF base sdu(3)]
  have hits: "nack_hits ?e nack_sn so_start so_end s \<longleftrightarrow> ?sn = nack_sn \<and> so_overlap so_start so_end (seg_so s) (seg_so s + seg_size s - 1)"
    by (simp add: nack_hits_def sdu)
  have beh: "seg_behind ?e nack_sn so_start s \<longleftrightarrow> am_sn_compare_tx ?e ?sn nack_sn > 0 \<or> (am_sn_compare_tx ?e ?sn nack_sn = 0 \<and> seg_so s > so_start)"
    using inj [OF v(1)] by (auto simp: seg_behind_def sdu cmp)
  show ?thesis
  proof (cases "nack_hits ?e nack_sn so_start so_end s")
    case True
    let ?b = "am_max_retx_threshold ?e * sdu_ref_count sdu \<le> sdu_retx_count sdu + 1"
    note nw = ctrl_nack_wait [OF ok cur sdu(1), where n = "sdu_retx_count sdu + 1" and b = ?b]
    show ?thesis
      by (rule hit [OF _ True nw(2,3,1)], cases ?b)
        (simp_all add: process_wait_list_head_def Let_def sdu(1) True [unfolded hits] am_cost_def [symmetric])
  next
    case nohit: False
    show ?thesis
    proof (cases "seg_behind ?e nack_sn so_start s")
      case True
      then show ?thesis
        using nohit by (intro behind) (auto simp: process_wait_list_head_def Let_def sdu(1) hits beh)
    next
      case nobeh: False
      note run = process_wait_list_head_def Let_def sdu(1) nohit [unfolded hits] nobeh [unfolded beh]
      consider "tx_dist ?e ?sn < tx_dist ?e ack_sn" | "tx_dist ?e ?sn > tx_dist ?e ack_sn" | "tx_dist ?e ?sn = tx_dist ?e ack_sn" by linarith
      then show ?thesis
      proof cases
        case 1
        obtain e' where "ack_segment ?e s = Some e'" "ctrl_ok L ((unlink_wait c s)\<lparr>c_e := e'\<rparr>)" "am_ctrl_frame ?e e'"
          "\<forall>t \<in># am_segs ((ctrl_am c)\<lparr>am_wait_list := wl_kept c @ l\<rparr>) + L. seg_sn e' t = seg_sn (c_e c) t"
          by (rule ctrl_ack_wait [OF ok cur], rule that)
        then show ?thesis using 1 nohit nobeh nohit [unfolded hits] nobeh [unfolded beh] by (intro ack) (auto simp: process_wait_list_head_def Let_def sdu cmp)
      next
        case 2
        then show ?thesis
          using ctrl_null [OF ok] nobeh nohit [unfolded hits] nobeh [unfolded beh] by (intro past) (auto simp: process_wait_list_head_def Let_def sdu cmp)
      next
        case 3
        then have z: "am_sn_compare_tx ?e ?sn ack_sn = 0" "seg_sn ?e s = Some ack_sn" using cmp inj [OF v(2)] sdu(2) by simp_all
        have run: "process_wait_list_head ack_sn nack_sn so_start so_end c s = Some (Inr (c\<lparr>wl_kept := wl_kept c @ [s], wl_rest := l\<rparr>))"
          using z(1) nohit [unfolded hits] nobeh [unfolded beh] w by (auto simp: process_wait_list_head_def Let_def sdu(1))
        show ?thesis by (rule keep [OF run nohit nobeh z(2) ctrl_keep_wait [OF ok cur]])
      qed
    qed
  qed
qed

lemma process_retransmit_list_head:
  assumes ok: "ctrl_ok L c" and cur: "rtx_cur c = s # l" and v: "sn_valid (c_e c) nack_sn" "sn_valid (c_e c) ack_sn"
  obtains
    (hit) "process_retransmit_list_head ack_sn nack_sn so_start so_end c s =
        Some (Inr (c\<lparr>rtx_new := rtx_new c @ [s], rtx_link := [], rtx_cur := l\<rparr>))" "nack_hits (c_e c) nack_sn so_start so_end s"
  | (behind) "process_retransmit_list_head ack_sn nack_sn so_start so_end c s = Some (Inl (Done_nack, c))"
      "\<not> nack_hits (c_e c) nack_sn so_start so_end s" "seg_behind (c_e c) nack_sn so_start s"
  | (ack) e' where "process_retransmit_list_head ack_sn nack_sn so_start so_end c s = Some (Inr (c\<lparr>c_e := e', rtx_cur := l\<rparr>))"
      "\<not> nack_hits (c_e c) nack_sn so_start so_end s" "\<not> seg_behind (c_e c) nack_sn so_start s"
      "tx_dist (c_e c) (the (seg_sn (c_e c) s)) < tx_dist (c_e c) ack_sn" "am_ctrl_frame (c_e c) e'"
      "\<forall>t \<in># am_segs ((ctrl_am c)\<lparr>am_retransmit_list := rtx_new c @ l\<rparr>) + L. seg_sn e' t = seg_sn (c_e c) t"
      "ctrl_ok L (c\<lparr>c_e := e', rtx_cur := l\<rparr>)"
  | (lose) "process_retransmit_list_head ack_sn nack_sn so_start so_end c s = Some (Inl (Lists_over, c\<lparr>rtx_link := rtx_cur c, rtx_cur := []\<rparr>))"
      "\<not> seg_behind (c_e c) nack_sn so_start s" "\<not> tx_dist (c_e c) (the (seg_sn (c_e c) s)) < tx_dist (c_e c) ack_sn" "cur_wait c = []"
  | (keep) "process_retransmit_list_head ack_sn nack_sn so_start so_end c s =
        Some (Inr (c\<lparr>rtx_new := rtx_new c @ [s], rtx_link := [], rtx_cur := l\<rparr>))"
      "\<not> nack_hits (c_e c) nack_sn so_start so_end s" "\<not> seg_behind (c_e c) nack_sn so_start s"
      "\<not> tx_dist (c_e c) (the (seg_sn (c_e c) s)) < tx_dist (c_e c) ack_sn" "cur_wait c \<noteq> []"
proof -
  obtain sn where sdu: "seg_sn (c_e c) s = Some sn" "sn_valid (c_e c) sn"
    by (rule ctrl_seg [OF ok, of s]) (use cur that in auto)
  let ?sn = sn and ?e = "c_e c"
  have base: "am_tx_base ?e" by (rule ctrl_base [OF ok])
  note cmp = sn_compare_tx_dist [OF base sdu(2) v(1)] sn_compare_tx_dist [OF base sdu(2) v(2)] and inj = tx_dist_inj [OF base sdu(2)]
  have hits: "nack_hits ?e nack_sn so_start so_end s \<longleftrightarrow> ?sn = nack_sn \<and> so_overlap so_start so_end (seg_so s) (seg_so s + seg_size s - 1)"
    by (simp add: nack_hits_def sdu)
  have beh: "seg_behind ?e nack_sn so_start s \<longleftrightarrow> am_sn_compare_tx ?e ?sn nack_sn > 0 \<or> (am_sn_compare_tx ?e ?sn nack_sn = 0 \<and> seg_so s > so_start)"
    using inj [OF v(1)] by (auto simp: seg_behind_def sdu cmp)
  note run = process_retransmit_list_head_def Let_def sdu(1) cur
  consider "nack_hits ?e nack_sn so_start so_end s"
    | "\<not> nack_hits ?e nack_sn so_start so_end s" "seg_behind ?e nack_sn so_start s"
    | "\<not> nack_hits ?e nack_sn so_start so_end s" "\<not> seg_behind ?e nack_sn so_start s" "tx_dist ?e ?sn < tx_dist ?e ack_sn"
    | "\<not> nack_hits ?e nack_sn so_start so_end s" "\<not> seg_behind ?e nack_sn so_start s" "\<not> tx_dist ?e ?sn < tx_dist ?e ack_sn" by blast
  then show ?thesis
  proof cases
    case 1
    then show ?thesis by (intro hit) (simp_all add: run hits)
  next
    case 2
    show ?thesis by (rule behind) (use 2 in \<open>auto simp: run hits beh\<close>)
  next
    case 3
    obtain e' where e': "ack_segment (bstatus_update (bs_retx_size_update (\<lambda>n. n - am_cost ?e s)) ?e) s = Some e'"
      "ctrl_ok L (c\<lparr>c_e := e', rtx_cur := l\<rparr>)" "am_ctrl_frame ?e e'"
      "\<forall>t \<in># am_segs ((ctrl_am c)\<lparr>am_retransmit_list := rtx_new c @ l\<rparr>) + L. seg_sn e' t = seg_sn ?e t"
      by (rule ctrl_ack_rtx [OF ok cur], rule that)
    have "process_retransmit_list_head ack_sn nack_sn so_start so_end c s = Some (Inr (c\<lparr>c_e := e', rtx_cur := l\<rparr>))"
      using 3 [unfolded hits beh] e'(1) cmp(2) by (auto simp: run am_cost_def [symmetric])
    then show ?thesis by (rule ack [OF _ 3(1,2)]) (use 3(3) e' sdu in simp_all)
  next
    case 4
    have "process_retransmit_list_head ack_sn nack_sn so_start so_end c s =
        (if cur_wait c = [] then Some (Inl (Lists_over, c\<lparr>rtx_link := rtx_cur c, rtx_cur := []\<rparr>))
         else Some (Inr (c\<lparr>rtx_new := rtx_new c @ [s], rtx_link := [], rtx_cur := l\<rparr>)))"
      using 4 [unfolded hits beh] cmp(2) by (auto simp: run)
    then show ?thesis using 4 sdu(1) by (cases "cur_wait c = []") (auto intro: lose keep)
  qed
qed

text \<open>Which of the two heads is looked at.\<close>

definition wait_first :: "ctrl_t \<Rightarrow> seg \<Rightarrow> seg list \<Rightarrow> bool" where
  "wait_first c s l \<longleftrightarrow> cur_wait c = s # l \<and> (\<forall>r \<in> set (take 1 (rtx_cur c)). seg_less (c_e c) s r)"

definition rtx_first :: "ctrl_t \<Rightarrow> seg \<Rightarrow> seg list \<Rightarrow> bool" where
  "rtx_first c s l \<longleftrightarrow> rtx_cur c = s # l \<and> (\<forall>w \<in> set (take 1 (cur_wait c)). \<not> seg_less (c_e c) w s)"

inductive nack_step :: "seg multiset \<Rightarrow> int \<Rightarrow> int \<Rightarrow> int \<Rightarrow> int \<Rightarrow> ctrl_t \<Rightarrow> nack_outcome \<times> ctrl_t + ctrl_t \<Rightarrow> bool"
  for L ack_sn nack_sn so_start so_end where
  over: "cur_wait c = [] \<Longrightarrow> rtx_cur c = [] \<Longrightarrow> nack_step L ack_sn nack_sn so_start so_end c (Inl (Lists_over, c))"
| behind: "wait_first c s l \<or> rtx_first c s l \<Longrightarrow> \<not> nack_hits (c_e c) nack_sn so_start so_end s \<Longrightarrow>
    seg_behind (c_e c) nack_sn so_start s \<Longrightarrow> nack_step L ack_sn nack_sn so_start so_end c (Inl (Done_nack, c))"
| hit_wait: "wait_first c s l \<Longrightarrow> nack_hits (c_e c) nack_sn so_start so_end s \<Longrightarrow> am_ctrl_frame (c_e c) e' \<Longrightarrow>
    seg_sn e' = seg_sn (c_e c) \<Longrightarrow> c' = (unlink_wait c s)\<lparr>rtx_new := rtx_new c @ [s], rtx_link := [], c_e := e'\<rparr> \<Longrightarrow>
    nack_step L ack_sn nack_sn so_start so_end c (Inr c')"
| ack_wait: "wait_first c s l \<Longrightarrow> \<not> nack_hits (c_e c) nack_sn so_start so_end s \<Longrightarrow> \<not> seg_behind (c_e c) nack_sn so_start s \<Longrightarrow>
    tx_dist (c_e c) (the (seg_sn (c_e c) s)) < tx_dist (c_e c) ack_sn \<Longrightarrow> am_ctrl_frame (c_e c) e' \<Longrightarrow>
    \<forall>t \<in># am_segs ((ctrl_am c)\<lparr>am_wait_list := wl_kept c @ l\<rparr>) + L. seg_sn e' t = seg_sn (c_e c) t \<Longrightarrow>
    c' = (unlink_wait c s)\<lparr>c_e := e'\<rparr> \<Longrightarrow> nack_step L ack_sn nack_sn so_start so_end c (Inr c')"
| past_wait: "wait_first c s l \<Longrightarrow> \<not> seg_behind (c_e c) nack_sn so_start s \<Longrightarrow>
    tx_dist (c_e c) ack_sn < tx_dist (c_e c) (the (seg_sn (c_e c) s)) \<Longrightarrow>
    nack_step L ack_sn nack_sn so_start so_end c (Inr (c\<lparr>wl_null := True\<rparr>))"
| keep_wait: "wait_first c s l \<Longrightarrow> \<not> nack_hits (c_e c) nack_sn so_start so_end s \<Longrightarrow> \<not> seg_behind (c_e c) nack_sn so_start s \<Longrightarrow>
    seg_sn (c_e c) s = Some ack_sn \<Longrightarrow> nack_step L ack_sn nack_sn so_start so_end c (Inr (c\<lparr>wl_kept := wl_kept c @ [s], wl_rest := l\<rparr>))"
| hit_rtx: "rtx_first c s l \<Longrightarrow> nack_hits (c_e c) nack_sn so_start so_end s \<Longrightarrow>
    nack_step L ack_sn nack_sn so_start so_end c (Inr (c\<lparr>rtx_new := rtx_new c @ [s], rtx_link := [], rtx_cur := l\<rparr>))"
| ack_rtx: "rtx_first c s l \<Longrightarrow> \<not> nack_hits (c_e c) nack_sn so_start so_end s \<Longrightarrow> \<not> seg_behind (c_e c) nack_sn so_start s \<Longrightarrow>
    tx_dist (c_e c) (the (seg_sn (c_e c) s)) < tx_dist (c_e c) ack_sn \<Longrightarrow> am_ctrl_frame (c_e c) e' \<Longrightarrow>
    \<forall>t \<in># am_segs ((ctrl_am c)\<lparr>am_retransmit_list := rtx_new c @ l\<rparr>) + L. seg_sn e' t = seg_sn (c_e c) t \<Longrightarrow>
    nack_step L ack_sn nack_sn so_start so_end c (Inr (c\<lparr>c_e := e', rtx_cur := l\<rparr>))"
| lose_rtx: "rtx_first c s l \<Longrightarrow> \<not> seg_behind (c_e c) nack_sn so_start s \<Longrightarrow>
    \<not> tx_dist (c_e c) (the (seg_sn (c_e c) s)) < tx_dist (c_e c) ack_sn \<Longrightarrow> cur_wait c = [] \<Longrightarrow>
    nack_step L ack_sn nack_sn so_start so_end c (Inl (Lists_over, c\<lparr>rtx_link := rtx_cur c, rtx_cur := []\<rparr>))"
| keep_rtx: "rtx_first c s l \<Longrightarrow> \<not> nack_hits (c_e c) nack_sn so_start so_end s \<Longrightarrow> \<not> seg_behind (c_e c) nack_sn so_start s \<Longrightarrow>
    \<not> tx_dist (c_e c) (the (seg_sn (c_e c) s)) < tx_dist (c_e c) ack_sn \<Longrightarrow> cur_wait c \<noteq> [] \<Longrightarrow>
    nack_step L ack_sn nack_sn so_start so_end c (Inr (c\<lparr>rtx_new := rtx_new c @ [s], rtx_link := [], rtx_cur := l\<rparr>))"

inductive_cases nack_stepE: "nack_step L ack_sn nack_sn so_start so_end c r"

lemma process_next_pdu:
  assumes ok: "ctrl_ok L c" and v: "sn_valid (c_e c) nack_sn" "sn_valid (c_e c) ack_sn"
  obtains r where "process_next_pdu ack_sn nack_sn so_start so_end c = Some r" "nack_step L ack_sn nack_sn so_start so_end c r"
    "ctrl_ok L (case r of Inl (_, c') \<Rightarrow> c' | Inr c' \<Rightarrow> c')"
proof -
  let ?goal = "\<exists>r. process_next_pdu ack_sn nack_sn so_start so_end c = Some r \<and> nack_step L ack_sn nack_sn so_start so_end c r \<and>
    ctrl_ok L (case r of Inl (_, c') \<Rightarrow> c' | Inr c' \<Rightarrow> c')"
  have wait: ?goal if run: "process_next_pdu ack_sn nack_sn so_start so_end c = process_wait_list_head ack_sn nack_sn so_start so_end c s"
    and first: "wait_first c s l" for s l
  proof -
    have cur: "cur_wait c = s # l" using first by (simp add: wait_first_def)
    show ?thesis
      by (rule process_wait_list_head [OF ok cur v, of so_start so_end])
        (use run first ok in \<open>auto intro: nack_step.intros simp del: split_paired_Ex\<close>)
  qed
  have rtx: ?goal if run: "process_next_pdu ack_sn nack_sn so_start so_end c = process_retransmit_list_head ack_sn nack_sn so_start so_end c s"
    and first: "rtx_first c s l" for s l
  proof -
    have cur: "rtx_cur c = s # l" using first by (simp add: rtx_first_def)
    have link: "rtx_link c = []" using ok cur by (auto simp: ctrl_ok_def)
    show ?thesis
      by (rule process_retransmit_list_head [OF ok cur v, of so_start so_end])
        (use run first ok ctrl_move_rtx [OF ok cur] ctrl_lose_rtx [OF ok link] in \<open>auto intro: nack_step.intros\<close>)
  qed
  have goal: ?goal
  proof (cases "cur_wait c")
    case w: Nil
    show ?thesis
    proof (cases "rtx_cur c")
      case Nil
      then show ?thesis using w ok by (auto simp: process_next_pdu_def intro: nack_step.intros)
    next
      case (Cons r rs)
      then show ?thesis using w by (intro rtx [of r rs]) (simp_all add: process_next_pdu_def rtx_first_def)
    qed
  next
    case w: (Cons x xs)
    show ?thesis
    proof (cases "rtx_cur c")
      case Nil
      then show ?thesis using w by (intro wait [of x xs]) (simp_all add: process_next_pdu_def wait_first_def)
    next
      case r: (Cons y ys)
      have "x \<in> set (wl_rest c)" using cur_wait_Cons [OF w] by simp
      then obtain a where a: "seg_sn (c_e c) x = Some a" "sn_valid (c_e c) a" by (rule ctrl_seg [OF ok, OF UnI1]) (rule that)
      obtain b where b: "seg_sn (c_e c) y = Some b" "sn_valid (c_e c) b" by (rule ctrl_seg [OF ok, of y]) (use r that in auto)
      note base = ctrl_base [OF ok]
      have less: "am_sn_compare_tx (c_e c) a b < 0 \<or> (am_sn_compare_tx (c_e c) a b = 0 \<and> seg_so x < seg_so y) \<longleftrightarrow> seg_less (c_e c) x y"
        using sn_compare_tx_dist [OF base a(2) b(2)] tx_dist_inj [OF base a(2) b(2)] by (auto simp: seg_less_def a b)
      show ?thesis
      proof (cases "seg_less (c_e c) x y")
        case True
        then show ?thesis using less w r a b by (intro wait [of x xs]) (auto simp: process_next_pdu_def wait_first_def Let_def)
      next
        case False
        then show ?thesis using less w r a b by (intro rtx [of y ys]) (auto simp: process_next_pdu_def rtx_first_def Let_def)
      qed
    qed
  qed
  then show ?thesis using that by blast
qed

section \<open>The processing of the NACKs\<close>

declare process_nack.simps [simp del] ack_wait_list.simps [simp del] ack_retransmit_list.simps [simp del]

lemma nack_step_frame:
  "nack_step L ack_sn nack_sn so_start so_end c r \<Longrightarrow> am_ctrl_frame (c_e c) (c_e (case r of Inl (_, c') \<Rightarrow> c' | Inr c' \<Rightarrow> c'))"
  by (erule nack_stepE) (auto simp: am_ctrl_frame_refl)

inductive nack_run :: "seg multiset \<Rightarrow> int \<Rightarrow> int \<times> int \<times> int \<Rightarrow> ctrl_t \<Rightarrow> nack_outcome \<Rightarrow> ctrl_t \<Rightarrow> bool"
  for L ack_sn x where
  stop: "nack_step L ack_sn (fst x) (fst (snd x)) (snd (snd x)) c (Inl (r, c')) \<Longrightarrow> nack_run L ack_sn x c r c'"
| step: "nack_step L ack_sn (fst x) (fst (snd x)) (snd (snd x)) c (Inr c1) \<Longrightarrow> nack_run L ack_sn x c1 r c' \<Longrightarrow> nack_run L ack_sn x c r c'"

lemma nack_run_frame: "nack_run L ack_sn x c r c' \<Longrightarrow> am_ctrl_frame (c_e c) (c_e c')"
  by (induction rule: nack_run.induct) (auto dest: nack_step_frame intro: am_ctrl_frame_trans)

lemma process_nack:
  assumes "ctrl_ok L c" "sn_valid (c_e c) nack_sn" "sn_valid (c_e c) ack_sn"
  shows "\<exists>r c'. process_nack ack_sn nack_sn so_start so_end c = Some (r, c') \<and>
    nack_run L ack_sn (nack_sn, so_start, so_end) c r c' \<and> ctrl_ok L c'"
  using assms
proof (induction "ctrl_size c" arbitrary: c rule: less_induct)
  case less
  obtain x where x: "process_next_pdu ack_sn nack_sn so_start so_end c = Some x" "nack_step L ack_sn nack_sn so_start so_end c x"
    "ctrl_ok L (case x of Inl (_, c') \<Rightarrow> c' | Inr c' \<Rightarrow> c')" by (rule process_next_pdu [OF less.prems])
  show ?case
  proof (cases x)
    case (Inl y)
    then show ?thesis using x by (cases y) (auto simp: process_nack.simps [of ack_sn nack_sn so_start so_end c] intro: nack_run.stop)
  next
    case (Inr c1)
    then have "am_ctrl_frame (c_e c) (c_e c1)" using nack_step_frame [OF x(2)] by simp
    then have v: "sn_valid (c_e c1) = sn_valid (c_e c)" by (rule am_ctrl_frame_cfg)
    have dec: "ctrl_size c1 < ctrl_size c" using process_next_pdu_decreases x(1) Inr by blast
    have ok1: "ctrl_ok L c1" using x(3) Inr by simp
    obtain r c' where "process_nack ack_sn nack_sn so_start so_end c1 = Some (r, c')"
      "nack_run L ack_sn (nack_sn, so_start, so_end) c1 r c'" "ctrl_ok L c'"
      using less.hyps [OF dec ok1] less.prems(2,3) v by auto
    moreover have "process_nack ack_sn nack_sn so_start so_end c = process_nack ack_sn nack_sn so_start so_end c1"
      using x(1) Inr by (subst process_nack.simps) simp
    ultimately show ?thesis using x(2) Inr nack_run.step [of L ack_sn "(nack_sn, so_start, so_end)" c c1] by auto
  qed
qed

text \<open>The NACKs of a range, one for each sequence number.\<close>

definition nack_items :: "int \<Rightarrow> nack_t \<Rightarrow> (int \<times> int \<times> int) list" where
  "nack_items m nk = map (\<lambda>i. (cmod (nk_sn nk + i) m, if i = 0 then nk_so_start nk else 0,
     if i = nk_range nk - 1 then nk_so_end nk else -1)) [0..nk_range nk - 1]"

inductive nacks_run :: "seg multiset \<Rightarrow> int \<Rightarrow> ctrl_t \<Rightarrow> (int \<times> int \<times> int) list \<Rightarrow> ctrl_t \<Rightarrow> bool" for L ack_sn where
  nil: "nacks_run L ack_sn c [] c"
| more: "nack_run L ack_sn x c Done_nack c1 \<Longrightarrow> nacks_run L ack_sn c1 xs c' \<Longrightarrow> nacks_run L ack_sn c (x # xs) c'"
| over: "nack_run L ack_sn x c Lists_over c' \<Longrightarrow> nacks_run L ack_sn c (x # xs) c'"

lemma nacks_run_frame: "nacks_run L ack_sn c xs c' \<Longrightarrow> am_ctrl_frame (c_e c) (c_e c')"
  by (induction rule: nacks_run.induct) (auto dest: nack_run_frame intro: am_ctrl_frame_trans am_ctrl_frame_refl)

lemma nack_items_drop:
  fixes m :: int
  assumes "int (Suc n) \<le> nk_range nk"
  defines "i \<equiv> nk_range nk - int (Suc n)"
  shows "drop (nat (nk_range nk) - Suc n) (nack_items m nk) =
    (cmod (nk_sn nk + i) m, if i = 0 then nk_so_start nk else 0, if i = nk_range nk - 1 then nk_so_end nk else -1) #
    drop (nat (nk_range nk) - n) (nack_items m nk)" (is "_ = ?x # _")
proof -
  have k: "nat (nk_range nk) - Suc n < length (nack_items m nk)" "Suc (nat (nk_range nk) - Suc n) = nat (nk_range nk) - n"
    using assms(1) by (simp_all add: nack_items_def)
  have "nack_items m nk ! (nat (nk_range nk) - Suc n) = ?x" using assms(1) by (simp add: nack_items_def nth_upto i_def)
  then show ?thesis using Cons_nth_drop_Suc [OF k(1)] k(2) by metis
qed

lemma process_nack_range:
  assumes "ctrl_ok L c" "0 \<le> nk_sn nk" "sn_valid (c_e c) ack_sn" "int n \<le> nk_range nk"
  shows "\<exists>c'. process_nack_range n ack_sn (nk_sn nk) (nk_so_start nk) (nk_so_end nk) (nk_range nk) c = Some c' \<and> ctrl_ok L c' \<and>
    nacks_run L ack_sn c (drop (nat (nk_range nk) - n) (nack_items (am_sn_modulus (c_e c)) nk)) c'"
  using assms
proof (induction n arbitrary: c)
  case 0
  then show ?case by (auto simp: nack_items_def intro: nacks_run.nil)
next
  case (Suc n)
  let ?m = "am_sn_modulus (c_e c)" and ?i = "nk_range nk - int (Suc n)"
  let ?x = "(cmod (nk_sn nk + ?i) ?m, if ?i = 0 then nk_so_start nk else 0, if ?i = nk_range nk - 1 then nk_so_end nk else -1)"
  have m: "0 < ?m" using amtx.modulus_pos [OF ctrl_base [OF Suc.prems(1)]] .
  then have v: "sn_valid (c_e c) (cmod (nk_sn nk + ?i) ?m)" using Suc.prems(2,4) by (simp add: sn_valid_def)
  note items = nack_items_drop [OF Suc.prems(4), of ?m]
  obtain r c1 where r: "process_nack ack_sn (fst ?x) (fst (snd ?x)) (snd (snd ?x)) c = Some (r, c1)" "nack_run L ack_sn ?x c r c1" "ctrl_ok L c1"
    using process_nack [OF Suc.prems(1) v Suc.prems(3), of "fst (snd ?x)" "snd (snd ?x)"] by auto
  have fr: "sn_valid (c_e c1) = sn_valid (c_e c)" "am_sn_modulus (c_e c1) = ?m" using am_ctrl_frame_cfg [OF nack_run_frame [OF r(2)]] by simp_all
  show ?case
  proof (cases r)
    case Lists_over
    then show ?thesis using r items by (auto simp: Let_def intro: nacks_run.over)
  next
    case Done_nack
    obtain c' where "process_nack_range n ack_sn (nk_sn nk) (nk_so_start nk) (nk_so_end nk) (nk_range nk) c1 = Some c'" "ctrl_ok L c'"
      "nacks_run L ack_sn c1 (drop (nat (nk_range nk) - n) (nack_items (am_sn_modulus (c_e c1)) nk)) c'"
      using Suc.IH [OF r(3) Suc.prems(2)] Suc.prems(3,4) fr by auto
    then show ?thesis using r items Done_nack fr by (auto simp: Let_def intro: nacks_run.more)
  qed
qed

section \<open>Reading the NACKs\<close>

text \<open>The checked reading of a field beside the unchecked one.\<close>

definition nack_ok :: "am \<Rightarrow> nack_t \<Rightarrow> bool" where
  "nack_ok e nk \<longleftrightarrow> sn_valid e (nk_sn nk) \<and> 0 \<le> nk_so_start nk \<and> -1 \<le> nk_so_end nk \<and> 0 \<le> nk_range nk"

definition reads_nack :: "am \<Rightarrow> byte list \<Rightarrow> int \<Rightarrow> nat \<Rightarrow> (nack_t \<times> nr_rlc_pdu_decoder_t) option option \<Rightarrow>
    (nack_t \<times> nr_rlc_pdu_decoder_t) option \<Rightarrow> bool" where
  "reads_nack e buf sz q x y \<longleftrightarrow> x = Some None \<or>
     (\<exists>nk q'. x = Some (Some (nk, dec_at buf sz q')) \<and> y = Some (nk, dec_at buf sz q') \<and> q < q' \<and> q' \<le> 8 * nat sz \<and> nack_ok e nk)"

lemma reads_nack_field:
  assumes "q \<le> 8 * nat sz" "0 \<le> sz" "sz \<le> int (length buf)" "c = int n" "n \<le> 31"
    and "\<And>v. 0 \<le> v \<Longrightarrow> v < 2 ^ n \<Longrightarrow> q + n \<le> 8 * nat sz \<Longrightarrow> reads_nack e buf sz q0 (k v (dec_at buf sz (q + n))) (k' v (dec_at buf sz (q + n)))"
  shows "reads_nack e buf sz q0 (get_field (dec_at buf sz q) c (\<lambda>_. Some None) k)
    (Option.bind (nr_rlc_pdu_decoder_get_bits (dec_at buf sz q) c) (\<lambda>(v, d). k' v d))"
proof (cases "q + n \<le> 8 * nat sz")
  case True
  then show ?thesis
    using assms(6) [of "bits_val (take n (drop q (bits_of buf)))"] bits_val_take [of n "drop q (bits_of buf)"]
    by (simp add: get_field_at [OF assms(1-5)] get_bits_in [OF True assms(3-5)])
next
  case False
  then show ?thesis by (simp add: get_field_at [OF assms(1-5)] reads_nack_def)
qed

lemma read_nack:
  assumes cfg: "am_cfg e" and q: "q \<le> 8 * nat sz" "0 \<le> sz" "sz \<le> int (length buf)"
  shows "reads_nack e buf sz q (read_nack_checked e (dec_at buf sz q)) (read_nack e (dec_at buf sz q))"
proof -
  note f = reads_nack_field [OF _ q(2,3)]
  have len: "am_sn_field_length e = int (nat (am_sn_field_length e))" "nat (am_sn_field_length e) \<le> 31" "2 ^ nat (am_sn_field_length e) = am_sn_modulus e"
    "0 < nat (am_sn_field_length e)" using cfg by (auto simp: am_cfg_def)
  have pad: "(if am_sn_field_length e = 18 then 3 else 1 :: int) = int (if am_sn_field_length e = 18 then 3 else 1)"
    "(if am_sn_field_length e = 18 then 3 else 1 :: nat) \<le> 31" by simp_all
  define nk where "nk = (\<lambda>sn e1 so_start so_end rng :: int. \<lparr>nk_sn = sn, nk_e1 = e1, nk_so_start = so_start,
       nk_so_end = (if so_end = 0xffff then -1 else so_end), nk_range = rng\<rparr>)"
  have fin: "reads_nack e buf sz q (Some (Some (nk sn e1 a b rng, dec_at buf sz q'))) (Some (nk sn e1 a b rng, dec_at buf sz q'))"
    if "q < q'" "q' \<le> 8 * nat sz" "0 \<le> sn" "sn < 2 ^ nat (am_sn_field_length e)" "0 \<le> a" "0 \<le> b" "0 \<le> rng" for sn e1 a b rng q'
    using that len(3) by (auto simp: reads_nack_def nack_ok_def sn_valid_def nk_def)
  define R where "R = (\<lambda>sn e1 e3 a b d. (\<lambda>k. if e3 \<noteq> (0 :: int) then get_field d 8 (\<lambda>_. Some None) k else k 1 d)
      (\<lambda>rng d. Some (Some (nk sn e1 a b rng, d))))"
  define R' where "R' = (\<lambda>sn e1 e3 a b d. Option.bind (if e3 \<noteq> (0 :: int) then nr_rlc_pdu_decoder_get_bits d 8 else Some (1, d))
      (\<lambda>(rng, d). Some (nk sn e1 a b rng, d)))"
  have rng: "reads_nack e buf sz q (R sn e1 e3 a b (dec_at buf sz q')) (R' sn e1 e3 a b (dec_at buf sz q'))"
    if "q < q'" "q' \<le> 8 * nat sz" "0 \<le> sn" "sn < 2 ^ nat (am_sn_field_length e)" "0 \<le> a" "0 \<le> b" for sn e1 e3 a b q'
  proof (cases "e3 = 0")
    case True
    then show ?thesis using that fin by (simp add: R_def R'_def)
  next
    case False
    have "reads_nack e buf sz q (get_field (dec_at buf sz q') 8 (\<lambda>_. Some None) (\<lambda>rng d. Some (Some (nk sn e1 a b rng, d))))
        (Option.bind (nr_rlc_pdu_decoder_get_bits (dec_at buf sz q') 8) (\<lambda>(rng, d). Some (nk sn e1 a b rng, d)))"
      by (rule f [OF that(2), where n = 8]) (use that in \<open>auto intro: fin\<close>)
    then show ?thesis using False by (simp add: R_def R'_def)
  qed
  define S where "S = (\<lambda>sn e1 e2 e3 d. (\<lambda>k. if e2 \<noteq> (0 :: int)
          then get_field d 16 (\<lambda>_. Some None) (\<lambda>so_start d. get_field d 16 (\<lambda>_. Some None) (\<lambda>so_end d. k so_start so_end d))
          else k 0 0xffff d) (\<lambda>a b d. R sn e1 e3 a b d))"
  define S' where "S' = (\<lambda>sn e1 e2 e3 d. Option.bind (if e2 \<noteq> (0 :: int)
       then do {
         (so_start, d) \<leftarrow> nr_rlc_pdu_decoder_get_bits d 16;
         (so_end, d) \<leftarrow> nr_rlc_pdu_decoder_get_bits d 16;
         Some (so_start, so_end, d)
       }
       else Some (0, 0xffff, d)) (\<lambda>(a, b, d). R' sn e1 e3 a b d))"
  have so: "reads_nack e buf sz q (S sn e1 e2 e3 (dec_at buf sz q')) (S' sn e1 e2 e3 (dec_at buf sz q'))"
    if "q < q'" "q' \<le> 8 * nat sz" "0 \<le> sn" "sn < 2 ^ nat (am_sn_field_length e)" for sn e1 e2 e3 q'
  proof (cases "e2 = 0")
    case True
    then show ?thesis using that rng by (simp add: S_def S'_def)
  next
    case False
    have "reads_nack e buf sz q (get_field (dec_at buf sz q') 16 (\<lambda>_. Some None) (\<lambda>a d. get_field d 16 (\<lambda>_. Some None) (R sn e1 e3 a)))
        (Option.bind (nr_rlc_pdu_decoder_get_bits (dec_at buf sz q') 16) (\<lambda>(a, d). Option.bind (nr_rlc_pdu_decoder_get_bits d 16) (\<lambda>(b, d). R' sn e1 e3 a b d)))"
      by (rule f [OF that(2), where n = 16], simp, simp, rule f [where n = 16]) (use that in \<open>auto intro: rng\<close>)
    then show ?thesis using False by (simp add: S_def S'_def split_def)
  qed
  have "reads_nack e buf sz q
     (get_field (dec_at buf sz q) (am_sn_field_length e) (\<lambda>_. Some None) (\<lambda>sn d.
      get_field d 1 (\<lambda>_. Some None) (\<lambda>e1 d. get_field d 1 (\<lambda>_. Some None) (\<lambda>e2 d. get_field d 1 (\<lambda>_. Some None) (\<lambda>e3 d.
      get_field d (if am_sn_field_length e = 18 then 3 else 1) (\<lambda>_. Some None) (\<lambda>_ d. S sn e1 e2 e3 d))))))
     (Option.bind (nr_rlc_pdu_decoder_get_bits (dec_at buf sz q) (am_sn_field_length e)) (\<lambda>(sn, d).
      Option.bind (nr_rlc_pdu_decoder_get_bits d 1) (\<lambda>(e1, d). Option.bind (nr_rlc_pdu_decoder_get_bits d 1) (\<lambda>(e2, d).
      Option.bind (nr_rlc_pdu_decoder_get_bits d 1) (\<lambda>(e3, d).
      Option.bind (nr_rlc_pdu_decoder_get_bits d (if am_sn_field_length e = 18 then 3 else 1)) (\<lambda>(_, d). S' sn e1 e2 e3 d))))))"
    by (rule f [OF q(1) len(1,2)], rule f [where n = 1], simp, simp, simp, rule f [where n = 1], simp, simp, simp,
        rule f [where n = 1], simp, simp, simp, rule f [OF _ pad], simp, rule so) (use len(4) in auto)
  then show ?thesis
    unfolding read_nack_checked_def read_nack_def S_def S'_def R_def R'_def nk_def by (simp only: split_def fst_conv snd_conv)
qed

end
