(* ===== verification/RLC_AM_Ack_Run.thy ===== *)
theory RLC_AM_Ack_Run
  imports RLC_AM_Ack
begin

text \<open>
  An AM entity processes a whole status PDU: the loops over its NACKs end, and what is left is an
  entity that satisfies the invariant of the transmit side.
\<close>

section \<open>The NACKs of a PDU\<close>

text \<open>The NACKs that follow in the PDU.\<close>

inductive status_nacks :: "am \<Rightarrow> nr_rlc_pdu_decoder_t \<Rightarrow> int \<Rightarrow> nack_t list \<Rightarrow> bool" for e where
  nil: "status_nacks e d 0 []"
| cons: "e1 \<noteq> 0 \<Longrightarrow> read_nack e d = Some (nk, d') \<Longrightarrow> status_nacks e d' (nk_e1 nk) nks \<Longrightarrow> status_nacks e d e1 (nk # nks)"

lemma status_nacks_unique: "status_nacks e d e1 nks \<Longrightarrow> status_nacks e d e1 nks' \<Longrightarrow> nks = nks'"
proof (induction arbitrary: nks' rule: status_nacks.induct)
  case (nil d)
  then show ?case by (auto elim: status_nacks.cases)
next
  case (cons e1 d nk d' nks)
  from cons.prems cons.hyps(1,2) obtain xs where "nks' = nk # xs" "status_nacks e d' (nk_e1 nk) xs"
    by (cases rule: status_nacks.cases) auto
  then show ?case using cons.IH by simp
qed

lemma validate_nacks:
  assumes "am_cfg e" "q \<le> 8 * nat sz" "0 \<le> sz" "sz \<le> int (length buf)"
  shows "\<exists>b. validate_nacks e ack_sn (dec_at buf sz q) e1 = Some b \<and>
    (b \<longrightarrow> (\<exists>nks. status_nacks e (dec_at buf sz q) e1 nks \<and>
      (\<forall>nk \<in> set nks. nack_ok e nk \<and> nack_range_valid (nat (nk_range nk)) e ack_sn (-1) 0 nk)))"
  using assms(2)
proof (induction "8 * nat sz - q" arbitrary: q e1 rule: less_induct)
  case less
  show ?case
  proof (cases "e1 = 0")
    case True
    then have "validate_nacks e ack_sn (dec_at buf sz q) e1 = Some True" by (subst validate_nacks.simps) simp
    moreover have "status_nacks e (dec_at buf sz q) e1 []" using True by (simp add: status_nacks.nil)
    ultimately show ?thesis by (intro exI [of _ True] conjI impI exI [of _ "[]"]) simp_all
  next
    case e1: False
    have "reads_nack e buf sz q (read_nack_checked e (dec_at buf sz q)) (read_nack e (dec_at buf sz q))"
      by (rule read_nack [OF assms(1) less.prems assms(3,4)])
    then consider "read_nack_checked e (dec_at buf sz q) = Some None"
      | nk q' where "read_nack_checked e (dec_at buf sz q) = Some (Some (nk, dec_at buf sz q'))" "read_nack e (dec_at buf sz q) = Some (nk, dec_at buf sz q')"
        "q < q'" "q' \<le> 8 * nat sz" "nack_ok e nk" unfolding reads_nack_def by blast
    then show ?thesis
    proof cases
      case 1
      then have "validate_nacks e ack_sn (dec_at buf sz q) e1 = Some False" using e1 by (subst validate_nacks.simps) simp
      then show ?thesis by (intro exI [of _ False]) simp
    next
      case (2 nk q')
      have dec: "8 * nat sz - q' < 8 * nat sz - q" using 2(3,4) by simp
      obtain b where b: "validate_nacks e ack_sn (dec_at buf sz q') (nk_e1 nk) = Some b"
        "b \<longrightarrow> (\<exists>nks. status_nacks e (dec_at buf sz q') (nk_e1 nk) nks \<and>
          (\<forall>nk \<in> set nks. nack_ok e nk \<and> nack_range_valid (nat (nk_range nk)) e ack_sn (-1) 0 nk))"
        using less.hyps [OF dec 2(4), of "nk_e1 nk"] by (elim exE conjE) (rule that)
      show ?thesis
      proof (cases "nack_range_valid (nat (nk_range nk)) e ack_sn (-1) 0 nk")
        case True
        then have "validate_nacks e ack_sn (dec_at buf sz q) e1 = Some b" using 2(1) e1 b(1) by (subst validate_nacks.simps) simp
        moreover have "\<exists>nks. status_nacks e (dec_at buf sz q) e1 nks \<and>
          (\<forall>nk \<in> set nks. nack_ok e nk \<and> nack_range_valid (nat (nk_range nk)) e ack_sn (-1) 0 nk)" if b
        proof -
          from b(2) that obtain nks where "status_nacks e (dec_at buf sz q') (nk_e1 nk) nks"
            "\<forall>nk \<in> set nks. nack_ok e nk \<and> nack_range_valid (nat (nk_range nk)) e ack_sn (-1) 0 nk" by blast
          then show ?thesis using status_nacks.cons [OF e1 2(2)] True 2(5) by (intro exI [of _ "nk # nks"]) simp
        qed
        ultimately show ?thesis by (intro exI [of _ b] conjI impI)
      next
        case False
        then have "validate_nacks e ack_sn (dec_at buf sz q) e1 = Some False" using 2(1) e1 by (subst validate_nacks.simps) simp
        then show ?thesis by (intro exI [of _ False]) simp
      qed
    qed
  qed
qed

lemma nack_range_validD:
  assumes "nack_range_valid n e ack_sn p q nk" "int n \<le> nk_range nk"
  shows "\<forall>x \<in> set (drop (nat (nk_range nk) - n) (nack_items (am_sn_modulus e) nk)). am_sn_compare_tx e (fst x) ack_sn \<le> 0"
  using assms
proof (induction n)
  case 0
  then show ?case by (simp add: nack_items_def)
next
  case (Suc n)
  then show ?case by (simp add: nack_items_drop Let_def)
qed

lemma ctrl_ok_cong_iff:
  assumes "am_txv (ctrl_am c') = am_txv (ctrl_am c)" "rtx_link c' = rtx_link c" "ctrl_end_ok c' = ctrl_end_ok c"
    and "cur_wait c' = cur_wait c" "rtx_cur c' = rtx_cur c"
  shows "ctrl_ok L c' = ctrl_ok L c"
  using am_tx_core_cong [OF assms(1)] by (simp add: ctrl_ok_def assms)

text \<open>The processing of all the NACKs; the timer is stopped when they concern the poll.\<close>

inductive all_nacks_run :: "seg multiset \<Rightarrow> int \<Rightarrow> ctrl_t \<Rightarrow> nack_t list \<Rightarrow> ctrl_t \<Rightarrow> bool" for L ack_sn where
  nil: "all_nacks_run L ack_sn c [] c"
| cons: "nacks_run L ack_sn c (nack_items (am_sn_modulus (c_e c)) nk) c1 \<Longrightarrow>
    c2 = c1 \<or> c2 = c1\<lparr>c_e := (c_e c1)\<lparr>am_t_poll_retransmit_start := 0\<rparr>\<rparr> \<Longrightarrow>
    all_nacks_run L ack_sn c2 nks c' \<Longrightarrow> all_nacks_run L ack_sn c (nk # nks) c'"

lemma ctrl_t_poll:
  "ctrl_ok L (c\<lparr>c_e := (c_e c)\<lparr>am_t_poll_retransmit_start := t\<rparr>\<rparr>) = ctrl_ok L c"
  "am_ctrl_frame (c_e c) ((c_e c)\<lparr>am_t_poll_retransmit_start := t\<rparr>)"
  by (rule ctrl_ok_cong_iff, simp_all add: am_txv_def ctrl_am_def ctrl_finish_def ctrl_end_ok_def cur_wait_def cong: option.case_cong)
    (auto simp: am_ctrl_frame_def am_rxv_def intro!: exI [of _ "[]"])

lemma process_nacks:
  assumes "status_nacks e d e1 nks" "\<forall>nk \<in> set nks. nack_ok e nk" "ctrl_ok L c" "sn_valid e ack_sn" "am_ctrl_frame e (c_e c)"
  shows "\<exists>c'. process_nacks ack_sn d e1 c = Some c' \<and> all_nacks_run L ack_sn c nks c' \<and> ctrl_ok L c' \<and> am_ctrl_frame e (c_e c')"
  using assms
proof (induction arbitrary: c rule: status_nacks.induct)
  case (nil d)
  then show ?case by (subst process_nacks.simps) (auto intro: all_nacks_run.nil)
next
  case (cons e1 d nk d' nks)
  note cfg = am_ctrl_frame_cfg [OF cons.prems(4)]
  have rd: "read_nack (c_e c) d = Some (nk, d')" using cons.hyps(2) cfg(2) by (simp add: read_nack_def)
  have v: "sn_valid (c_e c) ack_sn" using cons.prems(3) cfg(4) by simp
  have nk: "0 \<le> nk_sn nk" "int (nat (nk_range nk)) \<le> nk_range nk" using cons.prems(1) by (simp_all add: nack_ok_def sn_valid_def)
  obtain c1 where c1: "process_nack_range (nat (nk_range nk)) ack_sn (nk_sn nk) (nk_so_start nk) (nk_so_end nk) (nk_range nk) c = Some c1"
    "ctrl_ok L c1" "nacks_run L ack_sn c (nack_items (am_sn_modulus (c_e c)) nk) c1"
    using process_nack_range [OF cons.prems(2) nk(1) v nk(2)] by auto
  define c2 where "c2 = (if am_sn_compare_tx (c_e c1) (nk_sn nk) (am_poll_sn (c_e c1)) \<le> 0 \<and>
      am_sn_compare_tx (c_e c1) (am_poll_sn (c_e c1)) (cmod (nk_sn nk + nk_range nk) (am_sn_modulus (c_e c1))) < 0
    then c1\<lparr>c_e := (c_e c1)\<lparr>am_t_poll_retransmit_start := 0\<rparr>\<rparr> else c1)"
  have c2: "c2 = c1 \<or> c2 = c1\<lparr>c_e := (c_e c1)\<lparr>am_t_poll_retransmit_start := 0\<rparr>\<rparr>" by (simp add: c2_def)
  then have ok2: "ctrl_ok L c2" "am_ctrl_frame (c_e c1) (c_e c2)" using c1(2) ctrl_t_poll(1) [where L = L and c = c1 and t = 0] ctrl_t_poll(2) [where c = c1 and t = 0] am_ctrl_frame_refl [of "c_e c1"] by auto
  have fr2: "am_ctrl_frame e (c_e c2)"
    using am_ctrl_frame_trans [OF cons.prems(4) am_ctrl_frame_trans [OF nacks_run_frame [OF c1(3)] ok2(2)]] .
  obtain c' where c': "process_nacks ack_sn d' (nk_e1 nk) c2 = Some c'" "all_nacks_run L ack_sn c2 nks c'" "ctrl_ok L c'" "am_ctrl_frame e (c_e c')"
    using cons.IH [OF _ ok2(1) cons.prems(3) fr2] cons.prems(1) by auto
  have "process_nacks ack_sn d e1 c = Some c'"
    using cons.hyps(1) rd c1(1) c'(1) by (subst process_nacks.simps) (simp add: Let_def c2_def)
  then show ?case using c' all_nacks_run.cons [OF c1(3) c2 c'(2)] by blast
qed

section \<open>What ACK_SN acknowledges\<close>

lemma ack_wait_list:
  assumes "ctrl_ok L c" "sn_valid (c_e c) ack_sn"
  shows "\<exists>c' p. ack_wait_list ack_sn c = Some c' \<and> ctrl_ok L c' \<and> am_ctrl_frame (c_e c) (c_e c') \<and>
    cur_wait c = p @ cur_wait c' \<and> wl_null c' = wl_null c \<and> wl_kept c' = wl_kept c \<and>
    rtx_new c' = rtx_new c \<and> rtx_link c' = rtx_link c \<and> rtx_cur c' = rtx_cur c \<and>
    (\<forall>s \<in> set p. tx_dist (c_e c) (the (seg_sn (c_e c) s)) < tx_dist (c_e c) ack_sn) \<and>
    (\<forall>s \<in> set (take 1 (cur_wait c')). tx_dist (c_e c) ack_sn \<le> tx_dist (c_e c) (the (seg_sn (c_e c) s))) \<and>
    (\<forall>t \<in># am_segs (ctrl_am c') + L. seg_sn (c_e c') t = seg_sn (c_e c) t)"
  using assms
proof (induction "length (wl_rest c)" arbitrary: c rule: less_induct)
  case less
  show ?case
  proof (cases "cur_wait c")
    case Nil
    then have "ack_wait_list ack_sn c = Some c" by (simp add: ack_wait_list.simps [of ack_sn c])
    then show ?thesis using less.prems Nil by (intro exI [of _ c] exI [of _ "[]"]) (simp add: am_ctrl_frame_refl)
  next
    case (Cons s l)
    have w: "\<not> wl_null c" "wl_rest c = s # l" using cur_wait_Cons [OF Cons] by simp_all
    obtain sn where sn: "seg_sn (c_e c) s = Some sn" "sn_valid (c_e c) sn"
      by (rule ctrl_seg [OF less.prems(1), of s]) (use w that in auto)
    note cmp = sn_compare_tx_dist [OF ctrl_base [OF less.prems(1)] sn(2) less.prems(2)]
    show ?thesis
    proof (cases "tx_dist (c_e c) sn < tx_dist (c_e c) ack_sn")
      case False
      then have "ack_wait_list ack_sn c = Some c" using Cons sn(1) cmp by (simp add: ack_wait_list.simps [of ack_sn c])
      then show ?thesis using less.prems Cons sn False by (intro exI [of _ c] exI [of _ "[]"]) (simp add: am_ctrl_frame_refl)
    next
      case True
      obtain e' where e': "ack_segment (c_e c) s = Some e'" "ctrl_ok L ((unlink_wait c s)\<lparr>c_e := e'\<rparr>)" "am_ctrl_frame (c_e c) e'"
        "\<forall>t \<in># am_segs ((ctrl_am c)\<lparr>am_wait_list := wl_kept c @ l\<rparr>) + L. seg_sn e' t = seg_sn (c_e c) t"
        by (rule ctrl_ack_wait [OF less.prems(1) Cons], rule that)
      let ?c = "(unlink_wait c s)\<lparr>c_e := e'\<rparr>"
      have run: "ack_wait_list ack_sn c = ack_wait_list ack_sn ?c"
        using Cons sn(1) cmp True e'(1) by (simp add: ack_wait_list.simps [of ack_sn c])
      note fr = am_ctrl_frame_cfg [OF e'(3)]
      have "length (wl_rest ?c) < length (wl_rest c)" "sn_valid (c_e ?c) ack_sn" using w less.prems(2) fr by simp_all
      note ih = less.hyps [OF this(1) e'(2) this(2)]
      have cur: "cur_wait ?c = l" using w by (simp add: cur_wait_def)
      have live: "am_segs (ctrl_am ?c) = am_segs ((ctrl_am c)\<lparr>am_wait_list := wl_kept c @ l\<rparr>)"
        using e'(3) w by (simp add: am_segs_def am_ctrl_frame_def)
      from ih obtain c' p where c': "ack_wait_list ack_sn ?c = Some c'" "ctrl_ok L c'" "am_ctrl_frame e' (c_e c')"
        "l = p @ cur_wait c'" "wl_null c' = wl_null c" "wl_kept c' = wl_kept c" "rtx_new c' = rtx_new c" "rtx_link c' = rtx_link c"
        "rtx_cur c' = rtx_cur c" "\<forall>s \<in> set p. tx_dist (c_e c) (the (seg_sn e' s)) < tx_dist (c_e c) ack_sn"
        "\<forall>s \<in> set (take 1 (cur_wait c')). tx_dist (c_e c) ack_sn \<le> tx_dist (c_e c) (the (seg_sn e' s))"
        "\<forall>t \<in># am_segs (ctrl_am c') + L. seg_sn (c_e c') t = seg_sn e' t"
        unfolding cur using fr(5) by (simp del: ball_Un) metis
      have null: "\<not> wl_null c'" using c'(5) w(1) by simp
      have "set (take 1 (cur_wait c')) \<subseteq> set l" using c'(4) set_take_subset [of 1 "cur_wait c'"] by auto
      then have old: "seg_sn e' t = seg_sn (c_e c) t" if "t \<in> set p \<union> set (take 1 (cur_wait c'))" for t
        using that e'(4) c'(4) by (auto simp: am_segs_def)
      have "am_segs (ctrl_am c') \<subseteq># am_segs (ctrl_am ?c)"
        using c'(3,4,6-9) null w(1) e'(3) cur by (simp add: am_segs_def am_ctrl_frame_def cur_wait_def)
      then have "\<forall>t \<in># am_segs (ctrl_am c') + L. seg_sn (c_e c') t = seg_sn (c_e c) t"
        using c'(12) e'(4) live by (metis mset_subset_eqD union_iff)
      then show ?thesis
        using c' old run am_ctrl_frame_trans [OF e'(3) c'(3)] Cons sn True by (intro exI [of _ c'] exI [of _ "s # p"]) auto
    qed
  qed
qed

lemma ack_retransmit_list:
  assumes "ctrl_ok L c" "sn_valid (c_e c) ack_sn"
  shows "\<exists>c' p. ack_retransmit_list ack_sn c = Some c' \<and> ctrl_ok L c' \<and> am_ctrl_frame (c_e c) (c_e c') \<and>
    rtx_cur c = p @ rtx_cur c' \<and> wl_null c' = wl_null c \<and> wl_kept c' = wl_kept c \<and> wl_rest c' = wl_rest c \<and>
    rtx_new c' = rtx_new c \<and> rtx_link c' = rtx_link c \<and>
    (\<forall>s \<in> set p. tx_dist (c_e c) (the (seg_sn (c_e c) s)) < tx_dist (c_e c) ack_sn) \<and>
    (\<forall>s \<in> set (take 1 (rtx_cur c')). tx_dist (c_e c) ack_sn \<le> tx_dist (c_e c) (the (seg_sn (c_e c) s))) \<and>
    (\<forall>t \<in># am_segs (ctrl_am c') + L. seg_sn (c_e c') t = seg_sn (c_e c) t)"
  using assms
proof (induction "length (rtx_cur c)" arbitrary: c rule: less_induct)
  case less
  show ?case
  proof (cases "rtx_cur c")
    case Nil
    then have "ack_retransmit_list ack_sn c = Some c" by (simp add: ack_retransmit_list.simps [of ack_sn c])
    then show ?thesis using less.prems Nil by (intro exI [of _ c] exI [of _ "[]"]) (simp add: am_ctrl_frame_refl)
  next
    case (Cons s l)
    obtain sn where sn: "seg_sn (c_e c) s = Some sn" "sn_valid (c_e c) sn"
      by (rule ctrl_seg [OF less.prems(1), of s]) (use Cons that in auto)
    note cmp = sn_compare_tx_dist [OF ctrl_base [OF less.prems(1)] sn(2) less.prems(2)]
    show ?thesis
    proof (cases "tx_dist (c_e c) sn < tx_dist (c_e c) ack_sn")
      case False
      then have "ack_retransmit_list ack_sn c = Some c" using Cons sn(1) cmp by (simp add: ack_retransmit_list.simps [of ack_sn c])
      then show ?thesis using less.prems Cons sn False by (intro exI [of _ c] exI [of _ "[]"]) (simp add: am_ctrl_frame_refl)
    next
      case True
      obtain e' where e': "ack_segment (bstatus_update (bs_retx_size_update (\<lambda>n. n - am_cost (c_e c) s)) (c_e c)) s = Some e'"
        "ctrl_ok L (c\<lparr>c_e := e', rtx_cur := l\<rparr>)" "am_ctrl_frame (c_e c) e'"
        "\<forall>t \<in># am_segs ((ctrl_am c)\<lparr>am_retransmit_list := rtx_new c @ l\<rparr>) + L. seg_sn e' t = seg_sn (c_e c) t"
        by (rule ctrl_ack_rtx [OF less.prems(1) Cons], rule that)
      let ?c = "c\<lparr>c_e := e', rtx_cur := l\<rparr>"
      have run: "ack_retransmit_list ack_sn c = ack_retransmit_list ack_sn ?c"
        using Cons sn(1) cmp True e'(1) by (simp add: ack_retransmit_list.simps [of ack_sn c] am_cost_def)
      note fr = am_ctrl_frame_cfg [OF e'(3)]
      have "length (rtx_cur ?c) < length (rtx_cur c)" "sn_valid (c_e ?c) ack_sn" using Cons less.prems(2) fr by simp_all
      note ih = less.hyps [OF this(1) e'(2) this(2)]
      have live: "am_segs (ctrl_am ?c) = am_segs ((ctrl_am c)\<lparr>am_retransmit_list := rtx_new c @ l\<rparr>)"
        using e'(3) by (simp add: am_segs_def am_ctrl_frame_def)
      from ih obtain c' p where c': "ack_retransmit_list ack_sn ?c = Some c'" "ctrl_ok L c'" "am_ctrl_frame e' (c_e c')"
        "l = p @ rtx_cur c'" "wl_null c' = wl_null c" "wl_kept c' = wl_kept c" "wl_rest c' = wl_rest c" "rtx_new c' = rtx_new c"
        "rtx_link c' = rtx_link c" "\<forall>s \<in> set p. tx_dist (c_e c) (the (seg_sn e' s)) < tx_dist (c_e c) ack_sn"
        "\<forall>s \<in> set (take 1 (rtx_cur c')). tx_dist (c_e c) ack_sn \<le> tx_dist (c_e c) (the (seg_sn e' s))"
        "\<forall>t \<in># am_segs (ctrl_am c') + L. seg_sn (c_e c') t = seg_sn e' t"
        using fr(5) by (simp del: ball_Un) metis
      have "set (take 1 (rtx_cur c')) \<subseteq> set l" using c'(4) set_take_subset [of 1 "rtx_cur c'"] by auto
      then have old: "seg_sn e' t = seg_sn (c_e c) t" if "t \<in> set p \<union> set (take 1 (rtx_cur c'))" for t
        using that e'(4) c'(4) by (auto simp: am_segs_def)
      have "am_segs (ctrl_am c') \<subseteq># am_segs (ctrl_am ?c)"
        using c'(3,4,6-9) e'(3) by (simp add: am_segs_def am_ctrl_frame_def)
      then have "\<forall>t \<in># am_segs (ctrl_am c') + L. seg_sn (c_e c') t = seg_sn (c_e c) t"
        using c'(12) e'(4) live by (metis mset_subset_eqD union_iff)
      then show ?thesis
        using c' old run am_ctrl_frame_trans [OF e'(3) c'(3)] Cons sn True by (intro exI [of _ c'] exI [of _ "s # p"]) auto
    qed
  qed
qed

section \<open>A well-formed status PDU\<close>

text \<open>
  NACKs in the order the specification prescribes, all below ACK_SN: the processing walks the union of the
  wait list and the retransmit list, in order, once.
\<close>

type_synonym nack_item = "int \<times> int \<times> int"

definition item_hits :: "am \<Rightarrow> nack_item \<Rightarrow> seg \<Rightarrow> bool" where
  "item_hits e x s = nack_hits e (fst x) (fst (snd x)) (snd (snd x)) s"

definition item_le :: "am \<Rightarrow> nack_item \<Rightarrow> nack_item \<Rightarrow> bool" where
  "item_le e x y \<longleftrightarrow> tx_dist e (fst x) < tx_dist e (fst y) \<or> (fst x = fst y \<and> fst (snd x) \<le> fst (snd y))"

definition nack_progress :: "am \<Rightarrow> seg multiset \<Rightarrow> int \<Rightarrow> nack_item list \<Rightarrow> nack_item list \<Rightarrow> ctrl_t \<Rightarrow> bool" where
  "nack_progress e L ack_sn items D c \<longleftrightarrow> am_ctrl_frame e (c_e c) \<and> rtx_link c = [] \<and> \<not> wl_null c \<and> wl_kept c = [] \<and>
     (\<forall>t \<in># am_segs (ctrl_am c) + L. seg_sn (c_e c) t = seg_sn e t) \<and>
     (\<exists>wp rp. am_wait_list e = wp @ wl_rest c \<and> am_retransmit_list e = rp @ rtx_cur c \<and>
        mset (rtx_new c) = filter_mset (\<lambda>s. \<exists>x \<in> set items. item_hits e x s) (mset wp + mset rp) \<and>
        (\<forall>s \<in> set wp \<union> set rp. tx_dist e (the (seg_sn e s)) < tx_dist e ack_sn)) \<and>
     sorted_wrt (seg_less e) (rtx_new c) \<and>
     (\<forall>s \<in> set (rtx_new c). \<forall>t \<in> set (wl_rest c) \<union> set (rtx_cur c). seg_less e s t) \<and>
     (\<forall>s \<in> set (wl_rest c) \<union> set (rtx_cur c). \<forall>x \<in> set D. \<not> item_hits e x s)"

lemma nack_progressD:
  assumes "nack_progress e L ack_sn items D c"
  shows "am_ctrl_frame e (c_e c)" "rtx_link c = []" "\<not> wl_null c" "wl_kept c = []" "cur_wait c = wl_rest c"
    "t \<in> set (wl_rest c) \<union> set (rtx_cur c) \<union> set (rtx_new c) \<Longrightarrow> seg_sn (c_e c) t = seg_sn e t"
    "set (wl_rest c) \<subseteq> set (am_wait_list e)" "set (rtx_cur c) \<subseteq> set (am_retransmit_list e)"
    "am_tx_order e \<Longrightarrow> sorted_wrt (seg_less e) (wl_rest c)" "am_tx_order e \<Longrightarrow> sorted_wrt (seg_less e) (rtx_cur c)"
  using assms by (auto simp: nack_progress_def cur_wait_def am_segs_def am_tx_order_def sorted_wrt_append)

text \<open>The segment that is looked at comes before all others.\<close>

lemma am_rtx_wait_linear:
  assumes ok: "am_tx_ok L e" and s: "s \<in> set (am_retransmit_list e)" and t: "t \<in> set (am_wait_list e)"
  shows "seg_less e s t \<or> seg_less e t s"
proof -
  have core: "am_tx_core L e" using ok by (simp add: am_tx_ok_def)
  have "heap_ok (sdus e) (mset (am_wait_list e @ am_retransmit_list e) + (mset (am_tx_list e) + L))"
    using core by (simp add: am_tx_core_def am_tx_mem_def am_segs_def ac_simps)
  then have "distinct (map seg_addr (am_wait_list e @ am_retransmit_list e))" by (rule heap_ok_distinct_addr)
  then have "seg_addr s \<noteq> seg_addr t" using s t by fastforce
  moreover have "seg_sn e s \<noteq> Some (-1)" "seg_sn e t \<noteq> Some (-1)" using core s t by (auto simp: am_tx_core_def am_tx_sns_def)
  ultimately show ?thesis by (intro seg_less_linear [OF ok]) (use s t in \<open>auto simp: am_segs_def\<close>)
qed

lemma am_listed_numbered:
  assumes "am_tx_ok L e" "s \<in> set (am_wait_list e) \<union> set (am_retransmit_list e)"
  shows "\<exists>sn. seg_sn e s = Some sn \<and> sn_valid e sn"
proof -
  have core: "am_tx_core L e" using assms(1) by (simp add: am_tx_ok_def)
  have "s \<in># am_segs e + L" "seg_sn e s \<noteq> Some (-1)" using core assms(2) by (auto simp: am_segs_def am_tx_core_def am_tx_sns_def)
  then show ?thesis by (rule am_seg_numbered [OF core]) blast
qed

lemma seg_less_cong:
  assumes "am_ctrl_frame e e'" "seg_sn e' s = seg_sn e s" "seg_sn e' t = seg_sn e t"
  shows "seg_less e' s t = seg_less e s t"
  using assms am_ctrl_frame_cfg(5) [OF assms(1)] by (simp add: seg_less_def)

lemma first_is_least:
  assumes ok: "am_tx_ok L e" and pr: "nack_progress e L ack_sn items D c" and first: "wait_first c s l \<or> rtx_first c s l"
  shows "s \<in> set (wl_rest c) \<union> set (rtx_cur c)" "seg_sn (c_e c) s = seg_sn e s"
    "wait_first c s l \<Longrightarrow> \<forall>t \<in> set l \<union> set (rtx_cur c). seg_less e s t"
    "rtx_first c s l \<Longrightarrow> \<forall>t \<in> set (wl_rest c) \<union> set l. seg_less e s t"
proof -
  note d = nack_progressD [OF pr] and ord = ok [unfolded am_tx_ok_def, THEN conjunct2]
  show s: "s \<in> set (wl_rest c) \<union> set (rtx_cur c)" using first d(5) by (auto simp: wait_first_def rtx_first_def)
  show sn: "seg_sn (c_e c) s = seg_sn e s" using d(6) s by blast
  have less: "seg_less (c_e c) t u = seg_less e t u" if "t \<in> set (wl_rest c) \<union> set (rtx_cur c)" "u \<in> set (wl_rest c) \<union> set (rtx_cur c)" for t u
    using seg_less_cong [OF d(1)] d(6) that by blast
  show "\<forall>t \<in> set l \<union> set (rtx_cur c). seg_less e s t" if w: "wait_first c s l"
  proof -
    from w have r: "wl_rest c = s # l" "\<forall>r \<in> set (take 1 (rtx_cur c)). seg_less e s r"
      using d(5) less by (auto simp: wait_first_def take_Suc dest: in_set_takeD)
    have "seg_less e s t" if "t \<in> set (rtx_cur c)" for t
      using that r(2) d(10) [OF ord] by (cases "rtx_cur c") (auto intro: seg_less_trans)
    then show ?thesis using r(1) d(9) [OF ord] by auto
  qed
  show "\<forall>t \<in> set (wl_rest c) \<union> set l. seg_less e s t" if w: "rtx_first c s l"
  proof -
    from w have r: "rtx_cur c = s # l" "\<forall>w \<in> set (take 1 (wl_rest c)). \<not> seg_less e w s"
      using d(5) less by (auto simp: rtx_first_def dest: in_set_takeD)
    have "seg_less e s t" if "t \<in> set (take 1 (wl_rest c))" for t
      using r(2) that am_rtx_wait_linear [OF ok, of s t] d(7,8) r(1) in_set_takeD [OF that] by auto
    then have "seg_less e s t" if "t \<in> set (wl_rest c)" for t
      using that d(9) [OF ord] by (cases "wl_rest c") (auto intro: seg_less_trans)
    then show ?thesis using r(1) d(10) [OF ord] by auto
  qed
qed

text \<open>A segment that a NACK passes over is hit by none of the later ones.\<close>

lemma passed_over:
  assumes "\<not> item_hits e x s" "\<not> seg_behind e (fst x) (fst (snd x)) s" "item_le e x y" "seg_sn e s = Some sn"
  shows "\<not> item_hits e y s"
proof
  assume y: "item_hits e y s"
  then have "sn = fst y" using assms(4) by (simp add: item_hits_def nack_hits_def)
  moreover have "tx_dist e sn \<le> tx_dist e (fst x)" using assms(2,4) by (simp add: seg_behind_def)
  ultimately have "fst x = fst y" "fst (snd x) \<le> fst (snd y)" using assms(3) by (auto simp: item_le_def)
  then show False
    using assms(1,2,4) y \<open>sn = fst y\<close> by (auto simp: item_hits_def nack_hits_def seg_behind_def so_overlap_def split: if_splits)
qed

text \<open>The segments behind one that lies behind a NACK are not hit by it.\<close>

lemma behind_not_hit:
  assumes "\<not> item_hits e x s" "seg_behind e (fst x) (fst (snd x)) s" "seg_less e s t"
    and "seg_sn e s = Some sn" "seg_sn e t = Some sn'"
  shows "\<not> item_hits e x t"
proof
  assume t: "item_hits e x t"
  then have "sn' = fst x" using assms(5) by (simp add: item_hits_def nack_hits_def)
  then have "sn = fst x" "fst (snd x) < seg_so s" "seg_so s < seg_so t"
    using assms(2,3,4,5) by (auto simp: seg_behind_def seg_less_def)
  then show False
    using assms(1,4) t by (auto simp: item_hits_def nack_hits_def so_overlap_def split: if_splits)
qed

text \<open>One step pops the first segment of both lists, or the NACK is done.\<close>

lemma nack_progress_pop:
  assumes ok: "am_tx_ok L e" and pr: "nack_progress e L ack_sn items D c" and first: "wait_first c s l \<or> rtx_first c s l"
    and c': "am_ctrl_frame e (c_e c')" "rtx_link c' = []" "\<not> wl_null c'" "wl_kept c' = []"
    "(wait_first c s l \<and> wl_rest c' = l \<and> rtx_cur c' = rtx_cur c) \<or> (rtx_first c s l \<and> wl_rest c' = wl_rest c \<and> rtx_cur c' = l)"
    "rtx_new c' = (if \<exists>x \<in> set items. item_hits e x s then rtx_new c @ [s] else rtx_new c)"
    "\<forall>t \<in># am_segs (ctrl_am c') + L. seg_sn (c_e c') t = seg_sn e t"
    and s: "tx_dist e (the (seg_sn e s)) < tx_dist e ack_sn"
  shows "nack_progress e L ack_sn items D c'"
proof -
  let ?H = "\<lambda>s. \<exists>x \<in> set items. item_hits e x s"
  from pr obtain wp rp where p: "am_wait_list e = wp @ wl_rest c" "am_retransmit_list e = rp @ rtx_cur c"
    "mset (rtx_new c) = filter_mset ?H (mset wp + mset rp)" "\<forall>s \<in> set wp \<union> set rp. tx_dist e (the (seg_sn e s)) < tx_dist e ack_sn"
    by (auto simp: nack_progress_def)
  note d = nack_progressD [OF pr] and f = first_is_least [OF ok pr first]
  have rest: "set (wl_rest c') \<union> set (rtx_cur c') \<subseteq> set (wl_rest c) \<union> set (rtx_cur c)"
    and least: "\<forall>t \<in> set (wl_rest c') \<union> set (rtx_cur c'). seg_less e s t"
    using c'(5) d(5) f(3,4) by (auto simp: wait_first_def rtx_first_def)
  have "\<forall>t \<in> set (rtx_new c). seg_less e t s" using pr f(1) unfolding nack_progress_def by blast
  then have sorted: "sorted_wrt (seg_less e) (rtx_new c')" using pr c'(6) by (simp add: nack_progress_def sorted_wrt_append)
  have below: "\<forall>t \<in> set (rtx_new c'). \<forall>u \<in> set (wl_rest c') \<union> set (rtx_cur c'). seg_less e t u"
    using pr rest least c'(6) unfolding nack_progress_def by (auto split: if_splits)
  have hits: "\<forall>t \<in> set (wl_rest c') \<union> set (rtx_cur c'). \<forall>x \<in> set D. \<not> item_hits e x t"
    using pr rest unfolding nack_progress_def by blast
  have "\<exists>wp rp. am_wait_list e = wp @ wl_rest c' \<and> am_retransmit_list e = rp @ rtx_cur c' \<and>
      mset (rtx_new c') = filter_mset ?H (mset wp + mset rp) \<and> (\<forall>s \<in> set wp \<union> set rp. tx_dist e (the (seg_sn e s)) < tx_dist e ack_sn)"
    using c'(5)
  proof (elim disjE conjE)
    assume "wait_first c s l" "wl_rest c' = l" "rtx_cur c' = rtx_cur c"
    then show ?thesis using p c'(6) d(5) s by (intro exI [of _ "wp @ [s]"] exI [of _ rp]) (auto simp: wait_first_def)
  next
    assume "rtx_first c s l" "wl_rest c' = wl_rest c" "rtx_cur c' = l"
    then show ?thesis using p c'(6) s by (intro exI [of _ wp] exI [of _ "rp @ [s]"]) (auto simp: rtx_first_def)
  qed
  then show ?thesis using c'(1-4,7) sorted below hits unfolding nack_progress_def by blast
qed

lemma nack_progress_step:
  assumes ok: "am_tx_ok L e" and pr: "nack_progress e L ack_sn items D c"
    and step: "nack_step L ack_sn (fst x) (fst (snd x)) (snd (snd x)) c (Inr c')"
    and items: "items = D @ x # todo" "\<forall>y \<in> set todo. item_le e x y" "tx_dist e (fst x) < tx_dist e ack_sn"
  shows "nack_progress e L ack_sn items D c'"
proof -
  note d = nack_progressD [OF pr]
  have dist: "tx_dist (c_e c) = tx_dist e" by (rule am_ctrl_frame_cfg [OF d(1)])
  have num: "\<exists>sn. seg_sn e s = Some sn" if "s \<in> set (wl_rest c) \<union> set (rtx_cur c)" for s
    using am_listed_numbered [OF ok, of s] that d(7,8) by auto
  have hit: "nack_hits (c_e c) (fst x) (fst (snd x)) (snd (snd x)) s = item_hits e x s"
    and beh: "seg_behind (c_e c) (fst x) (fst (snd x)) s = seg_behind e (fst x) (fst (snd x)) s"
    if "s \<in> set (wl_rest c) \<union> set (rtx_cur c)" for s
    using d(6) [of s] that dist by (auto simp: item_hits_def nack_hits_def seg_behind_def)
  have dead: "\<not> (\<exists>y \<in> set items. item_hits e y s)" if "s \<in> set (wl_rest c) \<union> set (rtx_cur c)" "\<not> item_hits e x s"
    "\<not> seg_behind e (fst x) (fst (snd x)) s" for s
    using passed_over [OF that(2,3)] num [OF that(1)] items that(1,2) pr unfolding nack_progress_def by auto
  have near: "tx_dist e (the (seg_sn e s)) < tx_dist e ack_sn" if "\<not> seg_behind e (fst x) (fst (snd x)) s" for s
    using that items(3) by (auto simp: seg_behind_def)
  have near': "tx_dist e (the (seg_sn e s)) < tx_dist e ack_sn" if "item_hits e x s" for s
    using that items(3) by (auto simp: item_hits_def nack_hits_def)
  note pop = nack_progress_pop [OF ok pr] and first = first_is_least [OF ok pr]
  note live = pr [unfolded nack_progress_def, THEN conjunct2, THEN conjunct2, THEN conjunct2, THEN conjunct2, THEN conjunct1]
  from step show ?thesis
  proof (cases rule: nack_step.cases)
    case (hit_wait s l e')
    have f: "wait_first c s l \<or> rtx_first c s l" using hit_wait(1) by simp
    have h: "item_hits e x s" using hit_wait(2) hit [OF first(1) [OF f]] by simp
    show ?thesis
      by (rule pop [OF f])
        (use hit_wait d h near' live items(1) am_ctrl_frame_trans [OF d(1) hit_wait(3)] in \<open>auto simp: wait_first_def am_segs_def am_ctrl_frame_def\<close>)
  next
    case (ack_wait s l e')
    have f: "wait_first c s l \<or> rtx_first c s l" using ack_wait(1) by simp
    have h: "\<not> item_hits e x s" "\<not> seg_behind e (fst x) (fst (snd x)) s"
      using ack_wait(2,3) hit [OF first(1) [OF f]] beh [OF first(1) [OF f]] by simp_all
    show ?thesis
      by (rule pop [OF f])
        (use ack_wait d near [OF h(2)] dead [OF first(1) [OF f] h] live am_ctrl_frame_trans [OF d(1) ack_wait(5)]
          in \<open>auto simp: wait_first_def am_segs_def am_ctrl_frame_def\<close>)
  next
    case (past_wait s l)
    then show ?thesis using first [of s l] near [of s] beh [of s] dist by auto
  next
    case (keep_wait s l)
    then show ?thesis using first [of s l] near [of s] beh [of s] dist by auto
  next
    case (hit_rtx s l)
    have f: "wait_first c s l \<or> rtx_first c s l" using hit_rtx(2) by simp
    have h: "item_hits e x s" using hit_rtx(3) hit [OF first(1) [OF f]] by simp
    show ?thesis
      by (rule pop [OF f]) (use hit_rtx d h near' live items(1) in \<open>auto simp: rtx_first_def am_segs_def\<close>)
  next
    case (ack_rtx s l e')
    have f: "wait_first c s l \<or> rtx_first c s l" using ack_rtx(2) by simp
    have h: "\<not> item_hits e x s" "\<not> seg_behind e (fst x) (fst (snd x)) s"
      using ack_rtx(3,4) hit [OF first(1) [OF f]] beh [OF first(1) [OF f]] by simp_all
    show ?thesis
      by (rule pop [OF f])
        (use ack_rtx d near [OF h(2)] dead [OF first(1) [OF f] h] live am_ctrl_frame_trans [OF d(1) ack_rtx(6)]
          in \<open>auto simp: rtx_first_def am_segs_def am_ctrl_frame_def\<close>)
  next
    case (keep_rtx s l)
    then show ?thesis using first [of s l] near [of s] beh [of s] dist by auto
  qed
qed

lemma nack_progress_stop:
  assumes ok: "am_tx_ok L e" and pr: "nack_progress e L ack_sn items D c"
    and step: "nack_step L ack_sn (fst x) (fst (snd x)) (snd (snd x)) c (Inl (r, c'))" and x: "tx_dist e (fst x) < tx_dist e ack_sn"
  shows "nack_progress e L ack_sn items (D @ [x]) c'" "r = Lists_over \<Longrightarrow> wl_rest c' = [] \<and> rtx_cur c' = []"
proof -
  note d = nack_progressD [OF pr]
  have dist: "tx_dist (c_e c) = tx_dist e" by (rule am_ctrl_frame_cfg [OF d(1)])
  note first = first_is_least [OF ok pr]
  from step have "nack_progress e L ack_sn items (D @ [x]) c' \<and> (r = Lists_over \<longrightarrow> wl_rest c' = [] \<and> rtx_cur c' = [])"
  proof (cases rule: nack_step.cases)
    case over
    then show ?thesis using pr d(5) by (auto simp: nack_progress_def)
  next
    case (behind s l)
    note f = first(1,2) [OF behind(3)]
    have s: "\<not> item_hits e x s" "seg_behind e (fst x) (fst (snd x)) s"
      using behind(4,5) f(2) dist by (simp_all add: item_hits_def nack_hits_def seg_behind_def)
    have num: "\<exists>sn. seg_sn e t = Some sn" if "t \<in> set (wl_rest c) \<union> set (rtx_cur c)" for t
      using am_listed_numbered [OF ok, of t] that d(7,8) by auto
    have "t = s \<or> seg_less e s t" if "t \<in> set (wl_rest c) \<union> set (rtx_cur c)" for t
      using that first(3,4) [OF behind(3)] behind(3) d(5) by (auto simp: wait_first_def rtx_first_def)
    then have "\<not> item_hits e x t" if "t \<in> set (wl_rest c) \<union> set (rtx_cur c)" for t
      using behind_not_hit [OF s, of t] num [OF that] num [OF f(1)] s(1) that by auto
    then show ?thesis using pr behind(1,2) unfolding nack_progress_def by auto
  next
    case (lose_rtx s l)
    then have "rtx_first c s l" by simp
    then show ?thesis using first(2) [of s l] lose_rtx x dist by (auto simp: seg_behind_def)
  qed
  then show "nack_progress e L ack_sn items (D @ [x]) c'" "r = Lists_over \<Longrightarrow> wl_rest c' = [] \<and> rtx_cur c' = []" by blast+
qed

lemma nack_progress_run:
  assumes "nack_run L ack_sn x c r c'" "am_tx_ok L e" "nack_progress e L ack_sn items D c"
    and "items = D @ x # todo" "\<forall>y \<in> set todo. item_le e x y" "tx_dist e (fst x) < tx_dist e ack_sn"
  shows "nack_progress e L ack_sn items (D @ [x]) c' \<and> (r = Lists_over \<longrightarrow> wl_rest c' = [] \<and> rtx_cur c' = [])"
  using assms
proof (induction rule: nack_run.induct)
  case (stop c r c')
  then show ?case using nack_progress_stop [of L e ack_sn items D c x r c'] by blast
next
  case (step c c1 r c')
  then show ?case using nack_progress_step [of L e ack_sn items D c x c1] by blast
qed

lemma nack_progress_runs:
  assumes "nacks_run L ack_sn c xs c'" "am_tx_ok L e" "nack_progress e L ack_sn items D c" "items = D @ xs @ todo"
    and "sorted_wrt (item_le e) items" "\<forall>x \<in> set items. tx_dist e (fst x) < tx_dist e ack_sn"
  shows "nack_progress e L ack_sn items (D @ xs) c'"
  using assms
proof (induction arbitrary: D rule: nacks_run.induct)
  case (nil c)
  then show ?case by simp
next
  case (more x c c1 xs c')
  then have "nack_progress e L ack_sn items (D @ [x]) c1"
    using nack_progress_run [OF more.hyps(1) more.prems(1,2), of "xs @ todo"] by (simp add: sorted_wrt_append)
  then show ?case using more.IH [of "D @ [x]"] more.prems by simp
next
  case (over x c c' xs)
  then have "nack_progress e L ack_sn items (D @ [x]) c'" "wl_rest c' = []" "rtx_cur c' = []"
    using nack_progress_run [OF over.hyps(1) over.prems(1,2), of "xs @ todo"] by (simp_all add: sorted_wrt_append)
  then show ?case by (simp add: nack_progress_def)
qed

lemma nack_progress_t_poll:
  "nack_progress e L ack_sn items D (c\<lparr>c_e := (c_e c)\<lparr>am_t_poll_retransmit_start := t\<rparr>\<rparr>) = nack_progress e L ack_sn items D c"
  by (simp add: nack_progress_def am_ctrl_frame_def am_rxv_def am_segs_def)

lemma nack_progress_all:
  assumes "all_nacks_run L ack_sn c nks c'" "am_tx_ok L e" "nack_progress e L ack_sn items D c"
    and "items = D @ concat (map (nack_items (am_sn_modulus e)) nks)"
    and "sorted_wrt (item_le e) items" "\<forall>x \<in> set items. tx_dist e (fst x) < tx_dist e ack_sn"
  shows "nack_progress e L ack_sn items items c'"
  using assms
proof (induction arbitrary: D rule: all_nacks_run.induct)
  case (nil c)
  then show ?case by simp
next
  case (cons c nk c1 c2 nks c')
  have m: "am_sn_modulus (c_e c) = am_sn_modulus e" by (rule am_ctrl_frame_cfg [OF nack_progressD(1) [OF cons.prems(2)]])
  have "nack_progress e L ack_sn items (D @ nack_items (am_sn_modulus e) nk) c1"
    by (rule nack_progress_runs [OF cons.hyps(1) [unfolded m] cons.prems(1,2) _ cons.prems(4,5)]) (simp add: cons.prems(3))
  then have "nack_progress e L ack_sn items (D @ nack_items (am_sn_modulus e) nk) c2"
    using cons.hyps(2) nack_progress_t_poll by auto
  then show ?case using cons.IH [OF cons.prems(1)] cons.prems(3-5) by simp
qed

end
