(* ===== verification/RLC_AM_Status_Pdu.thy ===== *)
theory RLC_AM_Status_Pdu
  imports RLC_AM_Ack_Run
begin

text \<open>
  \<open>process_control_pdu\<close> on the bytes of a status PDU: what it does with a well-formed one, and with any other.
\<close>

section \<open>The whole status PDU\<close>

lemma ctrl_init_ok: "am_tx_core L e \<Longrightarrow> ctrl_ok L (ctrl_init e)"
proof (rule ctrl_ok_cong [of _ e])
  assume "am_tx_core L e"
  then show "ctrl_end_ok (ctrl_init e)" by (simp add: ctrl_end_ok_def ctrl_init_def am_tx_core_def am_tx_mem_def)
qed (simp_all add: ctrl_init_def ctrl_am_def ctrl_finish_def am_txv_def)

definition status_pdu :: "am \<Rightarrow> byte list \<Rightarrow> int \<Rightarrow> int \<Rightarrow> nack_t list \<Rightarrow> bool" where
  "status_pdu e buffer sz ack_sn nks \<longleftrightarrow>
     (\<exists>e1 d. validate_control_pdu e buffer sz = Some (Some (ack_sn, e1, d)) \<and> status_nacks e d e1 nks)"

lemma validate_control_pdu:
  assumes "am_cfg e" "0 \<le> sz" "sz \<le> int (length buf)"
  obtains "validate_control_pdu e buf sz = Some None"
  | ack_sn e1 d nks where "validate_control_pdu e buf sz = Some (Some (ack_sn, e1, d))" "status_nacks e d e1 nks" "sn_valid e ack_sn"
      "am_sn_compare_tx e ack_sn (am_tx_next e) \<le> 0" "\<forall>nk \<in> set nks. nack_ok e nk"
proof -
  define R where "R = (\<lambda>x. x = Some None \<or> (\<exists>ack_sn e1 d nks. x = Some (Some (ack_sn, e1, d)) \<and> status_nacks e d e1 nks \<and> sn_valid e ack_sn \<and>
      am_sn_compare_tx e ack_sn (am_tx_next e) \<le> 0 \<and> (\<forall>nk \<in> set nks. nack_ok e nk)))"
  have len: "am_sn_field_length e = int (nat (am_sn_field_length e))" "nat (am_sn_field_length e) \<le> 31" "2 ^ nat (am_sn_field_length e) = am_sn_modulus e"
    using assms(1) by (auto simp: am_cfg_def)
  have pad: "(if am_sn_field_length e = 18 then 1 else 7 :: int) = int (if am_sn_field_length e = 18 then 1 else 7)" by simp
  have field: "R (get_field (dec_at buf sz q) c (\<lambda>_. Some None) k)"
    if "q \<le> 8 * nat sz" "c = int n" "n \<le> 31" "\<And>v. 0 \<le> v \<Longrightarrow> v < 2 ^ n \<Longrightarrow> q + n \<le> 8 * nat sz \<Longrightarrow> R (k v (dec_at buf sz (q + n)))" for q c n k
    using that(4) [of "bits_val (take n (drop q (bits_of buf)))"] bits_val_take [of n "drop q (bits_of buf)"]
    by (simp add: get_field_at [OF that(1) assms(2,3) that(2,3)]) (simp add: R_def)
  have tail: "R (do { valid \<leftarrow> validate_nacks e ack_sn (dec_at buf sz q) e1; Some (if valid then Some (ack_sn, e1, dec_at buf sz q) else None) })"
    if t: "q \<le> 8 * nat sz" "sn_valid e ack_sn" "am_sn_compare_tx e ack_sn (am_tx_next e) \<le> 0" for q ack_sn e1
  proof -
    obtain b where b: "validate_nacks e ack_sn (dec_at buf sz q) e1 = Some b"
      "b \<longrightarrow> (\<exists>nks. status_nacks e (dec_at buf sz q) e1 nks \<and> (\<forall>nk \<in> set nks. nack_ok e nk \<and> nack_range_valid (nat (nk_range nk)) e ack_sn (-1) 0 nk))"
      using validate_nacks [OF assms(1) t(1) assms(2,3), of ack_sn e1] by (elim exE conjE) (rule that)
    then show ?thesis using t(2,3) unfolding R_def by (cases b) auto
  qed
  define K where "K = (\<lambda>ack_sn e1 d. if am_sn_compare_tx e ack_sn (am_tx_next e) > 0 then Some None
      else do { valid \<leftarrow> validate_nacks e ack_sn d e1; Some (if valid then Some (ack_sn, e1, d) else None) })"
  have K: "R (K ack_sn e1 (dec_at buf sz q))" if "q \<le> 8 * nat sz" "sn_valid e ack_sn" for q ack_sn e1
    using tail [OF that, of e1] by (simp add: K_def) (simp add: R_def)
  have pad: "R (get_field (dec_at buf sz q) (if am_sn_field_length e = 18 then 1 else 7) (\<lambda>_. Some None) (\<lambda>_ d. K ack_sn e1 d))"
    if "q \<le> 8 * nat sz" "sn_valid e ack_sn" for q ack_sn e1
    by (rule field [OF that(1), where n = "if am_sn_field_length e = 18 then 1 else 7"]) (auto intro!: K that(2))
  have e1: "R (get_field (dec_at buf sz q) 1 (\<lambda>_. Some None) (\<lambda>e1 d.
      get_field d (if am_sn_field_length e = 18 then 1 else 7) (\<lambda>_. Some None) (\<lambda>_ d. K ack_sn e1 d)))"
    if "q \<le> 8 * nat sz" "sn_valid e ack_sn" for q ack_sn
    by (rule field [OF that(1), where n = 1], simp, simp, rule pad [OF _ that(2)])
  have ack: "R (get_field (dec_at buf sz q) (am_sn_field_length e) (\<lambda>_. Some None) (\<lambda>ack_sn d. get_field d 1 (\<lambda>_. Some None) (\<lambda>e1 d.
      get_field d (if am_sn_field_length e = 18 then 1 else 7) (\<lambda>_. Some None) (\<lambda>_ d. K ack_sn e1 d))))" if "q \<le> 8 * nat sz" for q
    by (rule field [OF that len(1,2)], rule e1) (use len(3) in \<open>simp_all add: sn_valid_def\<close>)
  have none: "R (Some None)" by (simp add: R_def)
  have cpt: "R (get_field (dec_at buf sz q) 3 (\<lambda>_. Some None) (\<lambda>cpt d. if cpt \<noteq> 0 then Some None else
      get_field d (am_sn_field_length e) (\<lambda>_. Some None) (\<lambda>ack_sn d. get_field d 1 (\<lambda>_. Some None) (\<lambda>e1 d.
      get_field d (if am_sn_field_length e = 18 then 1 else 7) (\<lambda>_. Some None) (\<lambda>_ d. K ack_sn e1 d)))))" if "q \<le> 8 * nat sz" for q
    by (rule field [OF that, where n = 3]) (use ack none in auto)
  have "R (validate_control_pdu e buf sz)"
    unfolding validate_control_pdu_def decoder_init_at
    by (rule field [where n = 1], simp, simp, simp, rule cpt [unfolded K_def])
  then show ?thesis using that unfolding R_def by blast
qed

text \<open>Segments disappear and move between the lists: the order of the sequence numbers stays.\<close>

lemma am_tx_order_sub:
  assumes "am_tx_order e" "heap_ok (sdus e') (am_segs e' + L)" "\<forall>t \<in># am_segs e' + L. seg_sn e' t = seg_sn e t"
    and "am_ctrl_frame e e'" "sorted_wrt (seg_less e) (am_wait_list e')" "sorted_wrt (seg_less e) (am_retransmit_list e')"
  shows "am_tx_order e'"
proof -
  note fr = am_ctrl_frame_cfg [OF assms(4)]
  have old: "\<exists>old. heap_sdus (sdus e) a = Some old \<and> sdu_sn old = sdu_sn sdu" if a: "heap_sdus (sdus e') a = Some sdu" for a sdu
  proof -
    have "0 < refs a (am_segs e' + L)" using heap_okD(5) [OF assms(2) a] by simp
    then obtain t where t: "t \<in># am_segs e' + L" "seg_sdu t = a" using refs_eq_0 [of a "am_segs e' + L"] by auto
    then have "seg_sn e t = seg_sn e' t" using assms(3) by simp
    then have "seg_sn e t = Some (sdu_sn sdu)" using a t(2) by (simp add: seg_sn_def)
    then show ?thesis using t(2) by (auto simp: seg_sn_def)
  qed
  have less: "seg_less e' s t = seg_less e s t" if "s \<in># am_segs e'" "t \<in># am_segs e'" for s t
    using seg_less_cong [OF assms(4)] assms(3) that by auto
  have "sorted_wrt (seg_less e') (am_wait_list e')" "sorted_wrt (seg_less e') (am_retransmit_list e')"
    using assms(5,6) less by (auto simp: am_segs_def intro: sorted_wrt_mono_rel [rotated])
  moreover have "am_tx_next e' = am_tx_next e" using assms(4) by (simp add: am_ctrl_frame_def)
  moreover have "tx_dist e (sdu_sn sdu) < tx_dist e (am_tx_next e)" if "heap_sdus (sdus e') a = Some sdu" "sdu_sn sdu \<noteq> -1" for a sdu
    using old [OF that(1)] that(2) assms(1) unfolding am_tx_order_def by metis
  moreover have "a = b" if "heap_sdus (sdus e') a = Some x" "heap_sdus (sdus e') b = Some y" "sdu_sn x = sdu_sn y" "sdu_sn x \<noteq> -1" for a b x y
    using old [OF that(1)] old [OF that(2)] that(3,4) assms(1) unfolding am_tx_order_def by metis
  ultimately show ?thesis using assms(1) fr unfolding am_tx_order_def by simp
qed

lemma circ_dist_shift:
  assumes "0 < M" "circ_dist M a b \<le> circ_dist M a x"
  shows "circ_dist M b x = circ_dist M a x - circ_dist M a b"
proof -
  have "circ_dist M b x = (circ_dist M a x - circ_dist M a b) mod M"
    by (simp add: circ_dist_def mod_simps)
  then show ?thesis using assms circ_dist_bounds [of M a x] circ_dist_bounds [of M a b] by simp
qed

lemma am_tx_rebase:
  assumes "am_tx_ok L e" "sn_valid e b" "tx_dist e b \<le> tx_dist e (am_tx_next e)"
    and "\<And>a sdu. heap_sdus (sdus e) a = Some sdu \<Longrightarrow> sdu_sn sdu \<noteq> -1 \<Longrightarrow> tx_dist e b \<le> tx_dist e (sdu_sn sdu)"
  shows "am_tx_ok L (e\<lparr>am_tx_next_ack := b\<rparr>)"
proof -
  let ?e = "e\<lparr>am_tx_next_ack := b\<rparr>"
  have core: "am_tx_core L e" and ord: "am_tx_order e" using assms(1) by (simp_all add: am_tx_ok_def)
  have m: "0 < am_sn_modulus e" using amtx.modulus_pos [OF am_tx_core_base [OF core]] .
  have shift: "tx_dist ?e x = tx_dist e x - tx_dist e b" if "tx_dist e b \<le> tx_dist e x" for x
    using circ_dist_shift [OF m, of "am_tx_next_ack e" b x] that by (simp add: tx_dist_def)
  have sn: "tx_dist e b \<le> tx_dist e (the (seg_sn e s))" if "s \<in> set (am_wait_list e) \<union> set (am_retransmit_list e)" for s
  proof -
    have "s \<in># am_segs e + L" "seg_sn e s \<noteq> Some (-1)" using core that by (auto simp: am_segs_def am_tx_core_def am_tx_sns_def)
    then obtain sdu where "heap_sdus (sdus e) (seg_sdu s) = Some sdu" "seg_sn e s = Some (sdu_sn sdu)" by (elim am_seg_sdu [OF core]) (rule that)
    then show ?thesis using assms(4) [of "seg_sdu s" sdu] \<open>seg_sn e s \<noteq> Some (-1)\<close> by simp
  qed
  have less: "seg_less ?e s t \<longleftrightarrow> seg_less e s t"
    if "s \<in> set (am_wait_list e) \<union> set (am_retransmit_list e)" "t \<in> set (am_wait_list e) \<union> set (am_retransmit_list e)" for s t
    using shift [OF sn [OF that(1)]] shift [OF sn [OF that(2)]] by (simp add: seg_less_def)
  have "sorted_wrt (seg_less e) (am_wait_list e)" "sorted_wrt (seg_less e) (am_retransmit_list e)"
    using ord unfolding am_tx_order_def by blast+
  then have "sorted_wrt (seg_less ?e) (am_wait_list e)" "sorted_wrt (seg_less ?e) (am_retransmit_list e)"
    using less by (auto intro: sorted_wrt_mono_rel [rotated])
  moreover have "0 \<le> tx_dist e b" using m by (simp add: tx_dist_def circ_dist_bounds)
  moreover have near: "tx_dist ?e (sdu_sn sdu) < tx_dist ?e (am_tx_next e)" if "heap_sdus (sdus e) a = Some sdu" "sdu_sn sdu \<noteq> -1" for a sdu
    using that ord shift [OF assms(3)] shift [OF assms(4) [OF that]] unfolding am_tx_order_def by (metis diff_strict_right_mono)
  moreover have "am_window_size ?e = am_window_size e" "am_tx_next ?e = am_tx_next e" "sdus ?e = sdus e" "am_wait_list ?e = am_wait_list e"
    "am_retransmit_list ?e = am_retransmit_list e" by simp_all
  ultimately have "am_tx_order ?e"
    using ord shift [OF assms(3)] unfolding am_tx_order_def by (simp only:) simp
  moreover have "am_tx_core L ?e" using core assms(2) by (simp add: am_tx_defs)
  ultimately show ?thesis by (simp add: am_tx_ok_def)
qed

lemma update_tx_next_ack:
  assumes core: "am_tx_core L e" and v: "sn_valid e ack_sn" "tx_dist e ack_sn \<le> tx_dist e (am_tx_next e)"
    and wait: "\<forall>s \<in> set (am_wait_list e). tx_dist e ack_sn \<le> tx_dist e (the (seg_sn e s))"
  defines "b \<equiv> (case am_retransmit_list e of [] \<Rightarrow> ack_sn
      | s # _ \<Rightarrow> if tx_dist e (the (seg_sn e s)) < tx_dist e ack_sn then the (seg_sn e s) else ack_sn)"
  shows "update_tx_next_ack e ack_sn = Some (e\<lparr>am_tx_next_ack := b\<rparr>)" "sn_valid e b"
proof -
  have base: "am_tx_base e" and nx: "sn_valid e (am_tx_next e)" using core am_tx_core_base by (auto simp: am_tx_core_def am_tx_sns_def)
  have num: "\<exists>sn. seg_sn e s = Some sn \<and> sn_valid e sn" if "s \<in> set (am_wait_list e) \<union> set (am_retransmit_list e)" for s
  proof -
    have "s \<in># am_segs e + L" "seg_sn e s \<noteq> Some (-1)" using core that by (auto simp: am_segs_def am_tx_core_def am_tx_sns_def)
    then show ?thesis by (rule am_seg_numbered [OF core]) blast
  qed
  note cmp = sn_compare_tx_dist [OF base]
  have "\<exists>x. (case am_wait_list e of [] \<Rightarrow> Some (am_tx_next e)
      | s # _ \<Rightarrow> do { sn \<leftarrow> seg_sn e s; Some (if am_sn_compare_tx e sn (am_tx_next e) < 0 then sn else am_tx_next e) }) = Some x \<and>
    sn_valid e x \<and> tx_dist e ack_sn \<le> tx_dist e x"
    using num wait nx v(2) by (cases "am_wait_list e") fastforce+
  then obtain x where x: "(case am_wait_list e of [] \<Rightarrow> Some (am_tx_next e)
      | s # _ \<Rightarrow> do { sn \<leftarrow> seg_sn e s; Some (if am_sn_compare_tx e sn (am_tx_next e) < 0 then sn else am_tx_next e) }) = Some x"
    "sn_valid e x" "tx_dist e ack_sn \<le> tx_dist e x" by blast
  have "update_tx_next_ack e ack_sn = Some (e\<lparr>am_tx_next_ack := b\<rparr>) \<and> sn_valid e b"
  proof (cases "am_retransmit_list e")
    case Nil
    then show ?thesis using x v(1) cmp tx_dist_inj [OF base v(1) x(2)] by (auto simp: update_tx_next_ack_def b_def)
  next
    case (Cons s l)
    then obtain sn where sn: "seg_sn e s = Some sn" "sn_valid e sn" using num by auto
    then show ?thesis using Cons x v(1) cmp tx_dist_inj [OF base] by (auto simp: update_tx_next_ack_def b_def)
  qed
  then show "update_tx_next_ack e ack_sn = Some (e\<lparr>am_tx_next_ack := b\<rparr>)" "sn_valid e b" by simp_all
qed

text \<open>The three phases of the processing.\<close>

definition acked_rest :: "am \<Rightarrow> int \<Rightarrow> seg list \<Rightarrow> seg list \<Rightarrow> bool" where
  "acked_rest e ack_sn l r \<longleftrightarrow> (\<exists>p. l = p @ r \<and> (\<forall>s \<in> set p. tx_dist e (the (seg_sn e s)) < tx_dist e ack_sn)) \<and>
     (\<forall>s \<in> set (take 1 r). tx_dist e ack_sn \<le> tx_dist e (the (seg_sn e s)))"

lemma ctrl_phases:
  assumes core: "am_tx_core L e" and nks: "status_nacks e d e1 nks" "\<forall>nk \<in> set nks. nack_ok e nk" and v: "sn_valid e ack_sn"
  obtains c1 c2 c3 where "process_nacks ack_sn d e1 (ctrl_init e) = Some c1" "ack_wait_list ack_sn c1 = Some c2"
    "ack_retransmit_list ack_sn c2 = Some c3" "all_nacks_run L ack_sn (ctrl_init e) nks c1" "ctrl_ok L c3" "am_ctrl_frame e (c_e c3)"
    "acked_rest (c_e c1) ack_sn (cur_wait c1) (cur_wait c3)" "acked_rest (c_e c1) ack_sn (rtx_cur c1) (rtx_cur c3)"
    "wl_null c3 = wl_null c1" "wl_kept c3 = wl_kept c1" "rtx_new c3 = rtx_new c1" "rtx_link c3 = rtx_link c1"
    "\<forall>t \<in># am_segs (ctrl_am c3) + L. seg_sn (c_e c3) t = seg_sn (c_e c1) t"
proof -
  have init: "ctrl_ok L (ctrl_init e)" "c_e (ctrl_init e) = e" using ctrl_init_ok [OF core] by (simp_all add: ctrl_init_def)
  obtain c1 where c1: "process_nacks ack_sn d e1 (ctrl_init e) = Some c1" "all_nacks_run L ack_sn (ctrl_init e) nks c1" "ctrl_ok L c1" "am_ctrl_frame e (c_e c1)"
    using process_nacks [OF nks init(1) v] init(2) am_ctrl_frame_refl by auto
  note f1 = am_ctrl_frame_cfg [OF c1(4)]
  obtain c2 p where c2: "ack_wait_list ack_sn c1 = Some c2" "ctrl_ok L c2" "am_ctrl_frame (c_e c1) (c_e c2)"
    "cur_wait c1 = p @ cur_wait c2" "wl_null c2 = wl_null c1" "wl_kept c2 = wl_kept c1" "rtx_new c2 = rtx_new c1"
    "rtx_link c2 = rtx_link c1" "rtx_cur c2 = rtx_cur c1"
    "\<forall>s \<in> set p. tx_dist (c_e c1) (the (seg_sn (c_e c1) s)) < tx_dist (c_e c1) ack_sn"
    "\<forall>s \<in> set (take 1 (cur_wait c2)). tx_dist (c_e c1) ack_sn \<le> tx_dist (c_e c1) (the (seg_sn (c_e c1) s))"
    "\<forall>t \<in># am_segs (ctrl_am c2) + L. seg_sn (c_e c2) t = seg_sn (c_e c1) t"
    using ack_wait_list [OF c1(3), of ack_sn] v f1(4) by (elim exE conjE meta_impE) (simp, rule that)
  note f2 = am_ctrl_frame_cfg [OF c2(3)]
  obtain c3 q where c3: "ack_retransmit_list ack_sn c2 = Some c3" "ctrl_ok L c3" "am_ctrl_frame (c_e c2) (c_e c3)"
    "rtx_cur c2 = q @ rtx_cur c3" "wl_null c3 = wl_null c2" "wl_kept c3 = wl_kept c2" "wl_rest c3 = wl_rest c2" "rtx_new c3 = rtx_new c2"
    "rtx_link c3 = rtx_link c2" "\<forall>s \<in> set q. tx_dist (c_e c2) (the (seg_sn (c_e c2) s)) < tx_dist (c_e c2) ack_sn"
    "\<forall>s \<in> set (take 1 (rtx_cur c3)). tx_dist (c_e c2) ack_sn \<le> tx_dist (c_e c2) (the (seg_sn (c_e c2) s))"
    "\<forall>t \<in># am_segs (ctrl_am c3) + L. seg_sn (c_e c3) t = seg_sn (c_e c2) t"
    using ack_retransmit_list [OF c2(2), of ack_sn] v f1(4) f2(4) by (elim exE conjE meta_impE) (simp, rule that)
  have r: "seg_sn (c_e c2) t = seg_sn (c_e c1) t" if "t \<in> set (rtx_cur c2)" for t
    using c2(12) that by (simp add: am_segs_def)
  have tk: "set (take 1 (rtx_cur c3)) \<subseteq> set (rtx_cur c2)" using c3(4) set_take_subset [of 1 "rtx_cur c3"] by auto
  have "acked_rest (c_e c1) ack_sn (rtx_cur c1) (rtx_cur c3)"
    using c3(4,10,11) c2(9) r r [OF subsetD [OF tk]] f2(5) unfolding acked_rest_def by (intro conjI exI [of _ q]) auto
  moreover have "acked_rest (c_e c1) ack_sn (cur_wait c1) (cur_wait c3)"
    using c2(4,10,11) c3(5,7) unfolding acked_rest_def by (auto simp: cur_wait_def)
  moreover have "am_segs (ctrl_am c3) \<subseteq># am_segs (ctrl_am c2)"
    using c3(3-8) by (simp add: am_segs_def am_ctrl_frame_def)
  then have "\<forall>t \<in># am_segs (ctrl_am c3) + L. seg_sn (c_e c3) t = seg_sn (c_e c1) t"
    using c3(12) c2(12) by (metis mset_subset_eqD union_iff)
  ultimately show ?thesis
    using c2(5-8) c3(5-9) by (intro that [OF c1(1) c2(1) c3(1) c1(2) c3(2) am_ctrl_frame_trans [OF c1(4) am_ctrl_frame_trans [OF c2(3) c3(3)]]]) simp_all
qed

lemma acked_rest_filter:
  assumes "acked_rest e ack_sn l r" "sorted_wrt (seg_less e) l"
  shows "r = filter (\<lambda>s. tx_dist e ack_sn \<le> tx_dist e (the (seg_sn e s))) l"
proof -
  obtain p where p: "l = p @ r" "\<forall>s \<in> set p. tx_dist e (the (seg_sn e s)) < tx_dist e ack_sn"
    "\<forall>s \<in> set (take 1 r). tx_dist e ack_sn \<le> tx_dist e (the (seg_sn e s))" using assms(1) by (auto simp: acked_rest_def)
  have "tx_dist e ack_sn \<le> tx_dist e (the (seg_sn e s))" if "s \<in> set r" for s
    using that p(1,3) assms(2) by (cases r) (auto simp: sorted_wrt_append seg_less_def)
  then show ?thesis using p(1,2) by (simp add: filter_empty_conv not_le)
qed

lemma filter_mset_tail:
  assumes "\<forall>s \<in> set r. \<not> P s"
  shows "filter_mset P (mset p) = filter_mset P (mset (p @ r))"
  using assms by (simp add: mset_filter [symmetric] filter_empty_conv del: mset_filter)

text \<open>What is left of the lists when the NACKs are in order and below ACK_SN.\<close>

lemma status_lists:
  assumes ok: "am_tx_ok L e" and pr: "nack_progress e L ack_sn items items c1"
    and rest: "acked_rest (c_e c1) ack_sn (cur_wait c1) w" "acked_rest (c_e c1) ack_sn (rtx_cur c1) r"
  defines "nacked \<equiv> \<lambda>s. \<exists>x \<in> set items. item_hits e x s" and "beyond \<equiv> \<lambda>s. tx_dist e ack_sn \<le> tx_dist e (the (seg_sn e s))"
  shows "w = filter beyond (am_wait_list e)" "r = filter beyond (am_retransmit_list e)"
    "mset (rtx_new c1) = filter_mset nacked (mset (am_wait_list e) + mset (am_retransmit_list e))"
    "sorted_wrt (seg_less e) (rtx_new c1 @ r)"
proof -
  note d = nack_progressD [OF pr] and ord = ok [unfolded am_tx_ok_def, THEN conjunct2]
  from pr obtain wp rp where p: "am_wait_list e = wp @ wl_rest c1" "am_retransmit_list e = rp @ rtx_cur c1"
    "mset (rtx_new c1) = filter_mset nacked (mset wp + mset rp)" "\<forall>s \<in> set wp \<union> set rp. tx_dist e (the (seg_sn e s)) < tx_dist e ack_sn"
    unfolding nack_progress_def nacked_def by blast
  have conv: "acked_rest e ack_sn l l'" if a: "acked_rest (c_e c1) ack_sn l l'" "set l \<subseteq> set (wl_rest c1) \<union> set (rtx_cur c1)" for l l'
  proof -
    have sn: "seg_sn (c_e c1) t = seg_sn e t" if "t \<in> set l" for t using d(6) that a(2) by blast
    have "set (take 1 l') \<subseteq> set l" using a(1) set_take_subset [of 1 l'] by (auto simp: acked_rest_def)
    then show ?thesis using a(1) sn am_ctrl_frame_cfg(5) [OF d(1)] unfolding acked_rest_def by (auto simp: subset_iff)
  qed
  have w: "w = filter beyond (wl_rest c1)" "r = filter beyond (rtx_cur c1)"
    using acked_rest_filter [OF conv [OF rest(1)]] acked_rest_filter [OF conv [OF rest(2)]] d(5,9,10) ord by (auto simp: beyond_def)
  have none: "filter beyond wp = []" "filter beyond rp = []" using p(4) unfolding filter_empty_conv beyond_def by (meson UnI1 UnI2 not_le)+
  show "w = filter beyond (am_wait_list e)" "r = filter beyond (am_retransmit_list e)" using w none p(1,2) by simp_all
  have un: "\<forall>s \<in> set (wl_rest c1). \<not> nacked s" "\<forall>s \<in> set (rtx_cur c1). \<not> nacked s"
    using pr unfolding nack_progress_def nacked_def by blast+
  show "mset (rtx_new c1) = filter_mset nacked (mset (am_wait_list e) + mset (am_retransmit_list e))"
    using p(3) filter_mset_tail [OF un(1), of wp] filter_mset_tail [OF un(2), of rp] unfolding p(1,2) by (metis filter_union_mset)
  have "sorted_wrt (seg_less e) r" using w(2) d(10) [OF ord] by (simp add: sorted_wrt_filter)
  moreover have "sorted_wrt (seg_less e) (rtx_new c1)" "\<forall>s \<in> set (rtx_new c1). \<forall>t \<in> set (rtx_cur c1). seg_less e s t"
    using pr unfolding nack_progress_def by blast+
  ultimately show "sorted_wrt (seg_less e) (rtx_new c1 @ r)" using w(2) by (simp add: sorted_wrt_append)
qed

text \<open>A status PDU makes the entity forget what is acknowledged and move what is not to the retransmit list.\<close>

definition ack_bound :: "am \<Rightarrow> int \<Rightarrow> seg list \<Rightarrow> int" where
  "ack_bound e ack_sn l = (case l of [] \<Rightarrow> ack_sn
     | s # _ \<Rightarrow> if tx_dist e (the (seg_sn e s)) < tx_dist e ack_sn then the (seg_sn e s) else ack_sn)"

lemma ack_bound_le:
  assumes "sorted_wrt (seg_less e) l"
  shows "tx_dist e (ack_bound e ack_sn l) \<le> tx_dist e ack_sn"
    "s \<in> set l \<Longrightarrow> tx_dist e (ack_bound e ack_sn l) \<le> tx_dist e (the (seg_sn e s))"
  using assms by (cases l; auto simp: ack_bound_def seg_less_def)+

lemma am_tx_rebase_ack:
  assumes ok: "am_tx_ok {#} e" and v: "sn_valid e ack_sn" "tx_dist e ack_sn \<le> tx_dist e (am_tx_next e)"
    and wait: "\<forall>s \<in> set (am_wait_list e). tx_dist e ack_sn \<le> tx_dist e (the (seg_sn e s))"
    and unsent: "\<forall>s \<in> set (am_tx_list e). \<not> seg_is_first s \<longrightarrow> tx_dist e ack_sn \<le> tx_dist e (the (seg_sn e s))"
  defines "b \<equiv> ack_bound e ack_sn (am_retransmit_list e)"
  shows "update_tx_next_ack e ack_sn = Some (e\<lparr>am_tx_next_ack := b\<rparr>)" "am_tx_ok {#} (e\<lparr>am_tx_next_ack := b\<rparr>)"
proof -
  have core: "am_tx_core {#} e" and ord: "am_tx_order e" using ok by (simp_all add: am_tx_ok_def)
  note upd = update_tx_next_ack [OF core v wait, folded ack_bound_def b_def]
  show "update_tx_next_ack e ack_sn = Some (e\<lparr>am_tx_next_ack := b\<rparr>)" by (rule upd(1))
  have "sorted_wrt (seg_less e) (am_retransmit_list e)" using ord by (simp add: am_tx_order_def)
  note le = ack_bound_le [OF this, where ack_sn = ack_sn, folded b_def]
  show "am_tx_ok {#} (e\<lparr>am_tx_next_ack := b\<rparr>)"
  proof (rule am_tx_rebase [OF ok upd(2)])
    show "tx_dist e b \<le> tx_dist e (am_tx_next e)" using le(1) v(2) by simp
    fix a sdu assume a: "heap_sdus (sdus e) a = Some sdu" "sdu_sn sdu \<noteq> -1"
    have "heap_ok (sdus e) (am_segs e)" using core by (simp add: am_tx_core_def am_tx_mem_def)
    then obtain t where t: "t \<in># am_segs e" "seg_sdu t = a"
      using heap_okD(5) [OF _ a(1)] refs_eq_0 [of a "am_segs e"] by (metis less_irrefl)
    have st: "seg_sn e t = Some (sdu_sn sdu)" using a t by (simp add: seg_sn_def)
    have "t \<in> set (am_tx_list e) \<Longrightarrow> \<not> seg_is_first t" using core st a(2) by (auto simp: am_tx_core_def am_tx_sns_def)
    then have "tx_dist e b \<le> tx_dist e (the (seg_sn e t))"
      using t(1) le unsent wait by (fastforce simp: am_segs_def)
    then show "tx_dist e b \<le> tx_dist e (sdu_sn sdu)" using st by simp
  qed
qed

lemma process_status:
  assumes ok: "am_tx_ok {#} e" and nks: "status_nacks e d e1 nks" "\<forall>nk \<in> set nks. nack_ok e nk"
    and v: "sn_valid e ack_sn" "tx_dist e ack_sn \<le> tx_dist e (am_tx_next e)"
    and items: "items = concat (map (nack_items (am_sn_modulus e)) nks)"
    and wf: "sorted_wrt (item_le e) items" "\<forall>x \<in> set items. tx_dist e (fst x) < tx_dist e ack_sn"
    and unsent: "\<forall>s \<in> set (am_tx_list e). \<not> seg_is_first s \<longrightarrow> tx_dist e ack_sn \<le> tx_dist e (the (seg_sn e s))"
    and nacked: "nacked = (\<lambda>s. \<exists>x \<in> set items. item_hits e x s)"
    and beyond: "beyond = (\<lambda>s. tx_dist e ack_sn \<le> tx_dist e (the (seg_sn e s)))"
  obtains c1 c2 c3 e' where "process_nacks ack_sn d e1 (ctrl_init e) = Some c1" "ack_wait_list ack_sn c1 = Some c2"
    "ack_retransmit_list ack_sn c2 = Some c3" "update_tx_next_ack (ctrl_finish c3) ack_sn = Some e'"
    "am_ctrl_frame e (e'\<lparr>am_tx_next_ack := am_tx_next_ack e, am_wait_end := am_wait_end e\<rparr>)" "am_tx_ok {#} e'"
    "am_wait_list e' = filter beyond (am_wait_list e)"
    "mset (am_retransmit_list e') = filter_mset nacked (mset (am_wait_list e) + mset (am_retransmit_list e)) + filter_mset beyond (mset (am_retransmit_list e))"
    "am_tx_next_ack e' = ack_bound e ack_sn (am_retransmit_list e')"
proof -
  have core: "am_tx_core {#} e" and ord: "am_tx_order e" using ok by (simp_all add: am_tx_ok_def)
  obtain c1 c2 c3 where c: "process_nacks ack_sn d e1 (ctrl_init e) = Some c1" "ack_wait_list ack_sn c1 = Some c2"
    "ack_retransmit_list ack_sn c2 = Some c3" and run: "all_nacks_run {#} ack_sn (ctrl_init e) nks c1"
    and ok3: "ctrl_ok {#} c3" and fr3: "am_ctrl_frame e (c_e c3)"
    and rest: "acked_rest (c_e c1) ack_sn (cur_wait c1) (cur_wait c3)" "acked_rest (c_e c1) ack_sn (rtx_cur c1) (rtx_cur c3)"
    and same: "wl_null c3 = wl_null c1" "wl_kept c3 = wl_kept c1" "rtx_new c3 = rtx_new c1" "rtx_link c3 = rtx_link c1"
    and sn3: "\<forall>t \<in># am_segs (ctrl_am c3) + {#}. seg_sn (c_e c3) t = seg_sn (c_e c1) t"
    by (rule ctrl_phases [OF core nks v(1)], rule that)
  have "nack_progress e {#} ack_sn items [] (ctrl_init e)"
    using ord by (simp add: nack_progress_def ctrl_init_def am_ctrl_frame_refl am_tx_order_def ctrl_am_def ctrl_finish_def)
  then have pr: "nack_progress e {#} ack_sn items items c1" by (rule nack_progress_all [OF run ok _ _ wf]) (simp add: items)
  note d = nack_progressD [OF pr]
  note l = status_lists [OF ok pr rest, folded nacked beyond]
  define f where "f = ctrl_finish c3"
  have f: "f = ctrl_am c3" using same(4) d(2) by (simp add: f_def ctrl_am_def am_view_frame)
  have wl: "am_wait_list f = filter beyond (am_wait_list e)" "am_retransmit_list f = rtx_new c1 @ rtx_cur c3"
    using same d(3,4) l(1) by (simp_all add: f_def ctrl_finish_def cur_wait_def)
  have coref: "am_tx_core {#} f" using ok3 same(4) d(2) f by (simp add: ctrl_ok_def)
  have "am_segs (ctrl_am c3) \<subseteq># am_segs (ctrl_am c1)"
    using rest same fr3 d(1,3) by (auto simp: am_segs_def am_ctrl_frame_def acked_rest_def cur_wait_def)
  then have sn: "seg_sn f t = seg_sn e t" if "t \<in># am_segs f" for t
    using sn3 pr that f unfolding nack_progress_def by (simp add: mset_subset_eqD)
  have frf: "am_ctrl_frame e (f\<lparr>am_wait_end := am_wait_end e\<rparr>)" using fr3 by (simp add: f_def ctrl_finish_def am_ctrl_frame_def am_rxv_def)
  note fr = am_ctrl_frame_cfg [OF frf]
  have dist: "tx_dist f = tx_dist e" "sn_valid f = sn_valid e" using fr(4,5) by simp_all
  have sorted: "sorted_wrt (seg_less e) (am_wait_list f)" "sorted_wrt (seg_less e) (am_retransmit_list f)"
    using ord l(4) wl by (simp_all add: am_tx_order_def sorted_wrt_filter)
  have "am_tx_order (f\<lparr>am_wait_end := am_wait_end e\<rparr>)"
    by (rule am_tx_order_sub [OF ord _ _ frf, of "{#}"]) (use coref sn sorted in \<open>simp_all add: am_tx_core_def am_tx_mem_def am_segs_def\<close>)
  then have okf: "am_tx_ok {#} f" using coref by (simp add: am_tx_ok_def am_tx_order_def)
  have next_f: "am_tx_next f = am_tx_next e" "am_tx_list f = am_tx_list e" using frf by (simp_all add: am_ctrl_frame_def)
  have snl: "seg_sn f t = seg_sn e t" if "t \<in> set (am_wait_list f) \<union> set (am_retransmit_list f) \<union> set (am_tx_list f)" for t
    using sn that by (auto simp: am_segs_def)
  define b where "b = ack_bound e ack_sn (am_retransmit_list f)"
  have w: "\<forall>s \<in> set (am_wait_list f). tx_dist f ack_sn \<le> tx_dist f (the (seg_sn f s))" using wl snl dist by (auto simp: beyond)
  have u: "\<forall>s \<in> set (am_tx_list f). \<not> seg_is_first s \<longrightarrow> tx_dist f ack_sn \<le> tx_dist f (the (seg_sn f s))"
    using unsent snl dist next_f(2) by auto
  have "ack_bound f ack_sn (am_retransmit_list f) = b" using snl dist by (auto simp: b_def ack_bound_def split: list.split)
  then have b: "update_tx_next_ack f ack_sn = Some (f\<lparr>am_tx_next_ack := b\<rparr>)" "am_tx_ok {#} (f\<lparr>am_tx_next_ack := b\<rparr>)"
    using am_tx_rebase_ack [OF okf _ _ w u] v dist next_f by simp_all
  have "mset (am_retransmit_list f) = filter_mset nacked (mset (am_wait_list e) + mset (am_retransmit_list e)) + filter_mset beyond (mset (am_retransmit_list e))"
    using wl(2) l(2,3) by simp
  moreover have "am_ctrl_frame e (f\<lparr>am_tx_next_ack := b, am_tx_next_ack := am_tx_next_ack e, am_wait_end := am_wait_end e\<rparr>)"
    using frf by (simp add: am_ctrl_frame_def am_rxv_def)
  ultimately show ?thesis using wl(1) b by (intro that [OF c(1-3), of "f\<lparr>am_tx_next_ack := b\<rparr>"]) (simp_all add: f_def [symmetric] b_def)
qed

text \<open>Before the NACKs are processed, the timer is stopped when the poll is acknowledged.\<close>

definition stop_t_poll :: "am \<Rightarrow> int \<Rightarrow> am" where
  "stop_t_poll e ack_sn = (if am_sn_compare_tx e (am_poll_sn e) ack_sn < 0 then e\<lparr>am_t_poll_retransmit_start := 0\<rparr> else e)"

lemma stop_t_poll [simp]:
  "am_txv (stop_t_poll e ack_sn) = am_txv e" "am_rxv (stop_t_poll e ack_sn) = am_rxv e"
  "tx_dist (stop_t_poll e ack_sn) = tx_dist e" "seg_sn (stop_t_poll e ack_sn) = seg_sn e" "sn_valid (stop_t_poll e ack_sn) = sn_valid e"
  "am_sn_modulus (stop_t_poll e ack_sn) = am_sn_modulus e" "am_tx_next (stop_t_poll e ack_sn) = am_tx_next e"
  "am_tx_next_ack (stop_t_poll e ack_sn) = am_tx_next_ack e" "am_tx_list (stop_t_poll e ack_sn) = am_tx_list e"
  "am_wait_list (stop_t_poll e ack_sn) = am_wait_list e" "am_retransmit_list (stop_t_poll e ack_sn) = am_retransmit_list e"
  "am_sn_field_length (stop_t_poll e ack_sn) = am_sn_field_length e" "sdus (stop_t_poll e ack_sn) = sdus e"
  by (simp_all add: stop_t_poll_def)

lemma status_nacks_cong:
  assumes "read_nack e' = read_nack e" "status_nacks e d e1 nks"
  shows "status_nacks e' d e1 nks"
  using assms(2) by (induction rule: status_nacks.induct) (auto intro: status_nacks.intros simp: assms(1))

lemma stop_t_poll_nacks [simp]:
  "status_nacks (stop_t_poll e ack_sn) = status_nacks e" "item_le (stop_t_poll e ack_sn) = item_le e"
  "item_hits (stop_t_poll e ack_sn) = item_hits e" "nack_ok (stop_t_poll e ack_sn) = nack_ok e"
  "ack_bound (stop_t_poll e ack_sn) = ack_bound e"
proof -
  have "read_nack (stop_t_poll e ack_sn) = read_nack e" by (simp add: read_nack_def fun_eq_iff)
  then show "status_nacks (stop_t_poll e ack_sn) = status_nacks e"
    using status_nacks_cong [of "stop_t_poll e ack_sn" e] status_nacks_cong [of e "stop_t_poll e ack_sn"] by (auto simp: fun_eq_iff)
qed (simp_all add: item_le_def item_hits_def nack_hits_def nack_ok_def ack_bound_def fun_eq_iff split: list.split)

lemma process_control_pdu_run:
  assumes "validate_control_pdu e buf sz = Some (Some (ack_sn, e1, d))"
  shows "process_control_pdu e buf sz = do {
     c \<leftarrow> process_nacks ack_sn d e1 (ctrl_init (stop_t_poll e ack_sn));
     c \<leftarrow> ack_wait_list ack_sn c;
     c \<leftarrow> ack_retransmit_list ack_sn c;
     update_tx_next_ack (ctrl_finish c) ack_sn }"
  using assms by (simp add: process_control_pdu_def stop_t_poll_def Let_def)

lemma status_pdu_facts:
  assumes "am_cfg e" "am_tx_base e" "sn_valid e (am_tx_next e)" "0 \<le> sz" "sz \<le> int (length buf)" "status_pdu e buf sz ack_sn nks"
  obtains e1 d where "validate_control_pdu e buf sz = Some (Some (ack_sn, e1, d))" "status_nacks e d e1 nks" "sn_valid e ack_sn"
    "tx_dist e ack_sn \<le> tx_dist e (am_tx_next e)" "\<forall>nk \<in> set nks. nack_ok e nk"
proof -
  from assms(6) obtain e1 d where v: "validate_control_pdu e buf sz = Some (Some (ack_sn, e1, d))" "status_nacks e d e1 nks"
    by (auto simp: status_pdu_def)
  show ?thesis
  proof (rule validate_control_pdu [OF assms(1,4,5)])
    assume "validate_control_pdu e buf sz = Some None"
    then show ?thesis using v(1) by simp
  next
    fix ack_sn' e1' d' nks'
    assume w: "validate_control_pdu e buf sz = Some (Some (ack_sn', e1', d'))" "status_nacks e d' e1' nks'" "sn_valid e ack_sn'"
      "am_sn_compare_tx e ack_sn' (am_tx_next e) \<le> 0" "\<forall>nk \<in> set nks'. nack_ok e nk"
    then have "nks' = nks" "ack_sn' = ack_sn" using v status_nacks_unique by auto
    then show ?thesis using that [OF v] w(3-5) sn_compare_tx_dist [OF assms(2), of ack_sn "am_tx_next e"] assms(3) by simp
  qed
qed

text \<open>A status PDU of a peer that knows what it received.\<close>

definition status_wf :: "am \<Rightarrow> int \<Rightarrow> nack_item list \<Rightarrow> bool" where
  "status_wf e ack_sn items \<longleftrightarrow> sorted_wrt (item_le e) items \<and> (\<forall>x \<in> set items. tx_dist e (fst x) < tx_dist e ack_sn) \<and>
     (\<forall>s \<in> set (am_tx_list e). \<not> seg_is_first s \<longrightarrow> tx_dist e ack_sn \<le> tx_dist e (the (seg_sn e s)))"

definition status_items :: "am \<Rightarrow> nack_t list \<Rightarrow> nack_item list" where
  "status_items e nks = concat (map (nack_items (am_sn_modulus e)) nks)"

definition seg_nacked :: "am \<Rightarrow> nack_item list \<Rightarrow> seg \<Rightarrow> bool" where
  "seg_nacked e items s \<longleftrightarrow> (\<exists>x \<in> set items. item_hits e x s)"

definition seg_beyond :: "am \<Rightarrow> int \<Rightarrow> seg \<Rightarrow> bool" where
  "seg_beyond e ack_sn s \<longleftrightarrow> tx_dist e ack_sn \<le> tx_dist e (the (seg_sn e s))"

lemma process_status_pdu:
  assumes ok: "am_tx_ok {#} e" and sz: "0 \<le> sz" "sz \<le> int (length buf)" and pdu: "status_pdu e buf sz ack_sn nks"
    and wf: "status_wf e ack_sn (status_items e nks)"
  obtains e' out where "process_control_pdu e buf sz = Some e'" "am_tx_ok {#} e'"
    "am_wait_list e' = filter (seg_beyond e ack_sn) (am_wait_list e)"
    "mset (am_retransmit_list e') = filter_mset (seg_nacked e (status_items e nks)) (mset (am_wait_list e) + mset (am_retransmit_list e)) +
       filter_mset (seg_beyond e ack_sn) (mset (am_retransmit_list e))"
    "am_tx_next_ack e' = ack_bound e ack_sn (am_retransmit_list e')" "am_tx_list e' = am_tx_list e" "am_tx_next e' = am_tx_next e"
    "am_rxv e' = am_rxv (e\<lparr>ev := ev e @ out\<rparr>)" "\<forall>d. Deliver_sdu d \<notin> set out"
proof -
  have core: "am_tx_core {#} e" using ok by (simp add: am_tx_ok_def)
  have cfg: "am_cfg e" "am_tx_base e" "sn_valid e (am_tx_next e)" using core am_tx_core_base by (auto simp: am_tx_core_def am_tx_sns_def)
  let ?e = "stop_t_poll e ack_sn" and ?items = "status_items e nks"
  obtain e1 d where v: "validate_control_pdu e buf sz = Some (Some (ack_sn, e1, d))" "status_nacks e d e1 nks" "sn_valid e ack_sn"
    "tx_dist e ack_sn \<le> tx_dist e (am_tx_next e)" "\<forall>nk \<in> set nks. nack_ok e nk"
    by (rule status_pdu_facts [OF cfg sz pdu], rule that)
  have ok1: "am_tx_ok {#} ?e" using ok am_tx_ok_cong [of ?e e] by simp
  have it: "?items = concat (map (nack_items (am_sn_modulus ?e)) nks)" by (simp add: status_items_def)
  have nb: "seg_nacked e ?items = (\<lambda>s. \<exists>x \<in> set ?items. item_hits ?e x s)"
    "seg_beyond e ack_sn = (\<lambda>s. tx_dist ?e ack_sn \<le> tx_dist ?e (the (seg_sn ?e s)))" by (simp_all add: seg_nacked_def seg_beyond_def fun_eq_iff)
  obtain c1 c2 c3 e' where c: "process_nacks ack_sn d e1 (ctrl_init ?e) = Some c1" "ack_wait_list ack_sn c1 = Some c2"
    "ack_retransmit_list ack_sn c2 = Some c3" "update_tx_next_ack (ctrl_finish c3) ack_sn = Some e'"
    and r: "am_ctrl_frame ?e (e'\<lparr>am_tx_next_ack := am_tx_next_ack ?e, am_wait_end := am_wait_end ?e\<rparr>)" "am_tx_ok {#} e'"
    "am_wait_list e' = filter (seg_beyond e ack_sn) (am_wait_list ?e)"
    "mset (am_retransmit_list e') = filter_mset (seg_nacked e ?items) (mset (am_wait_list ?e) + mset (am_retransmit_list ?e)) +
       filter_mset (seg_beyond e ack_sn) (mset (am_retransmit_list ?e))"
    "am_tx_next_ack e' = ack_bound ?e ack_sn (am_retransmit_list e')"
    by (rule process_status [OF ok1 _ _ _ _ it _ _ _ nb]) (use v wf that in \<open>simp_all add: status_wf_def\<close>)
  from r(1) obtain out where out: "am_rxv e' = am_rxv (?e\<lparr>ev := ev ?e @ out\<rparr>)" "\<forall>d. Deliver_sdu d \<notin> set out"
    by (auto simp: am_ctrl_frame_def am_rxv_def)
  have "process_control_pdu e buf sz = Some e'" using process_control_pdu_run [OF v(1)] c by simp
  moreover have "am_rxv e' = am_rxv (e\<lparr>ev := ev e @ out\<rparr>)" using out(1) by (simp add: am_rxv_def stop_t_poll_def)
  moreover have "am_tx_list e' = am_tx_list e" "am_tx_next e' = am_tx_next e" using r(1) by (simp_all add: am_ctrl_frame_def)
  ultimately show ?thesis using r(2-5) out(2) by (intro that [of e' out]) simp_all
qed

lemma update_tx_next_ack_returns:
  assumes "\<And>s. s \<in> set (am_wait_list e) \<union> set (am_retransmit_list e) \<Longrightarrow> seg_sn e s \<noteq> None"
  shows "\<exists>b. update_tx_next_ack e ack_sn = Some (e\<lparr>am_tx_next_ack := b\<rparr>)"
proof -
  have step: "\<exists>y. (case l of [] \<Rightarrow> Some x | s # _ \<Rightarrow> do { sn \<leftarrow> seg_sn e s; Some (if am_sn_compare_tx e sn x < 0 then sn else x) }) = Some y"
    if "set l \<subseteq> set (am_wait_list e) \<union> set (am_retransmit_list e)" for l and x :: int
  proof (cases l)
    case (Cons s k)
    then have "seg_sn e s \<noteq> None" using assms [of s] that by auto
    then show ?thesis using Cons by auto
  qed simp
  obtain x where x: "(case am_wait_list e of [] \<Rightarrow> Some (am_tx_next e)
      | s # _ \<Rightarrow> do { sn \<leftarrow> seg_sn e s; Some (if am_sn_compare_tx e sn (am_tx_next e) < 0 then sn else am_tx_next e) }) = Some x"
    using step [of "am_wait_list e" "am_tx_next e"] by blast
  obtain y where y: "(case am_retransmit_list e of [] \<Rightarrow> Some x
      | s # _ \<Rightarrow> do { sn \<leftarrow> seg_sn e s; Some (if am_sn_compare_tx e sn x < 0 then sn else x) }) = Some y"
    using step [of "am_retransmit_list e" x] by blast
  show ?thesis unfolding update_tx_next_ack_def Let_def x y bind.bind_lunit by blast
qed

text \<open>Whatever the bytes: the entity returns and its memory is in order, except that segments may be in no list.\<close>

lemma process_control_pdu_safe:
  assumes ok: "am_tx_ok {#} e" and sz: "0 \<le> sz" "sz \<le> int (length buf)"
  shows "\<exists>e' L out. process_control_pdu e buf sz = Some e' \<and> am_tx_mem L e' \<and>
    am_rxv e' = am_rxv (e\<lparr>ev := ev e @ out\<rparr>) \<and> (\<forall>d. Deliver_sdu d \<notin> set out)"
proof -
  have core: "am_tx_core {#} e" using ok by (simp add: am_tx_ok_def)
  have cfg: "am_cfg e" and mem: "am_tx_mem {#} e" using core by (auto simp: am_tx_core_def)
  show ?thesis
  proof (rule validate_control_pdu [OF cfg sz])
    assume "validate_control_pdu e buf sz = Some None"
    then show ?thesis using mem by (intro exI [of _ e] exI [of _ "{#}"] exI [of _ "[]"]) (simp add: process_control_pdu_def)
  next
    fix ack_sn e1 d nks
    assume v: "validate_control_pdu e buf sz = Some (Some (ack_sn, e1, d))" "status_nacks e d e1 nks" "sn_valid e ack_sn" "\<forall>nk \<in> set nks. nack_ok e nk"
    let ?e = "stop_t_poll e ack_sn"
    have core1: "am_tx_core {#} ?e" using core am_tx_core_cong [of ?e e] by simp
    obtain c1 c2 c3 where c: "process_nacks ack_sn d e1 (ctrl_init ?e) = Some c1" "ack_wait_list ack_sn c1 = Some c2"
      "ack_retransmit_list ack_sn c2 = Some c3" "ctrl_ok {#} c3" "am_ctrl_frame ?e (c_e c3)"
      by (rule ctrl_phases [OF core1, of d e1 nks ack_sn]) (use v that in simp_all)
    define f where "f = ctrl_finish c3"
    have core3: "am_tx_core (mset (rtx_link c3)) (ctrl_am c3)" using c(4) by (simp add: ctrl_ok_def)
    then have memf: "am_tx_mem (mset (rtx_link c3)) f" by (simp add: am_tx_core_def am_tx_mem_def am_segs_def f_def ctrl_am_def)
    have "seg_sn f s \<noteq> None" if "s \<in> set (am_wait_list f) \<union> set (am_retransmit_list f)" for s
      using memf heap_okD(3) [of "sdus f" "am_segs f + mset (rtx_link c3)" s] that by (auto simp: am_tx_mem_def am_segs_def seg_sn_def)
    then obtain b where b: "update_tx_next_ack f ack_sn = Some (f\<lparr>am_tx_next_ack := b\<rparr>)"
      using update_tx_next_ack_returns [of f ack_sn] by blast
    from c(5) obtain out where "am_rxv (c_e c3) = am_rxv (e\<lparr>ev := ev e @ out\<rparr>)" "\<forall>d. Deliver_sdu d \<notin> set out"
      by (auto simp: am_ctrl_frame_def am_rxv_def stop_t_poll_def split: if_splits)
    moreover from this(1) have "am_rxv (f\<lparr>am_tx_next_ack := b\<rparr>) = am_rxv (e\<lparr>ev := ev e @ out\<rparr>)"
      by (simp add: f_def ctrl_finish_def am_rxv_def)
    moreover have "process_control_pdu e buf sz = Some (f\<lparr>am_tx_next_ack := b\<rparr>)"
      using process_control_pdu_run [OF v(1)] c(1-3) b by (simp add: f_def)
    moreover have "am_tx_mem (mset (rtx_link c3)) (f\<lparr>am_tx_next_ack := b\<rparr>)" using memf by (simp add: am_tx_mem_def am_segs_def)
    ultimately show ?thesis by blast
  qed
qed

text \<open>
  A NACK with the sequence number of ACK_SN, behind the first segment to be sent again, while nothing waits
  for an acknowledgement: the retransmit list is cut off.
\<close>

lemma process_nack_loses:
  assumes ok: "am_tx_ok {#} e" and l: "am_wait_list e = []" "am_retransmit_list e = s # l" "seg_sn e s = Some ack_sn"
    and v: "sn_valid e ack_sn" and so: "0 < seg_size s" "seg_so s + seg_size s \<le> so_start"
  shows "process_nack ack_sn ack_sn so_start so_end (ctrl_init e) =
    Some (Lists_over, (ctrl_init e)\<lparr>rtx_link := s # l, rtx_cur := []\<rparr>)"
proof -
  have core: "am_tx_core {#} e" using ok by (simp add: am_tx_ok_def)
  have "\<exists>sdu. seg_fits sdu s" by (rule am_seg_sdu [OF core, of s]) (use l in \<open>auto simp: am_segs_def\<close>)
  then have s: "0 \<le> seg_so s" by (auto simp: seg_fits_def)
  have "am_sn_compare_tx e ack_sn ack_sn = 0" using sn_compare_tx_dist [OF am_tx_core_base [OF core] v v] by simp
  then show ?thesis
    using l so s by (subst process_nack.simps)
      (simp add: process_next_pdu_def ctrl_init_def cur_wait_def process_retransmit_list_head_def so_overlap_def)
qed

lemma process_nacks_one:
  assumes "read_nack (c_e c) d = Some (nk, d')" "e1 \<noteq> 0" "nk_e1 nk = 0" "nk_range nk = 1"
    and "process_nack_range 1 ack_sn (nk_sn nk) (nk_so_start nk) (nk_so_end nk) 1 c = Some c1"
  shows "\<exists>t. process_nacks ack_sn d e1 c = Some (c1\<lparr>c_e := (c_e c1)\<lparr>am_t_poll_retransmit_start := t\<rparr>\<rparr>)"
proof -
  have stop: "process_nacks ack_sn d' 0 c2 = Some c2" for c2 by (subst process_nacks.simps) simp
  have "\<exists>c2. process_nacks ack_sn d e1 c = Some c2 \<and> (c2 = c1 \<or> c2 = c1\<lparr>c_e := (c_e c1)\<lparr>am_t_poll_retransmit_start := 0\<rparr>\<rparr>)"
    using assms by (subst process_nacks.simps) (simp add: stop Let_def split: if_split del: process_nack_range.simps)
  then show ?thesis
  proof (elim exE conjE disjE)
    fix c2 assume "process_nacks ack_sn d e1 c = Some c2" "c2 = c1"
    then show ?thesis by (intro exI [of _ "am_t_poll_retransmit_start (c_e c1)"]) simp
  qed blast
qed

lemma process_status_loses:
  assumes ok: "am_tx_ok {#} e" and sz: "0 \<le> sz" "sz \<le> int (length buf)"
    and pdu: "status_pdu e buf sz ack_sn [nk]" "nk_sn nk = ack_sn" "nk_range nk = 1"
    and l: "am_wait_list e = []" "am_retransmit_list e = s # l" "seg_sn e s = Some ack_sn"
    and so: "0 < seg_size s" "seg_so s + seg_size s \<le> nk_so_start nk"
  shows "\<exists>e'. process_control_pdu e buf sz = Some e' \<and> am_wait_list e' = [] \<and> am_retransmit_list e' = [] \<and>
    am_tx_list e' = am_tx_list e \<and> sdus e' = sdus e"
proof -
  have core: "am_tx_core {#} e" using ok by (simp add: am_tx_ok_def)
  have cfg: "am_cfg e" "am_tx_base e" "sn_valid e (am_tx_next e)" using core am_tx_core_base by (auto simp: am_tx_core_def am_tx_sns_def)
  obtain e1 d where v: "validate_control_pdu e buf sz = Some (Some (ack_sn, e1, d))" "status_nacks e d e1 [nk]" "sn_valid e ack_sn"
    by (rule status_pdu_facts [OF cfg sz pdu(1)], rule that)
  let ?e = "stop_t_poll e ack_sn"
  define c1 where "c1 = (ctrl_init ?e)\<lparr>rtx_link := s # l, rtx_cur := []\<rparr>"
  have ok1: "am_tx_ok {#} ?e" using ok am_tx_ok_cong [of ?e e] by simp
  have nk: "process_nack ack_sn ack_sn (nk_so_start nk) (nk_so_end nk) (ctrl_init ?e) = Some (Lists_over, c1)"
    unfolding c1_def by (rule process_nack_loses [OF ok1]) (use l v(3) so in simp_all)
  from v(2) obtain d' where e1: "e1 \<noteq> 0" "read_nack ?e d = Some (nk, d')" "nk_e1 nk = 0"
    by (cases rule: status_nacks.cases) (auto elim!: status_nacks.cases simp: read_nack_def)
  have m: "cmod ack_sn (am_sn_modulus e) = ack_sn" using v(3) by (simp add: sn_valid_def)
  have "process_nack_range 1 ack_sn ack_sn (nk_so_start nk) (nk_so_end nk) 1 (ctrl_init ?e) = Some c1"
    using nk m by (simp add: One_nat_def numeral_eq_Suc ctrl_init_def)
  then obtain t where run: "process_nacks ack_sn d e1 (ctrl_init ?e) = Some (c1\<lparr>c_e := ?e\<lparr>am_t_poll_retransmit_start := t\<rparr>\<rparr>)"
    using process_nacks_one [of "ctrl_init ?e" d nk d' e1 ack_sn c1] e1 pdu(2,3) by (auto simp: c1_def ctrl_init_def)
  let ?c = "c1\<lparr>c_e := ?e\<lparr>am_t_poll_retransmit_start := t\<rparr>\<rparr>"
  have "cur_wait ?c = []" "rtx_cur ?c = []" using l by (simp_all add: cur_wait_def c1_def ctrl_init_def)
  then have fin: "ack_wait_list ack_sn ?c = Some ?c" "ack_retransmit_list ack_sn ?c = Some ?c"
    by (subst ack_wait_list.simps, simp, subst ack_retransmit_list.simps, simp)
  have f: "am_wait_list (ctrl_finish ?c) = []" "am_retransmit_list (ctrl_finish ?c) = []" "am_tx_list (ctrl_finish ?c) = am_tx_list e"
    "sdus (ctrl_finish ?c) = sdus e" using l by (simp_all add: ctrl_finish_def c1_def ctrl_init_def)
  then show ?thesis
    using process_control_pdu_run [OF v(1)] run fin update_tx_next_ack_returns [of "ctrl_finish ?c" ack_sn] by auto
qed

end
