(* ===== verification/RLC_AM_Report.thy ===== *)
theory RLC_AM_Report
  imports RLC_AM_Receive
begin

text \<open>
  The generation of a status PDU by an AM entity ends, whatever was received, and stays within the buffer it
  is given.
\<close>

section \<open>Walking the received segments\<close>

definition rx_hs :: "am \<Rightarrow> int" where
  "rx_hs e = rx_dist e (am_rx_highest_status e)"

text \<open>A pointer to a received segment: the rest of the segments of one sequence number.\<close>

definition rx_cursor :: "am \<Rightarrow> int \<Rightarrow> nr_rlc_pdu_t list \<Rightarrow> bool" where
  "rx_cursor e k l \<longleftrightarrow> 0 \<le> k \<and> k < am_window_size e \<and> k \<le> rx_hs e \<and> (\<exists>p. rx_slot e k = p @ l)"

lemma rx_cursor_sn:
  assumes "am_rx_ok e" "rx_cursor e k l" "p \<in> set l"
  shows "pdu_sn p = rx_sn e k" "sn_valid e (pdu_sn p)" "rx_dist e (pdu_sn p) = k"
proof -
  have b: "am_rx_base e" "am_slots_ok e" using assms(1) by (simp_all add: am_rx_ok_def)
  show sn: "pdu_sn p = rx_sn e k" using b(2) assms(2,3) by (auto simp: am_slots_ok_def rx_cursor_def pdus_ok_def)
  have "0 \<le> k" "k < am_sn_modulus e" using assms(2) am_rx_baseD(5,6) [OF b(1)] by (simp_all add: rx_cursor_def)
  then show "sn_valid e (pdu_sn p)" "rx_dist e (pdu_sn p) = k" using rx_sn_valid [OF b(1)] rx_dist_sn [OF b(1)] sn by simp_all
qed

lemma rx_hs_range:
  assumes "am_rx_ok e"
  shows "0 \<le> rx_hs e" "rx_hs e \<le> am_window_size e" "am_rx_highest_status e = rx_sn e (rx_hs e)" "sn_valid e (am_rx_highest_status e)"
proof -
  have b: "am_rx_base e" "am_rx_window e" using assms by (simp_all add: am_rx_ok_def)
  show "0 \<le> rx_hs e" using rx_dist_range [OF b(1)] by (simp add: rx_hs_def)
  show "rx_hs e \<le> am_window_size e" "sn_valid e (am_rx_highest_status e)" using b(2) by (auto simp: am_rx_window_def rx_hs_def)
  then show "am_rx_highest_status e = rx_sn e (rx_hs e)" using rx_sn_dist [OF b(1)] by (simp add: rx_hs_def)
qed

lemma rx_hs_full: "am_rx_ok e \<Longrightarrow> rx_hs e = am_window_size e \<Longrightarrow> rx_slot e (am_window_size e - 1) \<noteq> []"
  using am_rx_baseD(6) [of e] by (auto simp: am_rx_ok_def am_rx_window_def rx_hs_def)

text \<open>
  The search for the next segment ends at \<open>rx_highest_status\<close>. When this is a whole window away from
  \<open>rx_next\<close>, the last look finds the segments of \<open>rx_next\<close> again.
\<close>

lemma rx_pdu_from:
  assumes ok: "am_rx_ok e" and k: "0 \<le> k" "k \<le> rx_hs e"
  shows "\<exists>l. rx_pdu_from e (rx_sn e k) = Some l \<and>
    (l = [] \<or> (\<exists>k'. rx_cursor e k' l \<and> (k \<le> k' \<or> k' = 0 \<and> k = am_window_size e)))"
  using k
proof (induction "nat (rx_hs e - k)" arbitrary: k)
  case 0
  have b: "am_rx_base e" using ok by (simp add: am_rx_ok_def)
  note h = rx_hs_range [OF ok] and m = am_rx_baseD(5,6) [OF b]
  have "k = rx_hs e" using 0 by simp
  then have sn: "rx_sn e k = am_rx_highest_status e" using h(3) by simp
  have "nr_rlc_rx_manager_get_pdu_from_sn (am_rx e) (am_rx_highest_status e) = Some (rx_slot e (rx_hs e mod am_window_size e))"
    using rx_lookup [OF b h(4)] by (simp add: rx_hs_def)
  then have run: "rx_pdu_from e (rx_sn e k) = Some (rx_slot e (k mod am_window_size e))"
    unfolding sn by (subst rx_pdu_from.simps) (simp add: \<open>k = rx_hs e\<close>)
  have "rx_cursor e (k mod am_window_size e) (rx_slot e (k mod am_window_size e))"
    and "k \<le> k mod am_window_size e \<or> k mod am_window_size e = 0 \<and> k = am_window_size e"
  proof -
    consider "rx_hs e = am_window_size e" | "rx_hs e < am_window_size e" using h(2) by linarith
    then have "k mod am_window_size e = 0 \<and> rx_hs e = am_window_size e \<or> k mod am_window_size e = k \<and> rx_hs e < am_window_size e"
      using h(1) \<open>k = rx_hs e\<close> by cases simp_all
    then show "rx_cursor e (k mod am_window_size e) (rx_slot e (k mod am_window_size e))"
      "k \<le> k mod am_window_size e \<or> k mod am_window_size e = 0 \<and> k = am_window_size e"
      using h(1) m \<open>k = rx_hs e\<close> by (auto simp: rx_cursor_def)
  qed
  then show ?case using run by (metis (no_types, lifting))
next
  case (Suc n)
  have b: "am_rx_base e" using ok by (simp add: am_rx_ok_def)
  note h = rx_hs_range [OF ok] and m = am_rx_baseD(5,6) [OF b]
  have k: "k < rx_hs e" "k < am_window_size e" "k < am_sn_modulus e" using Suc(2) Suc.prems h(1,2) m by linarith+
  have "rx_sn e k \<noteq> am_rx_highest_status e" using rx_dist_sn [OF b, of k] k Suc.prems by (auto simp: rx_hs_def)
  moreover have "nr_rlc_rx_manager_get_pdu_from_sn (am_rx e) (rx_sn e k) = Some (rx_slot e k)"
    using rx_lookup_in [OF b rx_sn_valid [OF b], of k] rx_dist_sn [OF b, of k] k Suc.prems by simp
  moreover have "cmod (rx_sn e k + 1) (am_sn_modulus e) = rx_sn e (k + 1)" by (rule rx_sn_Suc [OF b])
  ultimately have run: "rx_pdu_from e (rx_sn e k) = (if rx_slot e k \<noteq> [] then Some (rx_slot e k) else rx_pdu_from e (rx_sn e (k + 1)))"
    by (subst rx_pdu_from.simps) simp
  show ?case
  proof (cases "rx_slot e k = []")
    case True
    have "n = nat (rx_hs e - (k + 1))" "0 \<le> k + 1" "k + 1 \<le> rx_hs e" using Suc(2) Suc.prems k(1) by simp_all
    from Suc.hyps(1) [OF this] obtain l where l: "rx_pdu_from e (rx_sn e (k + 1)) = Some l"
        "l = [] \<or> (\<exists>k'. rx_cursor e k' l \<and> (k + 1 \<le> k' \<or> k' = 0 \<and> k + 1 = am_window_size e))" by blast
    have "k + 1 \<noteq> am_window_size e"
    proof
      assume "k + 1 = am_window_size e"
      then have "rx_hs e = am_window_size e" "k = am_window_size e - 1" using k(1) h(2) by simp_all
      then show False using rx_hs_full [OF ok] True by simp
    qed
    then show ?thesis using run True l by (intro exI [of _ l]) auto
  next
    case False
    then have "rx_cursor e k (rx_slot e k)" using k Suc.prems by (simp add: rx_cursor_def)
    then show ?thesis using run False by auto
  qed
qed

lemma get_next_rx_pdu:
  assumes ok: "am_rx_ok e" and c: "rx_cursor e k (cur # nx)"
  shows "\<exists>l. get_next_rx_pdu e cur nx = Some l \<and>
    (l = [] \<or> (\<exists>k'. rx_cursor e k' l \<and> (l = nx \<and> k' = k \<or> k < k' \<or> k + 1 = am_window_size e \<and> k' = 0)))"
proof (cases "nx = []")
  case False
  obtain p where "rx_slot e k = (p @ [cur]) @ nx" using c by (auto simp: rx_cursor_def)
  then have "rx_cursor e k nx" using c unfolding rx_cursor_def by blast
  then show ?thesis using False by (auto simp: get_next_rx_pdu_def)
next
  case True
  have b: "am_rx_base e" using ok by (simp add: am_rx_ok_def)
  note sn = rx_cursor_sn [OF ok c, of cur] and h = rx_hs_range [OF ok]
  show ?thesis
  proof (cases "pdu_sn cur = am_rx_highest_status e")
    case False
    then have "k < rx_hs e" "0 \<le> k" using c sn h(3) by (auto simp: rx_cursor_def order_le_less)
    then obtain l where l: "rx_pdu_from e (rx_sn e (k + 1)) = Some l"
        "l = [] \<or> (\<exists>k'. rx_cursor e k' l \<and> (k + 1 \<le> k' \<or> k' = 0 \<and> k + 1 = am_window_size e))"
      using rx_pdu_from [OF ok, of "k + 1"] by auto
    have "get_next_rx_pdu e cur nx = Some l" using True False l(1) sn(1) rx_sn_Suc [OF b, of k] by (simp add: get_next_rx_pdu_def)
    then show ?thesis using l(2) True by (auto simp: add1_zle_eq)
  qed (use True in \<open>simp add: get_next_rx_pdu_def\<close>)
qed

section \<open>The next missing part\<close>

definition md_ok :: "am \<Rightarrow> missing_data_t \<Rightarrow> bool" where
  "md_ok e m \<longleftrightarrow> m = md_none \<or> sn_valid e (md_sn_start m) \<and> sn_valid e (md_sn_end m) \<and> (md_next m = [] \<or> (\<exists>k. rx_cursor e k (md_next m)))"

lemma sn_valid_cmod: "am_rx_base e \<Longrightarrow> 0 \<le> x \<Longrightarrow> sn_valid e (cmod x (am_sn_modulus e))"
  using am_rx_baseD(5,6) [of e] by (simp add: sn_valid_def)

lemma set_end_different_sdu:
  assumes "am_rx_ok e" "rx_cursor e k (cur # nx)" "sn_valid e sn"
  shows "md_ok e (set_end_different_sdu e cur \<lparr>md_sn_start = sn, md_so_start = so, md_sn_end = x, md_so_end = y, md_next = cur # nx\<rparr>)"
proof -
  have b: "am_rx_base e" using assms(1) by (simp add: am_rx_ok_def)
  have v: "sn_valid e (pdu_sn cur)" "sn_valid e (am_rx_highest_status e)"
    using rx_cursor_sn(2) [OF assms(1,2), of cur] rx_hs_range(4) [OF assms(1)] by simp_all
  have m: "0 < am_sn_modulus e" using am_rx_baseD(5,6) [OF b] by simp
  have "sn_valid e (cmod (pdu_sn cur - 1 + am_sn_modulus e) (am_sn_modulus e))" "sn_valid e (before_highest_status e)"
    unfolding before_highest_status_def by (rule sn_valid_cmod [OF b]; use v m in \<open>simp add: sn_valid_def\<close>)+
  then show ?thesis using v assms(2,3) by (auto simp: md_ok_def set_end_different_sdu_def Let_def)
qed

lemma missing_at_end:
  assumes "am_rx_ok e" "rx_cursor e k (cur # nx)"
  shows "md_ok e (missing_at_end e cur max_so lr)"
proof -
  have b: "am_rx_base e" using assms(1) by (simp add: am_rx_ok_def)
  have v: "sn_valid e (pdu_sn cur)" "sn_valid e (am_rx_highest_status e)"
    using rx_cursor_sn(2) [OF assms, of cur] rx_hs_range(4) [OF assms(1)] by simp_all
  have m: "0 < am_sn_modulus e" using am_rx_baseD(5,6) [OF b] by simp
  have "sn_valid e (cmod (pdu_sn cur + 1) (am_sn_modulus e))" "sn_valid e (before_highest_status e)"
    unfolding before_highest_status_def by (rule sn_valid_cmod [OF b]; use v m in \<open>simp add: sn_valid_def\<close>)+
  then show ?thesis using v by (simp add: md_ok_def missing_at_end_def)
qed

lemma missing_before:
  assumes "am_rx_ok e" "rx_cursor e k (cur # nx)" "sn_valid e sn"
  shows "md_ok e (missing_before e sn cur nx max_so lr)"
proof -
  have b: "am_rx_base e" using assms(1) by (simp add: am_rx_ok_def)
  have "sn_valid e (cmod (sn + 1) (am_sn_modulus e))" by (rule sn_valid_cmod [OF b]) (use assms(3) in \<open>simp add: sn_valid_def\<close>)
  then have "md_ok e (set_end_different_sdu e cur \<lparr>md_sn_start = if lr then cmod (sn + 1) (am_sn_modulus e) else sn,
      md_so_start = so, md_sn_end = 0, md_so_end = 0, md_next = cur # nx\<rparr>)" for so
    using set_end_different_sdu [OF assms(1,2)] assms(3) by simp
  note d = this [of "if lr then 0 else max_so + 1"]
  have "md_ok e md_none" "md_ok e \<lparr>md_sn_start = sn, md_so_start = x, md_sn_end = sn, md_so_end = y, md_next = cur # nx\<rparr>" for x y
    using assms(2,3) by (auto simp: md_ok_def)
  then show ?thesis using d by (cases lr) (simp_all add: missing_before_def)
qed

lemma next_missing_from:
  assumes ok: "am_rx_ok e" and c: "rx_cursor e k (cur # nx)"
  shows "\<exists>m. next_missing_from e cur nx max_so lr = Some m \<and> md_ok e m"
  using c
proof (induction "nat (rx_hs e - k)" arbitrary: k cur nx max_so lr rule: less_induct)
  case less
  have "\<exists>m. next_missing_from e c l so lt = Some m \<and> md_ok e m" if "rx_cursor e k (c # l)" for c l so lt
    using that
  proof (induction l arbitrary: c so lt rule: length_induct)
    case (1 l)
    have b: "am_rx_base e" using ok by (simp add: am_rx_ok_def)
    note sn = rx_cursor_sn [OF ok 1(2), of c]
    obtain x where x: "get_next_rx_pdu e c l = Some x"
      "x = [] \<or> (\<exists>k'. rx_cursor e k' x \<and> (x = l \<and> k' = k \<or> k < k' \<or> k + 1 = am_window_size e \<and> k' = 0))"
      using get_next_rx_pdu [OF ok 1(2)] by blast
    show ?case
    proof (cases x)
      case Nil
      then show ?thesis using x(1) missing_at_end [OF ok 1(2)] by (subst next_missing_from.simps) (simp add: Let_def)
    next
      case (Cons c' l')
      then obtain k' where k': "rx_cursor e k' (c' # l')" "c' # l' = l \<and> k' = k \<or> k < k' \<or> k + 1 = am_window_size e \<and> k' = 0"
        using x(2) by auto
      note sn' = rx_cursor_sn [OF ok k'(1), of c']
      have mb: "md_ok e (missing_before e (pdu_sn c) c' l' mx lt')" for mx lt' by (rule missing_before [OF ok k'(1)]) (use sn in simp)
      have run: "next_missing_from e c l so lt =
        (let max_so = (if pdu_so c + pdu_size c - 1 > so then pdu_so c + pdu_size c - 1 else so); last_reached = (lt \<or> pdu_is_last c)
         in if pdu_sn c' = pdu_sn c \<and> max_so \<ge> pdu_so c' - 1 then next_missing_from e c' l' max_so last_reached
            else if pdu_sn c' = cmod (pdu_sn c + 1) (am_sn_modulus e) \<and> last_reached \<and> pdu_is_first c' then next_missing_from e c' l' 0 False
            else Some (missing_before e (pdu_sn c) c' l' max_so last_reached))"
        using x(1) Cons by (subst next_missing_from.simps) (simp add: Let_def)
      have alias_end: "pdu_sn c' \<noteq> pdu_sn c \<and> pdu_sn c' \<noteq> cmod (pdu_sn c + 1) (am_sn_modulus e)" if "k + 1 = am_window_size e" "k' = 0"
      proof -
        have "rx_dist e (cmod (pdu_sn c + 1) (am_sn_modulus e)) = k + 1"
          using sn(1) rx_sn_Suc [OF b, of k] rx_dist_sn [OF b, of "k + 1"] that am_rx_baseD(5,6) [OF b] by simp
        then show ?thesis using sn(3) sn'(3) that am_rx_baseD(6) [OF b] by auto
      qed
      have rec: "\<exists>m. next_missing_from e c' l' mx lt' = Some m \<and> md_ok e m" if "\<not> (k + 1 = am_window_size e \<and> k' = 0)" for mx lt'
      proof (cases "c' # l' = l \<and> k' = k")
        case True
        then show ?thesis using 1(1) k'(1) by auto
      next
        case False
        then have "k < k'" "k' \<le> rx_hs e" using k' that by (auto simp: rx_cursor_def)
        then show ?thesis using less.hyps [OF _ k'(1)] by simp
      qed
      show ?thesis
      proof (cases "pdu_sn c' = pdu_sn c \<or> pdu_sn c' = cmod (pdu_sn c + 1) (am_sn_modulus e)")
        case True
        then have "\<not> (k + 1 = am_window_size e \<and> k' = 0)" using alias_end by blast
        then show ?thesis unfolding run Let_def by (auto intro: mb rec)
      next
        case False
        then show ?thesis using mb unfolding run Let_def by simp
      qed
    qed
  qed
  then show ?case using less.prems by blast
qed

lemma next_missing:
  assumes ok: "am_rx_ok e" and c: "rx_cursor e k (cur # nx)"
  shows "\<exists>m. next_missing e cur nx check_head = Some m \<and> md_ok e m"
proof -
  have "sn_valid e (am_rx_next e)" using ok am_rx_baseD(7) [of e] by (simp add: am_rx_ok_def)
  then have "md_ok e (set_end_different_sdu e cur \<lparr>md_sn_start = am_rx_next e, md_so_start = 0, md_sn_end = 0, md_so_end = 0, md_next = cur # nx\<rparr>)"
    by (rule set_end_different_sdu [OF ok c])
  then show ?thesis using next_missing_from [OF ok c] by (auto simp: next_missing_def md_ok_def)
qed

section \<open>Writing NACKs\<close>

text \<open>\<open>enc_at enc k sz n\<close>: \<open>k\<close> whole bytes are written of a buffer of \<open>n\<close> bytes, of which \<open>sz\<close> may be used.\<close>

definition enc_at :: "nr_rlc_pdu_encoder_t \<Rightarrow> nat \<Rightarrow> int \<Rightarrow> nat \<Rightarrow> bool" where
  "enc_at enc k sz n \<longleftrightarrow> enc_byte enc = int k \<and> enc_bit enc = 0 \<and> enc_size enc = sz \<and> length (enc_buffer enc) = n \<and> int k \<le> sz \<and> sz \<le> int n"

lemma enc_at_wrote: "enc_at enc k sz n \<Longrightarrow> \<exists>w. enc_wrote enc w \<and> length w = 8 * k"
  by (intro exI [of _ "bits_of (take k (enc_buffer enc))"]) (auto simp: enc_at_def enc_wrote_def min_def)

lemma wrote_enc_at: "enc_wrote enc w \<Longrightarrow> length w = 8 * k \<Longrightarrow> enc_size enc = sz \<Longrightarrow> length (enc_buffer enc) = n \<Longrightarrow> 0 \<le> sz \<Longrightarrow> enc_at enc k sz n"
  by (auto simp: enc_at_def enc_wrote_def)

definition enc_bits :: "nr_rlc_pdu_encoder_t \<Rightarrow> nat \<Rightarrow> int \<Rightarrow> nat \<Rightarrow> bool" where
  "enc_bits enc q sz n \<longleftrightarrow> (\<exists>w. enc_wrote enc w \<and> length w = q) \<and> enc_size enc = sz \<and> length (enc_buffer enc) = n"

lemma put_bits_at:
  assumes "enc_bits enc q sz n" "q + c \<le> 8 * nat sz" "c \<le> 31"
  shows "\<exists>enc'. nr_rlc_pdu_encoder_put_bits enc v (int c) = Some enc' \<and> enc_bits enc' (q + c) sz n"
proof -
  from assms(1) obtain w where "enc_wrote enc w" "length w = q" "enc_size enc = sz" "length (enc_buffer enc) = n" by (auto simp: enc_bits_def)
  then show ?thesis using put_bits_wrote [of enc w c "int c" v] assms(2,3) by (fastforce simp: enc_bits_def)
qed

lemma enc_bits_byte: "enc_bits enc q sz n \<Longrightarrow> enc_byte enc = int (q div 8)"
  by (auto simp: enc_bits_def enc_wrote_def)

lemma set_bit_in_at:
  assumes "enc_at enc k sz n" "0 \<le> p" "p < int k"
  shows "\<exists>enc'. set_bit_in enc p b = Some enc' \<and> enc_at enc' k sz n"
  using assms by (auto simp: set_bit_in_def enc_at_def mem_simps)

definition gs_ok :: "gen_status_t \<Rightarrow> nat \<Rightarrow> int \<Rightarrow> nat \<Rightarrow> bool" where
  "gs_ok g k sz n \<longleftrightarrow> enc_at (gs_encoder g) k sz n \<and> 3 \<le> k \<and> 0 \<le> gs_e1_byte g \<and> gs_e1_byte g < int k \<and>
     (case gs_so_end_address g of None \<Rightarrow> True | Some p \<Rightarrow> 0 \<le> p \<and> p + 1 < int k)"

lemma nack_size_pos: "2 \<le> nack_size e m"
  by (simp add: nack_size_def Let_def)

lemma generate_nack:
  assumes cfg: "am_cfg e" and g: "gs_ok g k sz n" and room: "int k + nack_size e m \<le> sz"
  shows "\<exists>g'. generate_nack e m cnt g = Some g' \<and> gs_ok g' (k + nat (nack_size e m)) sz n \<and> gs_next g' = gs_next g \<and> gs_truncated g' = gs_truncated g"
proof -
  let ?e2 = "\<not> (md_so_start m = 0 \<and> md_so_end m = 0xffff)" and ?e3 = "md_sn_start m \<noteq> md_sn_end m"
  define len where "len = nat (am_sn_field_length e)"
  define pad where "pad = (if am_sn_field_length e = 18 then 3 else 1 :: nat)"
  have len: "am_sn_field_length e = int len" "len \<le> 31" "(if am_sn_field_length e = 18 then 3 else 1) = int pad" "pad \<le> 31"
    using cfg by (auto simp: am_cfg_def len_def pad_def)
  have size_m: "8 * nat (nack_size e m) = len + 3 + pad + (if ?e2 then 32 else 0) + (if ?e3 then 8 else 0)"
    using cfg by (auto simp: am_cfg_def nack_size_def Let_def len_def pad_def)
  have at: "enc_at (gs_encoder g) k sz n" "0 \<le> gs_e1_byte g" "gs_e1_byte g < int k" "3 \<le> k" using g by (auto simp: gs_ok_def)
  have room': "8 * k + 8 * nat (nack_size e m) \<le> 8 * nat sz" using room nack_size_pos [of e m] by simp
  obtain enc0 where enc0: "set_bit_in (gs_encoder g) (gs_e1_byte g) (gs_e1_bit g) = Some enc0" "enc_at enc0 k sz n"
    using set_bit_in_at [OF at(1-3)] by blast
  have b0: "enc_bits enc0 (8 * k) sz n" using enc_at_wrote [OF enc0(2)] enc0(2) by (auto simp: enc_bits_def enc_at_def)
  obtain enc1 where enc1: "nr_rlc_pdu_encoder_put_bits enc0 (md_sn_start m) (int len) = Some enc1" "enc_bits enc1 (8 * k + len) sz n"
    using put_bits_at [OF b0 _ len(2)] room' size_m by fastforce
  obtain enc2 where enc2: "nr_rlc_pdu_encoder_put_bits enc1 0 1 = Some enc2" "enc_bits enc2 (8 * k + len + 1) sz n"
    using put_bits_at [OF enc1(2), of 1 0] room' size_m by auto
  obtain enc3 where enc3: "nr_rlc_pdu_encoder_put_bits enc2 (of_bool ?e2) 1 = Some enc3" "enc_bits enc3 (8 * k + len + 2) sz n"
    using put_bits_at [OF enc2(2), of 1 "of_bool ?e2"] room' size_m by auto
  obtain enc4 where enc4: "nr_rlc_pdu_encoder_put_bits enc3 (of_bool ?e3) 1 = Some enc4" "enc_bits enc4 (8 * k + len + 3) sz n"
    using put_bits_at [OF enc3(2), of 1 "of_bool ?e3"] room' size_m by (auto simp: numeral_eq_Suc)
  obtain enc5 where enc5: "nr_rlc_pdu_encoder_put_bits enc4 0 (int pad) = Some enc5" "enc_bits enc5 (8 * k + len + 3 + pad) sz n"
    using put_bits_at [OF enc4(2) _ len(4)] room' size_m by fastforce
  define h where "h = (if am_sn_field_length e = 18 then 3 else 2 :: nat)"
  have h: "len + 3 + pad = 8 * h" using cfg by (auto simp: am_cfg_def h_def len_def pad_def)
  have b5: "enc_bits enc5 (8 * (k + h)) sz n" using enc5(2) h by (simp add: add.assoc add_mult_distrib2)
  have "\<exists>enc6 x. (if ?e2 then do { enc \<leftarrow> nr_rlc_pdu_encoder_put_bits enc5 (md_so_start m) 16; let so_end_address = enc_byte enc;
      enc \<leftarrow> nr_rlc_pdu_encoder_put_bits enc (md_so_end m) 16; Some (enc, Some so_end_address) } else Some (enc5, None)) = Some (enc6, x) \<and>
    enc_bits enc6 (8 * (k + h + (if ?e2 then 4 else 0))) sz n \<and>
    (case x of None \<Rightarrow> True | Some p \<Rightarrow> 0 \<le> p \<and> p + 1 < int (k + h + (if ?e2 then 4 else 0)))"
  proof (cases ?e2)
    case True
    obtain x1 where x1: "nr_rlc_pdu_encoder_put_bits enc5 (md_so_start m) 16 = Some x1" "enc_bits x1 (8 * (k + h) + 16) sz n"
      using put_bits_at [OF b5, of 16 "md_so_start m"] room' size_m h True by auto
    obtain x2 where x2: "nr_rlc_pdu_encoder_put_bits x1 (md_so_end m) 16 = Some x2" "enc_bits x2 (8 * (k + h) + 16 + 16) sz n"
      using put_bits_at [OF x1(2), of 16 "md_so_end m"] room' size_m h True by auto
    have "8 * (k + h) + 16 + 16 = 8 * (k + h + 4)" "enc_byte x1 = int (k + h + 2)" using enc_bits_byte [OF x1(2)] by simp_all
    then show ?thesis using True x1 x2 by (simp add: add.commute)
  qed (use b5 in simp)
  then obtain enc6 x where x: "(if ?e2 then do { enc \<leftarrow> nr_rlc_pdu_encoder_put_bits enc5 (md_so_start m) 16; let so_end_address = enc_byte enc;
      enc \<leftarrow> nr_rlc_pdu_encoder_put_bits enc (md_so_end m) 16; Some (enc, Some so_end_address) } else Some (enc5, None)) = Some (enc6, x)"
    "enc_bits enc6 (8 * (k + h + (if ?e2 then 4 else 0))) sz n"
    "case x of None \<Rightarrow> True | Some p \<Rightarrow> 0 \<le> p \<and> p + 1 < int (k + h + (if ?e2 then 4 else 0))" by blast
  define k' where "k' = k + nat (nack_size e m)"
  have k': "k' = k + h + (if ?e2 then 4 else 0) + (if ?e3 then 1 else 0)" using size_m h by (auto simp: k'_def)
  have "\<exists>enc7. (if ?e3 then nr_rlc_pdu_encoder_put_bits enc6 cnt 8 else Some enc6) = Some enc7 \<and> enc_bits enc7 (8 * k') sz n"
  proof (cases ?e3)
    case True
    have q: "8 * (k + h + (if ?e2 then 4 else 0)) + 8 = 8 * k'" using True by (simp only: k') simp
    have "8 * k' \<le> 8 * nat sz" using room' by (simp add: k'_def)
    then show ?thesis using put_bits_at [OF x(2), of 8 cnt] True unfolding q by simp
  next
    case False
    then have "8 * (k + h + (if ?e2 then 4 else 0)) = 8 * k'" by (simp only: k') simp
    then show ?thesis using x(2) False by simp
  qed
  then obtain enc7 where enc7: "(if ?e3 then nr_rlc_pdu_encoder_put_bits enc6 cnt 8 else Some enc6) = Some enc7" "enc_bits enc7 (8 * k') sz n" by blast
  have "0 \<le> sz" using room nack_size_pos [of e m] by simp
  then have at7: "enc_at enc7 k' sz n" using enc7(2) wrote_enc_at by (auto simp: enc_bits_def)
  have e1: "fst (get_e1_position e enc0) < int k'" "0 \<le> fst (get_e1_position e enc0)"
    using enc0(2) k' h by (auto simp: get_e1_position_def enc_at_def h_def)
  have x3: "case x of None \<Rightarrow> True | Some p \<Rightarrow> 0 \<le> p \<and> p + 1 < int k'" using x(3) k' by (auto split: option.splits)
  let ?p = "get_e1_position e enc0"
  have "generate_nack e m cnt g = Some (g\<lparr>gs_encoder := enc7, gs_e1_byte := fst ?p, gs_e1_bit := snd ?p, gs_so_end_address := x,
      gs_last_nack := md_sn_start m + (if ?e3 then cnt - 1 else 0)\<rparr>)"
    using enc0(1) enc1(1) [folded len(1)] enc2(1) enc3(1) enc4(1) enc5(1) [folded len(3)] x(1) enc7(1)
    by (cases ?e2; cases ?e3; cases ?p) (auto simp: generate_nack_def Let_def bind_Some_iff)
  moreover have "3 \<le> k'" using at(4) by (simp add: k'_def)
  ultimately show ?thesis using at7 e1 x3 by (simp add: gs_ok_def k'_def [symmetric])
qed

declare generate_missing.simps [simp del] missing_size.simps [simp del]

text \<open>\<open>status_size\<close> computes the size that the generation reaches.\<close>

lemma nack_bytes_size: "am_cfg e \<Longrightarrow> nack_bytes e m = nack_size e m"
  by (auto simp: am_cfg_def nack_bytes_def nack_size_def Let_def)

lemma generate_missing:
  assumes cfg: "am_cfg e" and g: "gs_ok g k sz n" "gs_next g = md_next m"
  shows "\<exists>g' k' r'. generate_missing e m cnt sn g = Some g' \<and> gs_ok g' k' sz n \<and> k \<le> k' \<and>
    missing_size e m cnt sn r (int k) sz = (r', int k', gs_next g') \<and> r \<le> r' \<and>
    (gs_next g' = [] \<or> gs_next g' = md_next m \<and> (0 < cnt \<longrightarrow> k < k' \<and> r < r'))"
  using g
proof (induction cnt arbitrary: sn g k r rule: less_induct)
  case (less cnt)
  have enc: "enc_byte (gs_encoder g) = int k" "enc_size (gs_encoder g) = sz" using less.prems(1) by (auto simp: gs_ok_def enc_at_def)
  let ?m = "nack_cut e m cnt sn" and ?c = "min cnt 255"
  consider "cnt = 0" | "cnt \<noteq> 0" "int k + nack_size e ?m > sz" | "cnt \<noteq> 0" "int k + nack_size e ?m \<le> sz" by linarith
  then show ?case
  proof cases
    case 1
    then have "generate_missing e m cnt sn g = Some g" "missing_size e m cnt sn r (int k) sz = (r, int k, md_next m)"
      by (subst generate_missing.simps, simp, subst missing_size.simps, simp)
    then show ?thesis using less.prems 1 by (intro exI [of _ g] exI [of _ k] exI [of _ r]) simp
  next
    case 2
    let ?g = "g\<lparr>gs_next := [], gs_truncated := True\<rparr>"
    have "generate_missing e m cnt sn g = Some ?g" "missing_size e m cnt sn r (int k) sz = (r, int k, [])"
      using 2 enc by (subst generate_missing.simps, simp, subst missing_size.simps, simp)
    moreover have "gs_ok ?g k sz n" using less.prems(1) by (simp add: gs_ok_def cong: option.case_cong)
    ultimately show ?thesis by (intro exI [of _ ?g] exI [of _ k] exI [of _ r]) simp
  next
    case 3
    let ?sn = "cmod (sn + int ?c) (am_sn_modulus e)"
    obtain k2 where k2: "k2 = k + nat (nack_size e ?m)" by simp
    have k: "int k + nack_bytes e ?m = int k2" "k < k2"
      using nack_size_pos [of e ?m] nack_bytes_size [OF cfg] by (simp_all add: k2)
    obtain g1 where g1: "generate_nack e ?m (int ?c) g = Some g1" "gs_ok g1 k2 sz n" "gs_next g1 = md_next m"
      using generate_nack [OF cfg less.prems(1) 3(2)] less.prems(2) by (auto simp: k2)
    have "cnt - ?c < cnt" using 3(1) by auto
    from less.IH [OF this g1(2,3), of ?sn "r + 1"] obtain g' k' r' where
      g': "generate_missing e m (cnt - ?c) ?sn g1 = Some g'" "gs_ok g' k' sz n" "k2 \<le> k'"
        "missing_size e m (cnt - ?c) ?sn (r + 1) (int k2) sz = (r', int k', gs_next g')" "r + 1 \<le> r'"
        "gs_next g' = [] \<or> gs_next g' = md_next m" by blast
    have "generate_missing e m cnt sn g = Some g'" using 3 enc g1(1) g'(1) by (subst generate_missing.simps) simp
    moreover have "missing_size e m cnt sn r (int k) sz = (r', int k', gs_next g')"
      using 3 g'(4) by (subst missing_size.simps) (simp add: k(1))
    ultimately show ?thesis using g'(2,3,5,6) k(2) by (intro exI [of _ g'] exI [of _ k'] exI [of _ r']) auto
  qed
qed

lemma force_so_end:
  assumes "gs_ok g k sz n"
  shows "\<exists>g'. force_so_end g = Some g' \<and> gs_ok g' k sz n \<and> gs_next g' = gs_next g"
  using assms by (auto simp: force_so_end_def gs_ok_def enc_at_def mem_simps split: option.splits)

lemma generate_nacks:
  assumes ok: "am_rx_ok e" and g: "gs_ok g k sz n" and c: "pdus = [] \<or> (\<exists>j. rx_cursor e j pdus)" and r: "0 \<le> r"
  shows "\<exists>g' ln k'. generate_nacks e (r = 0) pdus g ln0 = Some (g', ln) \<and> gs_ok g' k' sz n \<and> nacks_size e r pdus (int k) sz = Some (int k')"
  using g c r
proof (induction "nat sz - k" arbitrary: g k pdus r ln0 rule: less_induct)
  case less
  have cfg: "am_cfg e" using ok by (simp add: am_rx_ok_def am_rx_base_def)
  show ?case
  proof (cases pdus)
    case Nil
    have "generate_nacks e (r = 0) [] g ln0 = Some (g, ln0)" "nacks_size e r [] (int k) sz = Some (int k)"
      by (subst generate_nacks.simps, simp, subst nacks_size.simps, simp)
    then show ?thesis using less.prems(1) Nil by blast
  next
    case (Cons cur nx)
    then obtain j where "rx_cursor e j (cur # nx)" using less.prems(2) by auto
    from next_missing [OF ok this] obtain m where m: "next_missing e cur nx (r = 0) = Some m" "md_ok e m" by blast
    show ?thesis
    proof (cases "md_sn_start m = -1")
      case True
      then have "generate_nacks e (r = 0) pdus g ln0 = Some (g, ln0)" "nacks_size e r pdus (int k) sz = Some (int k)"
        using m(1) Cons by (subst generate_nacks.simps, simp, subst nacks_size.simps, simp)
      then show ?thesis using less.prems(1) by blast
    next
      case False
      then have v: "sn_valid e (md_sn_start m)" "sn_valid e (md_sn_end m)" "md_next m = [] \<or> (\<exists>k. rx_cursor e k (md_next m))"
        using m(2) by (auto simp: md_ok_def md_none_def)
      let ?g0 = "g\<lparr>gs_truncated := False, gs_last_nack := -1, gs_next := md_next m\<rparr>"
      have g0: "gs_ok ?g0 k sz n" using less.prems(1) by (simp add: gs_ok_def cong: option.case_cong)
      have cnt: "0 < missing_sn_count e m" using v(1,2) am_cfg_facts [OF cfg] by (simp add: missing_sn_count_def sn_valid_def)
      obtain g1 k1 r1 where g1: "generate_missing e m (missing_sn_count e m) (md_sn_start m) ?g0 = Some g1" "gs_ok g1 k1 sz n"
        "missing_size e m (missing_sn_count e m) (md_sn_start m) 0 (int k) sz = (r1, int k1, gs_next g1)"
        "gs_next g1 = [] \<or> gs_next g1 = md_next m \<and> k < k1 \<and> 0 < r1"
        using generate_missing [OF cfg g0, of m "missing_sn_count e m" "md_sn_start m" 0] cnt by auto
      obtain g2 where g2: "force_so_end g1 = Some g2" "gs_ok g2 k1 sz n" "gs_next g2 = gs_next g1" using force_so_end [OF g1(2)] by blast
      let ?ln = "if gs_last_nack g1 \<noteq> -1 then gs_last_nack g1 else ln0"
      have run: "generate_nacks e (r = 0) pdus g ln0 = generate_nacks e False (gs_next g1) g2 ?ln"
        using m(1) Cons False g1(1) g2(1,3) by (subst generate_nacks.simps) (simp add: Let_def)
      have sz: "nacks_size e r pdus (int k) sz = nacks_size e (r + r1) (gs_next g1) (int k1) sz"
        using m(1) Cons False g1(3) by (subst nacks_size.simps) simp
      show ?thesis
      proof (cases "gs_next g1 = []")
        case True
        have "generate_nacks e False [] g2 ?ln = Some (g2, ?ln)" "nacks_size e (r + r1) [] (int k1) sz = Some (int k1)"
          by (subst generate_nacks.simps, simp, subst nacks_size.simps, simp)
        then show ?thesis using run sz True g2(2) by auto
      next
        case False
        then have nx: "gs_next g1 = md_next m" "k < k1" "0 < r1" using g1(4) by auto
        have "k1 \<le> nat sz" using g1(2) by (auto simp: gs_ok_def enc_at_def)
        then have "nat sz - k1 < nat sz - k" using nx(2) by simp
        moreover have "gs_next g1 = [] \<or> (\<exists>j. rx_cursor e j (gs_next g1))" "0 \<le> r + r1" "(r + r1 = 0) = False" using v(3) nx less.prems(3) by auto
        ultimately show ?thesis using less.hyps [OF _ g2(2), of "gs_next g1" "r + r1" ?ln] run sz by simp
      qed
    qed
  qed
qed

section \<open>The status PDU\<close>

lemma put_ack_sn:
  assumes "3 \<le> length buf"
  shows "\<exists>b. put_ack_sn e sn buf = Some b \<and> length b = length buf"
proof -
  have "buf \<noteq> []" "1 < length buf" "2 < length buf" using assms by auto
  then show ?thesis by (auto simp: put_ack_sn_def mem_write_in mem_read_in)
qed

lemma get_first_rx_pdu:
  assumes ok: "am_rx_ok e"
  shows "\<exists>l. get_first_rx_pdu e = Some l \<and> (l = [] \<or> (\<exists>k. rx_cursor e k l))"
proof -
  have "rx_sn e 0 = am_rx_next e" using ok am_rx_baseD(7) [of e] by (auto simp: am_rx_ok_def rx_sn_def sn_valid_def)
  then show ?thesis using rx_pdu_from [OF ok, of 0] rx_hs_range(1) [OF ok] by (auto simp: get_first_rx_pdu_def)
qed

lemma generate_status:
  assumes ok: "am_rx_ok e" and sz: "sz \<le> int (length buffer)"
  shows "\<exists>e' b n. generate_status e buffer sz = Some (e', b, n) \<and> length b = length buffer \<and> n \<le> max 0 sz \<and>
    (if sz < 3 then n = 0 \<and> e' = e \<and> b = buffer else 3 \<le> n \<and> \<not> am_status_triggered e') \<and> am_status_size e sz = Some n"
proof (cases "sz < 3")
  case True
  then show ?thesis by (auto simp: generate_status_def am_status_size_def)
next
  case False
  have "enc_bits (nr_rlc_pdu_encoder_init buffer sz) 0 sz (length buffer)"
    using encoder_init_wrote [OF sz] by (auto simp: enc_bits_def nr_rlc_pdu_encoder_init_def)
  from put_bits_at [OF this, of 24 0] False nat_mono [of 3 sz] obtain enc where
    enc: "nr_rlc_pdu_encoder_put_bits (nr_rlc_pdu_encoder_init buffer sz) 0 (8 * 3) = Some enc" "enc_bits enc 24 sz (length buffer)" by auto
  have at3: "enc_at enc 3 sz (length buffer)" using enc(2) wrote_enc_at [of enc _ 3] False by (auto simp: enc_bits_def)
  let ?g = "\<lparr>gs_encoder = enc, gs_e1_byte = 2, gs_e1_bit = (if am_sn_field_length e = 18 then 1 else 7),
           gs_truncated = False, gs_so_end_address = None, gs_last_nack = -1, gs_next = []\<rparr>"
  let ?ln = "cmod (am_rx_next e - 1 + am_sn_modulus e) (am_sn_modulus e)"
  have g: "gs_ok ?g 3 sz (length buffer)" using at3 by (simp add: gs_ok_def)
  obtain l where l: "get_first_rx_pdu e = Some l" "l = [] \<or> (\<exists>k. rx_cursor e k l)" using get_first_rx_pdu [OF ok] by blast
  obtain g' ln k' where g': "generate_nacks e True l ?g ?ln = Some (g', ln)" "gs_ok g' k' sz (length buffer)"
      "nacks_size e 0 l 3 sz = Some (int k')"
    using generate_nacks [OF ok g l(2), of 0 ?ln] by auto
  have k': "enc_byte (gs_encoder g') = int k'" "length (enc_buffer (gs_encoder g')) = length buffer" "3 \<le> k'" "int k' \<le> sz"
    using g'(2) by (auto simp: gs_ok_def enc_at_def)
  obtain b where b: "put_ack_sn e (cmod (ln + 1) (am_sn_modulus e)) (enc_buffer (gs_encoder g')) = Some b" "length b = length buffer"
    using put_ack_sn [of "enc_buffer (gs_encoder g')" e] k' sz by fastforce
  show ?thesis
    using False enc(1) l(1) g'(1,3) b k' by (simp add: generate_status_def am_status_size_def Let_def)
qed

end
