(* ===== verification/RLC_AM_Entity.thy ===== *)
theory RLC_AM_Entity
  imports RLC_AM_Generate RLC_AM_Status_Pdu RLC_AM_Report
begin

text \<open>
  The whole AM entity: the invariants of its two sides hold of every entity that its interface can build
  (\<open>am_run\<close>), what each operation does on its own, and a transmitter and a receiver together.
\<close>

section \<open>Views\<close>

lemma am_rx_frame_txv: "am_rx_frame e e' \<Longrightarrow> am_txv e' = am_txv e"
  by (rule am_rx_frame_field) (simp_all add: am_no_rx_def am_txv_def)

lemma am_rx_ok_ev [simp]: "am_rx_ok (ev_update f e) = am_rx_ok e"
proof -
  have "rx_dist (ev_update f e) = rx_dist e" "sn_valid (ev_update f e) = sn_valid e" "rx_sn (ev_update f e) = rx_sn e"
    "slot_done (ev_update f e) = slot_done e"
    using rx_view_cong [of "ev_update f e" e] by (simp_all add: slot_done_def fun_eq_iff)
  then show ?thesis
    by (simp add: am_rx_ok_def am_rx_base_def am_cfg_def am_slots_ok_def am_rx_window_def am_rx_open_def am_timer_ok_def am_rx_acct_def)
qed

lemma am_tx_fresh:
  assumes "am_cfg e" "am_tx_list e = []" "am_tx_end e = None" "am_wait_list e = []" "am_wait_end e = None" "am_retransmit_list e = []"
    and "sdus e = heap_empty" "am_tx_size e = 0" "0 \<le> am_tx_maxsize e" "bs_tx_size (bstatus e) = 0" "bs_retx_size (bstatus e) = 0"
    and "am_tx_next e = 0" "am_tx_next_ack e = 0" "window_ok (txsdu_avg_time_to_tx e)"
  shows "am_tx_ok {#} e"
proof -
  have "0 < am_window_size e" "0 < am_sn_modulus e" using am_cfg_facts [OF assms(1)] by simp_all
  then show ?thesis
    using assms by (simp add: am_tx_ok_def am_tx_order_def am_tx_defs segs_apart_def sn_valid_def tx_dist_def heap_empty_def list_end_def)
      (simp add: heap_ok_def heap_bytes_def)
qed

lemma new_am_tx_ok:
  assumes "new_nr_rlc_entity_am rx_maxsize tx_maxsize t_poll t_reas t_prohibit poll_pdu poll_byte max_retx len = Some e"
    and "0 \<le> rx_maxsize" "0 \<le> tx_maxsize"
  shows "am_tx_ok {#} e"
proof -
  have "window_ok (txsdu_avg_time_to_tx e)"
    using assms(1) time_average_new_ok by (auto simp: new_nr_rlc_entity_am_def bind_Some_iff Let_def)
  then show ?thesis
    using new_am_entity_room(2) [OF assms(1,2)] assms(1,3)
    by (intro am_tx_fresh) (auto simp: new_nr_rlc_entity_am_def bind_Some_iff Let_def bstatus_zero_def)
qed

section \<open>Generation of a PDU\<close>

lemma generate_status_views:
  assumes "generate_status e buffer sz = Some (e', b, n)"
  shows "am_txv e' = am_txv e" "am_rxv e' = am_rxv e"
  using assms by (auto simp: generate_status_def Let_def bind_Some_iff am_txv_def am_rxv_def split: if_splits prod.splits)

lemma am_generate_lists:
  assumes ok: "am_tx_ok L e" and sz: "sz \<le> int (length buffer)"
  shows "\<exists>e' b n. do {
        (e, buffer, ret) \<leftarrow> (if am_retransmit_list e \<noteq> [] then generate_retx_pdu e buffer sz else Some (e, buffer, 0));
        if ret \<noteq> 0 then Some (e, buffer, ret) else am_generate_tx_pdu time_now e buffer sz } = Some (e', b, n) \<and>
    am_tx_ok L e' \<and> am_generated e buffer sz e' b n"
proof (cases "am_retransmit_list e")
  case Nil
  then show ?thesis using am_generate_tx_pdu [OF ok sz, of time_now] by simp
next
  case (Cons s l)
  obtain e1 b n where r: "generate_retx_pdu e buffer sz = Some (e1, b, n)" "am_tx_ok L e1" "am_generated e buffer sz e1 b n"
    using generate_retx_pdu [OF ok Cons sz] by blast
  show ?thesis
  proof (cases "n = 0")
    case True
    then have "e1 = e" "length b = length buffer" using r(3) by (auto simp: am_generated_def)
    then show ?thesis
      using am_generate_tx_pdu [OF ok, of sz b time_now] sz r(1) True Cons by (auto simp: am_generated_def)
  next
    case False
    then show ?thesis using r Cons by auto
  qed
qed

lemma am_generate_data:
  assumes "am_tx_ok L e" "sz \<le> int (length buffer)" "\<not> status_to_report e"
  shows "\<exists>e' b n. nr_rlc_entity_am_generate_pdu time_now e buffer sz = Some (e', b, n) \<and> am_tx_ok L e' \<and> am_generated e buffer sz e' b n"
  using am_generate_lists [OF assms(1,2), of time_now] assms(3) by (simp add: nr_rlc_entity_am_generate_pdu_def)

lemma am_generated_frame: "am_generated e buffer sz e' b n \<Longrightarrow> am_rxv e' = am_rxv e \<and> length b = length buffer"
  by (simp add: am_generated_def)

text \<open>
  With a status report to send the PDU is the status PDU, unless the buffer is too small for its fixed part;
  otherwise it is the image of a segment that is now in the wait list.
\<close>

definition am_generated_any :: "am \<Rightarrow> byte list \<Rightarrow> int \<Rightarrow> am \<Rightarrow> byte list \<Rightarrow> int \<Rightarrow> bool" where
  "am_generated_any e buffer sz e' b n \<longleftrightarrow>
     (if status_to_report e \<and> 3 \<le> sz
      then generate_status e buffer sz = Some (e', b, n) \<and> 3 \<le> n \<and> n \<le> sz \<and> \<not> am_status_triggered e' \<and>
        am_status_size e sz = Some n
      else am_generated e buffer sz e' b n)"

lemma am_generate_any:
  assumes ok: "am_tx_ok L e" "am_rx_ok e" and sz: "sz \<le> int (length buffer)"
  shows "\<exists>e' b n. nr_rlc_entity_am_generate_pdu time_now e buffer sz = Some (e', b, n) \<and> am_tx_ok L e' \<and> am_rxv e' = am_rxv e \<and>
    length b = length buffer \<and> am_generated_any e buffer sz e' b n"
proof (cases "status_to_report e")
  case False
  then show ?thesis
    using am_generate_data [OF ok(1) sz False, of time_now] am_generated_frame by (auto simp: am_generated_any_def)
next
  case True
  obtain e1 b1 n1 where g: "generate_status e buffer sz = Some (e1, b1, n1)" "length b1 = length buffer" "n1 \<le> max 0 sz"
      "if sz < 3 then n1 = 0 \<and> e1 = e \<and> b1 = buffer else 3 \<le> n1 \<and> \<not> am_status_triggered e1" "am_status_size e sz = Some n1"
    using generate_status [OF ok(2) sz] by blast
  show ?thesis
  proof (cases "sz < 3")
    case False
    have "nr_rlc_entity_am_generate_pdu time_now e buffer sz = Some (e1, b1, n1)"
      using g(1,4) False True by (simp add: nr_rlc_entity_am_generate_pdu_def)
    then show ?thesis
      using g False True generate_status_views [OF g(1)] am_tx_ok_cong [of e1 e L] ok(1) by (simp add: am_generated_any_def)
  next
    case small: True
    have "nr_rlc_entity_am_generate_pdu time_now e buffer sz = do {
        (e, buffer, ret) \<leftarrow> (if am_retransmit_list e \<noteq> [] then generate_retx_pdu e buffer sz else Some (e, buffer, 0));
        if ret \<noteq> 0 then Some (e, buffer, ret) else am_generate_tx_pdu time_now e buffer sz }"
      using g(1,4) small True by (simp add: nr_rlc_entity_am_generate_pdu_def)
    then show ?thesis
      using am_generate_lists [OF ok(1) sz, of time_now] small am_generated_frame by (auto simp: am_generated_any_def)
  qed
qed

section \<open>Time\<close>

lemma check_t_poll_null:
  "t_poll_expired e \<Longrightarrow> check_poll_after_pdu_assembly e \<Longrightarrow> am_wait_list e = [] \<Longrightarrow> check_t_poll_retransmit e = None"
  by (simp add: check_t_poll_retransmit_def t_poll_expired_def not_le)

lemma am_set_time:
  assumes ok: "am_tx_ok L e" "am_rx_ok e"
  shows "nr_rlc_entity_am_set_time e now = None \<longleftrightarrow>
      t_poll_expired (e\<lparr>am_t_current := now\<rparr>) \<and> check_poll_after_pdu_assembly e \<and> am_wait_list e = []" (is "_ \<longleftrightarrow> ?null")
    and "nr_rlc_entity_am_set_time e now = Some e' \<Longrightarrow> am_tx_ok L e' \<and> am_rx_ok e' \<and> (\<exists>out. ev e' = ev e @ out \<and> set out \<subseteq> {Max_retx_reached})"
proof -
  let ?e = "e\<lparr>am_t_current := now\<rparr>"
  have v: "am_txv ?e = am_txv e" "am_rxv ?e = am_rxv e" by (simp_all add: am_txv_def am_rxv_def)
  have ok': "am_tx_ok L ?e" "am_rx_ok ?e" using ok am_tx_ok_cong [OF v(1)] am_rx_ok_congv [OF v(2)] by simp_all
  have c: "check_poll_after_pdu_assembly ?e = check_poll_after_pdu_assembly e"
    by (simp add: check_poll_after_pdu_assembly_def is_window_stalling_def am_sn_compare_tx_def am_modulus_tx_def Let_def)
  have null: "nr_rlc_entity_am_set_time e now = None" if ?null
    using check_t_poll_null [of ?e] that c by (simp add: nr_rlc_entity_am_set_time_def)
  have run: "\<exists>e' out. nr_rlc_entity_am_set_time e now = Some e' \<and> am_tx_ok L e' \<and> am_rx_ok e' \<and> ev e' = ev e @ out \<and> set out \<subseteq> {Max_retx_reached}"
    if "\<not> ?null"
  proof -
    have nz: "am_wait_list ?e \<noteq> []" if "t_poll_expired ?e" "check_poll_after_pdu_assembly ?e" using that \<open>\<not> ?null\<close> c by simp
    obtain e1 out where e1: "check_t_poll_retransmit ?e = Some e1" "am_tx_ok L e1" "am_rxv e1 = am_rxv (?e\<lparr>ev := ev ?e @ out\<rparr>)"
      "set out \<subseteq> {Max_retx_reached}" using check_t_poll_retransmit [OF ok'(1) nz] by blast
    have "am_rx_ok e1" using am_rx_ok_congv [OF e1(3)] ok'(2) by simp
    from am_check_t_reassembly [OF this] obtain e2 where
      e2: "am_check_t_reassembly e1 = Some e2" "am_rx_ok e2" "am_txv e2 = am_txv e1" "ev e2 = ev e1" by blast
    have "ev e1 = ev e @ out" using e1(3) by (simp add: am_rxv_def)
    then show ?thesis using e1 e2 am_tx_ok_cong [OF e2(3), of L] by (simp add: nr_rlc_entity_am_set_time_def)
  qed
  show "nr_rlc_entity_am_set_time e now = None \<longleftrightarrow> ?null" using null run by (cases ?null) auto
  show "nr_rlc_entity_am_set_time e now = Some e' \<Longrightarrow> am_tx_ok L e' \<and> am_rx_ok e' \<and> (\<exists>out. ev e' = ev e @ out \<and> set out \<subseteq> {Max_retx_reached})"
    using null run by (cases ?null) auto
qed

section \<open>Control PDUs\<close>

text \<open>Before anything else \<open>recv_pdu\<close> counts the PDU (\<open>am_count_rx\<close>), which touches the statistics only.\<close>

lemma am_count_rx_views [simp]: "am_txv (am_count_rx e sz) = am_txv e" "am_rxv (am_count_rx e sz) = am_rxv e"
  by (simp_all add: am_count_rx_def)

lemma am_recv_pdu_control:
  assumes "1 \<le> sz" "sz \<le> int (length buffer)" "\<not> bit (buffer ! 0) 7"
  shows "nr_rlc_entity_am_recv_pdu e buffer sz = process_control_pdu (am_count_rx e sz) buffer sz"
proof -
  have "buffer \<noteq> []" "8 * nat sz \<ge> 1" using assms by auto
  then obtain b bs where b: "buffer = b # bs" by (cases buffer) auto
  have "take 1 (bits_of buffer) = [bit b 7]" by (simp add: b byte_bits_def upt_rec)
  then have "bits_val (take (Suc 0) (bits_of buffer)) = 0" using assms(3) b by (simp add: bits_val_def)
  then show ?thesis
    using assms \<open>8 * nat sz \<ge> 1\<close>
    by (simp add: nr_rlc_entity_am_recv_pdu_def decoder_init_at am_count_rx_def Let_def get_field_at [where n = 1])
qed

definition am_conformant :: "am \<Rightarrow> byte list \<Rightarrow> int \<Rightarrow> bool" where
  "am_conformant e buffer sz \<longleftrightarrow>
     (\<forall>ack_sn nks. status_pdu e buffer sz ack_sn nks \<longrightarrow> status_wf e ack_sn (status_items e nks))"

lemma am_control_ok:
  assumes ok: "am_tx_ok {#} e" "am_rx_ok e" and sz: "0 \<le> sz" "sz \<le> int (length buf)" and conf: "am_conformant e buf sz"
  shows "\<exists>e'. process_control_pdu e buf sz = Some e' \<and> am_tx_ok {#} e' \<and> am_rx_ok e'"
proof (cases "validate_control_pdu e buf sz = Some None")
  case True
  then show ?thesis using ok by (simp add: process_control_pdu_def)
next
  case False
  have cfg: "am_cfg e" using ok(1) by (simp add: am_tx_ok_def am_tx_core_def)
  obtain ack_sn nks where p: "status_pdu e buf sz ack_sn nks"
    by (rule validate_control_pdu [OF cfg sz]) (use False that in \<open>auto simp: status_pdu_def\<close>)
  then have "status_wf e ack_sn (status_items e nks)" using conf by (simp add: am_conformant_def)
  from process_status_pdu [OF ok(1) sz p this] obtain e' out where
    e': "process_control_pdu e buf sz = Some e'" "am_tx_ok {#} e'" "am_rxv e' = am_rxv (e\<lparr>ev := ev e @ out\<rparr>)" by blast
  then show ?thesis using am_rx_ok_congv [OF e'(3)] ok(2) by simp
qed

section \<open>Every reachable entity\<close>

inductive am_run :: "am \<Rightarrow> bool" where
  start: "new_nr_rlc_entity_am rx_max tx_max t_poll t_reas t_prohibit poll_pdu poll_byte max_retx len = Some e \<Longrightarrow>
    0 \<le> rx_max \<Longrightarrow> 0 \<le> tx_max \<Longrightarrow> am_run e"
| recv_sdu: "am_run e \<Longrightarrow> 0 \<le> sz \<Longrightarrow> sz \<le> int (length buffer) \<Longrightarrow>
    nr_rlc_entity_am_recv_sdu time_now e buffer sz sdu_id = Some e' \<Longrightarrow> am_run e'"
| generate_pdu: "am_run e \<Longrightarrow> sz \<le> int (length buffer) \<Longrightarrow>
    nr_rlc_entity_am_generate_pdu time_now e buffer sz = Some (e', b, n) \<Longrightarrow> am_run e'"
| data_pdu: "am_run e \<Longrightarrow> 1 \<le> sz \<Longrightarrow> sz \<le> int (length buffer) \<Longrightarrow> bit (buffer ! 0) 7 \<Longrightarrow> am_rx_room e (am_rx_next e) \<Longrightarrow>
    nr_rlc_entity_am_recv_pdu e buffer sz = Some e' \<Longrightarrow> am_run e'"
| control_pdu: "am_run e \<Longrightarrow> 1 \<le> sz \<Longrightarrow> sz \<le> int (length buffer) \<Longrightarrow> \<not> bit (buffer ! 0) 7 \<Longrightarrow>
    am_conformant (am_count_rx e sz) buffer sz \<Longrightarrow> nr_rlc_entity_am_recv_pdu e buffer sz = Some e' \<Longrightarrow> am_run e'"
| set_time: "am_run e \<Longrightarrow> nr_rlc_entity_am_set_time e now = Some e' \<Longrightarrow> am_run e'"
| discard_sdu: "am_run e \<Longrightarrow> nr_rlc_entity_am_discard_sdu e sdu_id = Some e' \<Longrightarrow> am_run e'"
| reestablishment: "am_run e \<Longrightarrow> nr_rlc_entity_am_reestablishment e = Some e' \<Longrightarrow> am_run e'"

lemma am_rx_maxsize_nonneg:
  assumes ok: "am_rx_ok e"
  shows "0 \<le> am_rx_maxsize e"
proof -
  have r: "rxm_ok (am_rx e)" "rxm_size (am_rx e) = am_window_size e" "am_slots_ok e"
    using ok by (simp_all add: am_rx_ok_def am_rx_base_def)
  have "0 \<le> stored_bytes l" if l: "l \<in> set (rxm_rx_list (am_rx e))" for l
  proof -
    obtain i where i: "i < length (rxm_rx_list (am_rx e))" "rxm_rx_list (am_rx e) ! i = l" using l by (auto simp: in_set_conv_nth)
    let ?d = "(int i - rxm_start (am_rx e)) mod am_window_size e"
    have "rx_slot e ?d = l" using i r(1,2) by (simp add: rxm_slot_def rxm_ok_def mod_add_right_eq)
    moreover have "0 \<le> ?d" "?d < am_window_size e" using r(1,2) by (simp_all add: rxm_ok_def)
    ultimately have "pdus_ok (rx_sn e ?d) l" using r(3) by (auto simp: am_slots_ok_def)
    then have "0 \<le> pdu_size p" if "p \<in> set l" for p using that by (auto simp: pdus_ok_def pdu_ok_def)
    then show ?thesis unfolding stored_bytes_def by (intro sum_list_nonneg) auto
  qed
  then have "0 \<le> rx_stored (am_rx e)" unfolding rx_stored_def by (intro sum_list_nonneg) auto
  then show ?thesis using ok by (simp add: am_rx_ok_def am_rx_acct_def)
qed

lemma am_run_ok: "am_run e \<Longrightarrow> am_tx_ok {#} e \<and> am_rx_ok e"
proof (induction rule: am_run.induct)
  case (start rx_max tx_max t_poll t_reas t_prohibit poll_pdu poll_byte max_retx len e)
  then show ?case using new_am_tx_ok [OF start] new_am_entity(1) [OF start(1,2)] by simp
next
  case (recv_sdu e sz buffer time_now sdu_id e')
  then have "sz \<le> NR_SDU_MAX" by (auto simp: nr_rlc_entity_am_recv_sdu_def bind_Some_iff Let_def)
  then show ?case
    using am_recv_sdu [where L = "{#}" and e = e and sz = sz and buffer = buffer and time_now = time_now and sdu_id = sdu_id] recv_sdu am_rx_ok_congv [of e' e] by auto
next
  case (generate_pdu e sz buffer time_now e' b n)
  then show ?case using am_generate_any [where L = "{#}" and e = e and sz = sz and buffer = buffer and time_now = time_now] am_rx_ok_congv [of e' e] by auto
next
  case (data_pdu e sz buffer e')
  then obtain out where "am_rx_ok e'" "am_rx_frame e e'"
    using am_data_pdu_outcome [where e = e and sz = sz and buffer = buffer] by auto
  then show ?case using data_pdu.IH am_tx_ok_cong [OF am_rx_frame_txv] by simp
next
  case (control_pdu e sz buffer e')
  have "am_tx_ok {#} (am_count_rx e sz)" "am_rx_ok (am_count_rx e sz)"
    using control_pdu.IH am_tx_ok_cong [of "am_count_rx e sz" e] am_rx_ok_congv [of "am_count_rx e sz" e] by simp_all
  from am_control_ok [OF this, where buf = buffer and sz = sz] show ?case
    using control_pdu am_recv_pdu_control [where e = e and sz = sz and buffer = buffer] by auto
next
  case (set_time e now e')
  then show ?case using am_set_time(2) [of "{#}" e now e'] by auto
next
  case (discard_sdu e sdu_id e')
  then show ?case using am_discard_sdu [of "{#}" e sdu_id] am_rx_ok_congv [of e' e] by auto
next
  case (reestablishment e e')
  then have "am_rx_base e" "0 \<le> am_rx_maxsize e" using am_rx_maxsize_nonneg by (auto simp: am_rx_ok_def)
  then show ?case using am_clear [of e] reestablishment by (auto simp: nr_rlc_entity_am_reestablishment_def)
qed

section \<open>A concrete entity\<close>

text \<open>
  A new entity (12-bit sequence numbers) that has sent the SDU \<open>[1, 2, 3]\<close> in one PDU: its segment waits for
  the acknowledgement, or is to be retransmitted. The concrete instances below start from it.
\<close>

abbreviation sent_seg :: seg where
  "sent_seg \<equiv> \<lparr>seg_addr = Suc 0, seg_sdu = 0, seg_size = 3, seg_so = 0, seg_is_first = True, seg_is_last = True\<rparr>"

definition am_one_sent :: "bool \<Rightarrow> am \<Rightarrow> am" where
  "am_one_sent rtx e = bstatus_update (bs_retx_size_update (\<lambda>_. if rtx then 5 else 0))
     (e\<lparr>sdus := \<lparr>heap_sdus = [0 \<mapsto> \<lparr>sdu_sn = 0, sdu_upper_layer_id = 7, sdu_data = [1, 2, 3], sdu_size = 3,
          sdu_retx_count = -1, sdu_ref_count = 1, sdu_free_count = 0, sdu_time_of_arrival = 0\<rparr>], heap_next = 2\<rparr>,
        am_tx_size := 3, am_tx_next := 1, am_wait_list := (if rtx then [] else [sent_seg]),
        am_wait_end := (if rtx then None else Some sent_seg), am_retransmit_list := (if rtx then [sent_seg] else [])\<rparr>)"

lemma am_one_sent_ok:
  assumes new: "new_nr_rlc_entity_am 1000 1000 45 35 0 4 (-1) 8 12 = Some e"
  shows "am_tx_ok {#} (am_one_sent rtx e)"
proof -
  have cfg: "am_cfg e" "window_ok (txsdu_avg_time_to_tx e)"
    using new_am_entity_room(2) [OF new] new time_average_new_ok by (auto simp: new_nr_rlc_entity_am_def bind_Some_iff Let_def)
  have e: "am_sn_field_length e = 12" "am_sn_modulus e = 4096" "am_window_size e = 2048" "am_tx_next_ack e = 0"
    "am_tx_list e = []" "am_tx_end e = None" "am_tx_maxsize e = 5000" "bs_tx_size (bstatus e) = 0"
    using new by (auto simp: new_nr_rlc_entity_am_def bind_Some_iff Let_def bstatus_zero_def)
  show ?thesis
    using cfg e
    by (auto simp: am_tx_ok_def am_tx_order_def am_tx_defs am_one_sent_def segs_apart_def sn_valid_def tx_dist_def circ_dist_def
      heap_ok_def heap_bytes_def seg_fits_def refs_def addr_uses_def list_end_def am_cost_def am_compute_pdu_header_size_def
      seg_sn_def split: if_splits)
qed

end
