(* ===== verification/RLC_AM_Guarantees.thy ===== *)
theory RLC_AM_Guarantees
  imports RLC_AM_Entity
begin

text \<open>
  What the AM entity as a whole guarantees to the layers around it, over every entity that its interface can
  build, and where the code falls short of it.
\<close>

section \<open>The invariant\<close>


lemma am_demo_new: "\<exists>e. new_nr_rlc_entity_am 1000 1000 45 35 0 4 (-1) 8 12 = Some e \<and> am_run e"
  using new_am_entity_returns [of 12] am_run.start [of 1000 1000 45 35 0 4 "-1" 8 12] by fastforce


section \<open>Every call returns\<close>



section \<open>Transmission\<close>

text \<open>
  C6. A PDU is never larger than what the scheduler grants and never written beyond the buffer. A status
  report that is due comes first; otherwise the PDU is the exact image of one segment, which then waits for its
  acknowledgement. When nothing fits, the entity is unchanged.
\<close>

theorem am_generate_fits:
  assumes "am_run e" "sz \<le> int (length buffer)"
  shows "\<exists>e' b n. nr_rlc_entity_am_generate_pdu time_now e buffer sz = Some (e', b, n) \<and> 0 \<le> n \<and> n \<le> max 0 sz \<and>
    length b = length buffer \<and> (if status_to_report e \<and> 3 \<le> sz then generate_status e buffer sz = Some (e', b, n) \<and> 3 \<le> n
      else n = 0 \<and> e' = e \<or> (\<exists>t p. am_sent e' t p b n))"
proof -
  have ok: "am_tx_ok {#} e" "am_rx_ok e" using am_run_ok [OF assms(1)] by simp_all
  obtain e' b n where g: "nr_rlc_entity_am_generate_pdu time_now e buffer sz = Some (e', b, n)" "length b = length buffer"
      "am_generated_any e buffer sz e' b n" using am_generate_any [OF ok assms(2), of time_now] by blast
  show ?thesis
    by (intro exI [of _ e'] exI [of _ b] exI [of _ n]) (use g in \<open>auto simp: am_generated_any_def am_generated_def split: if_splits\<close>)
qed

theorem am_generate_fits_witness:
  "\<exists>e e' b n. new_nr_rlc_entity_am 1000 1000 45 35 0 4 (-1) 8 12 = Some e \<and>
     nr_rlc_entity_am_generate_pdu 0 e (replicate 10 0) 8 = Some (e', b, n) \<and> n \<le> 8 \<and> length b = 10"
proof -
  obtain e where e: "new_nr_rlc_entity_am 1000 1000 45 35 0 4 (-1) 8 12 = Some e" "am_run e" using am_demo_new by blast
  then show ?thesis using am_generate_fits [OF e(2), of 8 "replicate 10 0" 0] by fastforce
qed

text \<open>
  C12. The size that \<open>status_size\<close> reports to the scheduler is the size of the status PDU that \<open>generate_status\<close>
  then builds in a buffer of that many bytes.
\<close>

theorem am_status_size_exact:
  assumes "am_run e" "sz \<le> int (length buffer)"
  shows "\<exists>n e' b. am_status_size e sz = Some n \<and> generate_status e buffer sz = Some (e', b, n) \<and> n \<le> max 0 sz"
  using generate_status [OF _ assms(2)] am_run_ok [OF assms(1)] by blast

theorem am_status_size_exact_witness:
  "\<exists>e n e' b. new_nr_rlc_entity_am 1000 1000 45 35 0 4 (-1) 8 12 = Some e \<and>
     am_status_size e 8 = Some n \<and> generate_status e (replicate 10 0) 8 = Some (e', b, n)"
proof -
  obtain e where e: "new_nr_rlc_entity_am 1000 1000 45 35 0 4 (-1) 8 12 = Some e" "am_run e" using am_demo_new by blast
  then show ?thesis using am_status_size_exact [OF e(2), of 8 "replicate 10 0"] by fastforce
qed

text \<open>
  C14. An SDU from the upper layer is refused, with the transmitter unchanged, exactly when it does not fit in the
  transmission buffer; otherwise it is queued last, unsegmented and intact.
\<close>

theorem am_sdu_queued:
  assumes "am_run e" "0 \<le> sz" "sz \<le> int (length buffer)" "sz \<le> NR_SDU_MAX"
  shows "\<exists>e'. nr_rlc_entity_am_recv_sdu time_now e buffer sz sdu_id = Some e' \<and> am_rxv e' = am_rxv e \<and>
    (if nr_rlc_entity_am_available_tx_space e < sz then am_txv e' = am_txv e
     else \<exists>s. am_tx_list e' = am_tx_list e @ [s] \<and> am_queued e' s = Some (sdu_id, take (nat sz) buffer) \<and>
       nr_rlc_entity_am_available_tx_space e' = nr_rlc_entity_am_available_tx_space e - sz)"
proof -
  have e: "am_tx_ok {#} e" using am_run_ok [OF assms(1)] by simp
  obtain e' where e': "nr_rlc_entity_am_recv_sdu time_now e buffer sz sdu_id = Some e'" "am_rxv e' = am_rxv e"
    "if am_tx_size e + sz > am_tx_maxsize e then am_txv e' = am_txv e
     else \<exists>s. am_tx_list e' = am_tx_list e @ [s] \<and> am_queued e' s = Some (sdu_id, take (nat sz) buffer) \<and>
       am_wait_list e' = am_wait_list e \<and> am_retransmit_list e' = am_retransmit_list e \<and> am_tx_size e' = am_tx_size e + sz"
    using am_recv_sdu [OF e assms(2-), of time_now sdu_id] by blast
  have "am_tx_maxsize e' = am_tx_maxsize e" using e'(1)
    by (auto simp: nr_rlc_entity_am_recv_sdu_def bind_Some_iff Let_def split: if_splits prod.splits)
  then show ?thesis using e' by (auto simp: nr_rlc_entity_am_available_tx_space_def split: if_splits)
qed

theorem am_sdu_queued_witness:
  "\<exists>e e'. new_nr_rlc_entity_am 1000 1000 45 35 0 4 (-1) 8 12 = Some e \<and>
     nr_rlc_entity_am_recv_sdu 0 e [1, 2, 3] 3 7 = Some e' \<and> am_rxv e' = am_rxv e"
proof -
  obtain e where e: "new_nr_rlc_entity_am 1000 1000 45 35 0 4 (-1) 8 12 = Some e" "am_run e" using am_demo_new by blast
  then show ?thesis using am_sdu_queued [OF e(2), of 3 "[1, 2, 3]" 0 7] by (auto simp: NR_SDU_MAX_def)
qed





section \<open>Acknowledgement\<close>

text \<open>
  C4. A status PDU whose NACKs are in order and below its ACK_SN acknowledges exactly what it says: of the
  segments in flight those at or beyond ACK_SN keep waiting, those a NACK names are retransmitted in order, all
  the others are released; what is not sent yet is untouched.
\<close>

theorem am_status_acknowledges:
  assumes "am_tx_ok {#} e" "0 \<le> sz" "sz \<le> int (length buffer)" "status_pdu e buffer sz ack_sn nks"
    and "status_wf e ack_sn (status_items e nks)"
  shows "\<exists>e'. process_control_pdu e buffer sz = Some e' \<and> am_tx_ok {#} e' \<and>
    am_wait_list e' = filter (seg_beyond e ack_sn) (am_wait_list e) \<and>
    mset (am_retransmit_list e') =
      filter_mset (seg_nacked e (status_items e nks)) (mset (am_wait_list e) + mset (am_retransmit_list e)) +
      filter_mset (seg_beyond e ack_sn) (mset (am_retransmit_list e)) \<and>
    am_tx_next_ack e' = ack_bound e ack_sn (am_retransmit_list e') \<and> am_tx_list e' = am_tx_list e \<and> am_tx_next e' = am_tx_next e"
  by (rule process_status_pdu [OF assms]) blast

lemma am_one_sent_fields:
  assumes "new_nr_rlc_entity_am 1000 1000 45 35 0 4 (-1) 8 12 = Some e"
  shows "am_sn_field_length (am_one_sent rtx e) = 12" "am_sn_modulus (am_one_sent rtx e) = 4096" "am_tx_next (am_one_sent rtx e) = 1"
    "am_window_size (am_one_sent rtx e) = 2048" "am_tx_next_ack (am_one_sent rtx e) = 0" "am_tx_list (am_one_sent rtx e) = []"
    "am_wait_list (am_one_sent rtx e) = (if rtx then [] else [sent_seg])"
    "am_retransmit_list (am_one_sent rtx e) = (if rtx then [sent_seg] else [])" "seg_sn (am_one_sent rtx e) sent_seg = Some 0"
  using assms by (auto simp: new_nr_rlc_entity_am_def bind_Some_iff Let_def am_one_sent_def seg_sn_def)

lemma status_ack_1:
  assumes "am_sn_field_length e = 12" "am_sn_compare_tx e 1 (am_tx_next e) \<le> 0"
  shows "status_pdu e [0, 1, 0] 3 1 []"
proof -
  have "validate_control_pdu e [0, 1, 0] 3 = Some (Some (1, 0, dec_at [0, 1, 0] 3 24))"
    using assms by (simp add: validate_control_pdu_def decoder_init_at get_field_at bits_of_def byte_bits_def upt_rec bits_val_def validate_nacks.simps)
  then show ?thesis using status_nacks.nil by (auto simp: status_pdu_def)
qed

theorem am_status_acknowledges_witness:
  "\<exists>e e'. new_nr_rlc_entity_am 1000 1000 45 35 0 4 (-1) 8 12 = Some e \<and> am_wait_list (am_one_sent False e) = [sent_seg] \<and>
     process_control_pdu (am_one_sent False e) [0, 1, 0] 3 = Some e' \<and> am_wait_list e' = [] \<and> am_retransmit_list e' = [] \<and>
     am_tx_next_ack e' = 1"
proof -
  obtain e where e: "new_nr_rlc_entity_am 1000 1000 45 35 0 4 (-1) 8 12 = Some e" using am_demo_new by blast
  note f = am_one_sent_fields [OF e]
  have s: "status_pdu (am_one_sent False e) [0, 1, 0] 3 1 []"
    by (rule status_ack_1) (simp_all add: f am_sn_compare_tx_def)
  have d: "\<not> seg_beyond (am_one_sent False e) 1 sent_seg" by (simp add: seg_beyond_def tx_dist_def f circ_dist_def)
  have w: "status_wf (am_one_sent False e) 1 (status_items (am_one_sent False e) [])" by (simp add: status_wf_def status_items_def f)
  from am_status_acknowledges [OF am_one_sent_ok [OF e] _ _ s w] show ?thesis
    using d e by (auto simp: f status_items_def seg_nacked_def ack_bound_def)
qed

text \<open>
  C13. Whatever bytes arrive as a control PDU, its processing returns, every segment left in a list points to an SDU
  of the store that is not freed, the receiver is untouched and nothing is delivered.
\<close>

theorem am_control_pdu_safe:
  assumes "am_run e" "1 \<le> sz" "sz \<le> int (length buffer)" "\<not> bit (buffer ! 0) 7"
  shows "\<exists>e' L out. nr_rlc_entity_am_recv_pdu e buffer sz = Some e' \<and> am_tx_mem L e' \<and>
    am_rxv e' = am_rxv (e\<lparr>ev := ev e @ out\<rparr>) \<and> (\<forall>d. Deliver_sdu d \<notin> set out)"
proof -
  have v: "am_txv (am_count_rx e sz) = am_txv e" "am_rxv ((am_count_rx e sz)\<lparr>ev := ev (am_count_rx e sz) @ out\<rparr>) = am_rxv (e\<lparr>ev := ev e @ out\<rparr>)" for out
    by (simp_all add: am_count_rx_def am_rxv_def)
  have "am_tx_ok {#} (am_count_rx e sz)" using am_run_ok [OF assms(1)] am_tx_ok_cong [OF v(1)] by simp
  from process_control_pdu_safe [OF this _ assms(3)] show ?thesis
    using assms(2) am_recv_pdu_control [OF assms(2-4)] by (simp add: v(2))
qed

theorem am_control_pdu_safe_witness:
  "\<exists>e e' L. new_nr_rlc_entity_am 1000 1000 45 35 0 4 (-1) 8 12 = Some e \<and>
     nr_rlc_entity_am_recv_pdu e [0, 0, 0x80, 0xff] 4 = Some e' \<and> am_tx_mem L e'"
proof -
  obtain e where e: "new_nr_rlc_entity_am 1000 1000 45 35 0 4 (-1) 8 12 = Some e" "am_run e" using am_demo_new by blast
  then show ?thesis using am_control_pdu_safe [OF e(2), of 4 "[0, 0, 0x80, 0xff]"] by fastforce
qed

section \<open>Where the code fails\<close>

text \<open>
  C17. When nothing waits for an acknowledgement and a status PDU carries one NACK, for an offset beyond the
  first segment to retransmit, with NACK_SN equal to ACK_SN (which the comments of the code allow), the whole
  retransmit list is dropped: its SDUs stay in the store, in no list, and are never sent nor freed.
\<close>

theorem am_nack_of_ack_sn_drops_retransmissions:
  assumes "am_tx_ok {#} e" "0 \<le> sz" "sz \<le> int (length buffer)"
    and "status_pdu e buffer sz ack_sn [nk]" "nk_sn nk = ack_sn" "nk_range nk = 1"
    and "am_wait_list e = []" "am_retransmit_list e = s # l" "seg_sn e s = Some ack_sn"
    and "0 < seg_size s" "seg_so s + seg_size s \<le> nk_so_start nk"
  shows "\<exists>e'. process_control_pdu e buffer sz = Some e' \<and> am_wait_list e' = [] \<and> am_retransmit_list e' = [] \<and>
    am_tx_list e' = am_tx_list e \<and> sdus e' = sdus e"
  by (rule process_status_loses [OF assms])

lemma status_nack_0:
  assumes "am_sn_field_length e = 12" "am_cfg e" "am_sn_compare_tx e 0 (am_tx_next e) \<le> 0"
  shows "status_pdu e [0, 0, 0x80, 0, 4, 0, 5, 0xff, 0xff] 9 0
    [\<lparr>nk_sn = 0, nk_e1 = 0, nk_so_start = 5, nk_so_end = -1, nk_range = 1\<rparr>]"
proof -
  let ?b = "[0, 0, 0x80, 0, 4, 0, 5, 0xff, 0xff]" and ?nk = "\<lparr>nk_sn = 0, nk_e1 = 0, nk_so_start = 5, nk_so_end = -1, nk_range = 1\<rparr>"
  have c: "read_nack_checked e (dec_at ?b 9 24) = Some (Some (?nk, dec_at ?b 9 72))"
    using assms(1) by (simp add: read_nack_checked_def get_field_at bits_of_def byte_bits_def upt_rec bits_val_def)
  have n: "read_nack e (dec_at ?b 9 24) = Some (?nk, dec_at ?b 9 72)"
    using read_nack [OF assms(2), of 24 9 ?b] c by (auto simp: reads_nack_def)
  have "validate_nacks e 0 (dec_at ?b 9 24) 1 = Some True"
    using c by (simp add: validate_nacks.simps am_sn_compare_tx_def cmod_def)
  then have "validate_control_pdu e ?b 9 = Some (Some (0, 1, dec_at ?b 9 24))"
    using assms by (simp add: validate_control_pdu_def decoder_init_at get_field_at bits_of_def byte_bits_def upt_rec bits_val_def)
  moreover have "status_nacks e (dec_at ?b 9 24) 1 [?nk]" using n by (auto intro!: status_nacks.intros)
  ultimately show ?thesis by (auto simp: status_pdu_def)
qed

theorem am_nack_of_ack_sn_drops_retransmissions_witness:
  "\<exists>e e'. new_nr_rlc_entity_am 1000 1000 45 35 0 4 (-1) 8 12 = Some e \<and> am_retransmit_list (am_one_sent True e) = [sent_seg] \<and>
     process_control_pdu (am_one_sent True e) [0, 0, 0x80, 0, 4, 0, 5, 0xff, 0xff] 9 = Some e' \<and>
     am_wait_list e' = [] \<and> am_retransmit_list e' = [] \<and> sdus e' = sdus (am_one_sent True e)"
proof -
  obtain e where e: "new_nr_rlc_entity_am 1000 1000 45 35 0 4 (-1) 8 12 = Some e" using am_demo_new by blast
  note f = am_one_sent_fields [OF e]
  have s: "status_pdu (am_one_sent True e) [0, 0, 0x80, 0, 4, 0, 5, 0xff, 0xff] 9 0
      [\<lparr>nk_sn = 0, nk_e1 = 0, nk_so_start = 5, nk_so_end = -1, nk_range = 1\<rparr>]"
    by (rule status_nack_0) (use am_one_sent_ok [OF e, of True] in \<open>simp_all add: f am_sn_compare_tx_def am_modulus_tx_def am_tx_ok_def am_tx_core_def\<close>)
  show ?thesis
    using am_nack_of_ack_sn_drops_retransmissions [OF am_one_sent_ok [OF e] _ _ s, of sent_seg "[]"] e f by auto
qed


lemma am_tx_ok_next:
  assumes "am_tx_ok L e" "sn_valid e n" "tx_dist e (am_tx_next e) \<le> tx_dist e n" "tx_dist e n \<le> am_window_size e"
  shows "am_tx_ok L (e\<lparr>am_tx_next := n\<rparr>)"
proof -
  have core: "am_tx_core L (e\<lparr>am_tx_next := n\<rparr>)" using assms(1,2) by (simp add: am_tx_ok_def am_tx_defs)
  have "tx_dist e (sdu_sn sdu) < tx_dist e n" if "heap_sdus (sdus e) a = Some sdu" "sdu_sn sdu \<noteq> -1" for a sdu
    using assms(1,3) that by (fastforce simp: am_tx_ok_def am_tx_order_def)
  then have "am_tx_order (e\<lparr>am_tx_next := n\<rparr>)" using assms(1,4) by (simp add: am_tx_ok_def am_tx_order_def)
  then show ?thesis using core by (simp add: am_tx_ok_def)
qed


section \<open>Transmitter and receiver\<close>

text \<open>
  The PDU of a segment of the SDU numbered \<open>c\<close> (counted without wrap-around) is one that the peer understands.
\<close>

lemma am_sent_bytes:
  assumes cfg: "am_cfg rx" "am_cfg tx" "am_sn_field_length rx = am_sn_field_length tx" and sent: "am_sent tx t p b n"
    and f: "heap_sdus (sdus tx) (seg_sdu t) = Some sdu" "f c = sdu_data sdu" "c mod am_sn_modulus tx = sdu_sn sdu"
    and n: "0 < seg_size t" "n \<le> int (length b)"
  shows "am_pdu_bytes rx f c (seg_so t) (seg_size t) (take (nat n) b)"
proof -
  define h where "h = am_compute_pdu_header_size tx t"
  have t: "n = h + seg_size t" "seg_fits sdu t" "am_pdu_image tx t sdu p b"
    using sent f(1) by (auto simp: am_sent_def am_cost_def h_def)
  have h: "h = 2 + (if am_sn_field_length rx = 18 then 1 else 0) + (if seg_so t = 0 then 0 else 2)"
    using t(2) cfg(2) by (auto simp: h_def am_compute_pdu_header_size_def seg_fits_def cfg(3) am_cfg_def)
  have flags: "seg_is_first t \<longleftrightarrow> seg_so t = 0" "seg_is_last t \<longleftrightarrow> seg_so t + seg_size t = int (length (f c))" "0 \<le> seg_so t"
    "seg_so t + seg_size t \<le> int (length (f c))" using t(2) f(2) by (auto simp: seg_fits_def)
  have m: "am_sn_modulus rx = am_sn_modulus tx" using cfg by (auto simp: am_cfg_def)
  have hn: "2 + (if am_sn_field_length rx = 18 then 1 else 0) + (if seg_so t = 0 then 0 else 2) = nat h" by (simp add: h)
  have fields: "am_header_fields rx = am_header_fields tx" by (simp add: am_header_fields_def fun_eq_iff cfg(3))
  have "nat h \<le> nat n" using t(1) n(1) by simp
  then have "take (nat h) (take (nat n) b) = take (nat h) b" by (simp add: min_def)
  then have hdr: "bits_of (take (nat h) (take (nat n) b)) = fields_bits (am_header_fields rx (of_bool p) (c mod am_sn_modulus rx)
      (seg_so t) (seg_so t = 0) (seg_so t + seg_size t = int (length (f c))))"
    using t(3) flags(1,2) f(3) m by (simp only: am_pdu_image_def h_def fields)
  have "drop (nat h) (take (nat n) b) = take (nat (seg_size t)) (drop (nat h) b)"
    using t(1) n(1) h by (simp add: drop_take nat_add_distrib)
  then have pay: "drop (nat h) (take (nat n) b) = take (nat (seg_size t)) (drop (nat (seg_so t)) (f c))"
    using t(3) f(2) by (simp add: am_pdu_image_def h_def)
  have len: "nat h \<le> length (take (nat n) b)" using n t(1) by simp
  show ?thesis
    unfolding am_pdu_bytes_def Let_def hn by (intro conjI bexI [of _ "of_bool p"]) (use flags n(1) hdr pay len in auto)
qed


lemma include_poll_keeps:
  "include_poll e buffer = Some (e', b) \<Longrightarrow> am_wait_list e' = am_wait_list e \<and> sdus e' = sdus e \<and>
     am_sn_field_length e' = am_sn_field_length e \<and> avg_time_is_on e' = avg_time_is_on e"
  by (auto simp: include_poll_def bind_Some_iff Let_def)

lemma am_serialize_keeps:
  assumes "am_serialize_sdu e s buffer sz p = Some (e', b, n)"
  shows "am_wait_list e' = am_wait_list e \<and> sdus e' = sdus e \<and>
     am_sn_field_length e' = am_sn_field_length e \<and> avg_time_is_on e' = avg_time_is_on e"
proof -
  obtain buffer1 where "(if p then include_poll e buffer1 else Some (e, buffer1)) = Some (e', b)"
    using assms unfolding am_serialize_sdu_def by (clarsimp simp only: bind_Some_iff split_paired_Ex prod.case option.inject prod.inject)
  then show ?thesis using include_poll_keeps by (cases p) auto
qed

lemma poll_new_pdu_keeps:
  "am_wait_list (fst (poll_new_pdu e s)) = am_wait_list e" "sdus (fst (poll_new_pdu e s)) = sdus e"
  "am_sn_field_length (fst (poll_new_pdu e s)) = am_sn_field_length e" "avg_time_is_on (fst (poll_new_pdu e s)) = avg_time_is_on e"
  by (simp_all add: poll_new_pdu_def take_force_poll_def Let_def)

lemma am_demo_send:
  assumes new: "new_nr_rlc_entity_am 1000 1000 45 35 0 4 (-1) 8 12 = Some e" and q: "nr_rlc_entity_am_recv_sdu 0 e [42] 1 7 = Some e1"
    and g: "nr_rlc_entity_am_generate_pdu 0 e1 [0, 0, 0] 3 = Some (e2, b, n)"
  shows "\<not> status_to_report e1" "length (am_wait_list e2) = 1" "am_wait_list e1 = []"
    "\<forall>t \<in> set (am_wait_list e2). seg_size t = 1 \<and> (\<exists>sdu. heap_sdus (sdus e2) (seg_sdu t) = Some sdu \<and> sdu_data sdu = [42] \<and> sdu_sn sdu = 0)"
    "am_sn_field_length e2 = 12"
proof -
  have e: "sdus e = heap_empty" "am_sn_field_length e = 12" "am_sn_modulus e = 4096" "am_window_size e = 2048"
    "\<not> am_status_triggered e" "am_tx_next e = 0" "am_tx_next_ack e = 0" "am_tx_list e = []" "am_tx_end e = None" "am_tx_size e = 0" "am_tx_maxsize e = 5000"
    "am_wait_list e = []" "am_wait_end e = None" "am_retransmit_list e = []" "am_sdu_rejected e = 0" "\<not> avg_time_is_on e"
    using new by (auto simp: new_nr_rlc_entity_am_def bind_Some_iff Let_def)
  let ?sdu = "\<lparr>sdu_sn = 0, sdu_upper_layer_id = 7, sdu_data = [42 :: byte],
        sdu_size = 1, sdu_retx_count = -1, sdu_ref_count = 1, sdu_free_count = 0, sdu_time_of_arrival = 0\<rparr>"
  let ?s = "\<lparr>seg_addr = Suc 0, seg_sdu = 0, seg_size = 1, seg_so = 0, seg_is_first = True, seg_is_last = True\<rparr>"
  have e1: "heap_sdus (sdus e1) 0 = Some \<lparr>sdu_sn = -1, sdu_upper_layer_id = 7, sdu_data = [42], sdu_size = 1,
        sdu_retx_count = -1, sdu_ref_count = 1, sdu_free_count = 0, sdu_time_of_arrival = 0\<rparr>"
    "am_tx_list e1 = [?s]" "\<not> am_status_triggered e1" "am_wait_list e1 = []" "am_wait_end e1 = None" "am_retransmit_list e1 = []"
    "am_sn_field_length e1 = 12" "am_sn_modulus e1 = 4096" "am_window_size e1 = 2048" "am_tx_next e1 = 0" "am_tx_next_ack e1 = 0"
    "\<not> avg_time_is_on e1"
    using q e by (auto simp: nr_rlc_entity_am_recv_sdu_def NR_SDU_MAX_def nr_rlc_new_sdu_def mem_simps nr_rlc_sdu_segment_list_append_def heap_empty_def Let_def heap_put_def)
  show "\<not> status_to_report e1" "am_wait_list e1 = []" using e1 by (simp_all add: status_to_report_def)
  have st: "\<not> is_window_stalling e1" "am_compute_pdu_header_size e1 ?s = 2" "cmod 1 4096 = 1"
    using e1 by (simp_all add: is_window_stalling_def am_sn_compare_tx_def am_modulus_tx_def Let_def cmod_def am_compute_pdu_header_size_def)
  have k: "am_wait_list e4 = [?s] \<and> am_sn_field_length e4 = 12 \<and> heap_sdus (sdus e4) 0 = Some ?sdu \<and> \<not> avg_time_is_on e4"
    if "am_serialize_sdu e3 ?s [0, 0, 0] 3 p = Some (e4, b, n)" "am_wait_list e3 = [?s]" "am_sn_field_length e3 = 12" "\<not> avg_time_is_on e3"
      "sdus e3 = heap_put (sdus e1) 0 ?sdu" for e3 e4 p b n
    using am_serialize_keeps [OF that(1)] that(2-) by (simp add: heap_put_def)
  have "nr_rlc_entity_am_generate_pdu 0 e1 [0, 0, 0] 3 = am_generate_tx_pdu 0 e1 [0, 0, 0] 3"
    using e1 by (simp add: nr_rlc_entity_am_generate_pdu_def status_to_report_def)
  then have "am_generate_tx_pdu 0 e1 [0, 0, 0] 3 = Some (e2, b, n)" using g by simp
  moreover obtain E where E: "E = bstatus_update (bs_tx_size_update (\<lambda>n. n - 3)) (e1\<lparr>am_tx_list := [], am_tx_end := None\<rparr>)" by simp
  have eq: "am_generate_tx_pdu 0 e1 [0, 0, 0] 3 = do {
      e \<leftarrow> am_assign_sn E ?s; e \<leftarrow> put_in_wait_list e ?s; let (e, p) = poll_new_pdu e ?s;
      (e, buffer, ret_size) \<leftarrow> am_serialize_sdu e ?s [0, 0, 0] 3 p;
      let e = stats_update (txpdu_pkts_update (\<lambda>n. n + 1) \<circ> txpdu_bytes_update (\<lambda>n. n + of_int ret_size)) e;
      e \<leftarrow> account_waited_time 0 e ?s; Some (e, buffer, ret_size) }"
    unfolding am_generate_tx_pdu_def e1(2) list.case Let_def st(2) if_not_P [OF st(1)] by (simp add: E)
  obtain E1 where E1: "E1 = E\<lparr>sdus := heap_put (sdus e1) 0 ?sdu, am_tx_next := 1\<rparr>" by simp
  have a1: "am_assign_sn E ?s = Some E1" using e1(1,8,10) st(3) by (simp add: am_assign_sn_def E1 E)
  obtain E2 where E2: "E2 = E1\<lparr>am_wait_list := [?s], am_wait_end := Some ?s\<rparr>" by simp
  have a2: "put_in_wait_list E1 ?s = Some E2"
    using e1(4,5) by (simp add: put_in_wait_list_def nr_rlc_sdu_segment_list_append_def E2 E1 E)
  obtain e3 p where p: "poll_new_pdu E2 ?s = (e3, p)" by fastforce
  have e3: "am_wait_list e3 = [?s]" "am_sn_field_length e3 = 12" "\<not> avg_time_is_on e3" "sdus e3 = heap_put (sdus e1) 0 ?sdu"
    using poll_new_pdu_keeps [of E2 ?s, unfolded p fst_conv] e1(7,12) by (simp_all add: E2 E1 E)
  ultimately obtain e4 b' n' where e4: "am_serialize_sdu e3 ?s [0, 0, 0] 3 p = Some (e4, b', n')"
      "account_waited_time 0 (stats_update (txpdu_pkts_update (\<lambda>n. n + 1) \<circ> txpdu_bytes_update (\<lambda>n. n + of_int n')) e4) ?s = Some e2"
    unfolding eq a1 by (auto simp: a2 p bind_Some_iff Let_def)
  have "am_wait_list e2 = [?s] \<and> am_sn_field_length e2 = 12 \<and> heap_sdus (sdus e2) 0 = Some ?sdu"
    using k [OF e4(1) e3] e4(2) by (auto simp: account_waited_time_def)
  then show "length (am_wait_list e2) = 1" "am_sn_field_length e2 = 12"
    "\<forall>t \<in> set (am_wait_list e2). seg_size t = 1 \<and> (\<exists>sdu. heap_sdus (sdus e2) (seg_sdu t) = Some sdu \<and> sdu_data sdu = [42] \<and> sdu_sn sdu = 0)"
    by simp_all
qed


end
