(* ===== verification/RLC_TM_Queue.thy ===== *)
theory RLC_TM_Queue
  imports RLC_Entity
begin

text \<open>
  The transparent-mode entity is a bounded first-in first-out queue of SDUs: a queue specification, the contract of
  an implementation as a locale, and its interpretation on the operations of the entity.
\<close>

section \<open>The specification\<close>

definition fifo_bytes :: "byte list list \<Rightarrow> int" where
  "fifo_bytes q = (\<Sum>d\<leftarrow>q. int (length d))"

definition fifo_put :: "int \<Rightarrow> byte list list \<Rightarrow> byte list \<Rightarrow> byte list list" where
  "fifo_put cap q d = (if fifo_bytes q + int (length d) > cap then q else q @ [d])"

fun fifo_get :: "byte list list \<Rightarrow> nat \<Rightarrow> byte list list \<times> byte list option" where
  "fifo_get [] n = ([], None)"
| "fifo_get (d # q) n = (if length d > n then (d # q, None) else (q, Some d))"

datatype ('x, 'y) queue_op = Put 'x "byte list" | Get 'y nat

fun fifo_run :: "int \<Rightarrow> byte list list \<Rightarrow> ('x, 'y) queue_op list \<Rightarrow> byte list list \<times> byte list list" where
  "fifo_run cap q [] = (q, [])"
| "fifo_run cap q (Put x d # ops) = fifo_run cap (fifo_put cap q d) ops"
| "fifo_run cap q (Get y n # ops) =
     (let (q, r) = fifo_get q n; (q, out) = fifo_run cap q ops
      in (q, (case r of None \<Rightarrow> out | Some d \<Rightarrow> d # out)))"

text \<open>The SDUs that the queue has room for when they arrive.\<close>

fun fifo_accepted :: "int \<Rightarrow> byte list list \<Rightarrow> ('x, 'y) queue_op list \<Rightarrow> byte list list" where
  "fifo_accepted cap q [] = []"
| "fifo_accepted cap q (Put x d # ops) =
     (if fifo_bytes q + int (length d) > cap then [] else [d]) @ fifo_accepted cap (fifo_put cap q d) ops"
| "fifo_accepted cap q (Get y n # ops) = fifo_accepted cap (fst (fifo_get q n)) ops"

lemma fifo_run_order: "fifo_run cap q ops = (q', out) \<Longrightarrow> out @ q' = q @ fifo_accepted cap q ops"
proof (induction cap q ops arbitrary: q' out rule: fifo_run.induct)
  case (3 cap q y n ops)
  obtain q1 r where g: "fifo_get q n = (q1, r)" by fastforce
  obtain q2 o2 where r: "fifo_run cap q1 ops = (q2, o2)" by fastforce
  have "o2 @ q2 = q1 @ fifo_accepted cap q1 ops" using 3(1) [OF g [symmetric] refl r] by simp
  moreover have "q = (case r of None \<Rightarrow> q1 | Some d \<Rightarrow> d # q1)" using g by (cases q) (auto split: if_splits)
  ultimately show ?case using 3(2) g r by (auto split: option.splits)
qed (auto simp: fifo_put_def)

fun queue_run :: "('s \<Rightarrow> 'x \<Rightarrow> byte list \<Rightarrow> 's option) \<Rightarrow> ('s \<Rightarrow> 'y \<Rightarrow> nat \<Rightarrow> ('s \<times> byte list option) option) \<Rightarrow>
    's \<Rightarrow> ('x, 'y) queue_op list \<Rightarrow> ('s \<times> byte list list) option" where
  "queue_run put get s [] = Some (s, [])"
| "queue_run put get s (Put x d # ops) = do { s \<leftarrow> put s x d; queue_run put get s ops }"
| "queue_run put get s (Get y n # ops) = do {
     (s, r) \<leftarrow> get s y n;
     (s, out) \<leftarrow> queue_run put get s ops;
     Some (s, (case r of None \<Rightarrow> out | Some d \<Rightarrow> d # out))
   }"

definition sdus_offered :: "('x, 'y) queue_op list \<Rightarrow> byte list set" where
  "sdus_offered ops = {d. \<exists>x. Put x d \<in> set ops}"

lemma sdus_offered_simps [simp]:
  "sdus_offered [] = {}" "sdus_offered (Put x d # ops) = insert d (sdus_offered ops)" "sdus_offered (Get y n # ops) = sdus_offered ops"
  by (auto simp: sdus_offered_def)

section \<open>The contract of an implementation\<close>

locale sdu_queue =
  fixes inv :: "'s \<Rightarrow> bool" and content :: "'s \<Rightarrow> byte list list" and capacity :: "'s \<Rightarrow> int"
    and put :: "'s \<Rightarrow> 'x \<Rightarrow> byte list \<Rightarrow> 's option" and get :: "'s \<Rightarrow> 'y \<Rightarrow> nat \<Rightarrow> ('s \<times> byte list option) option"
    and good :: "byte list \<Rightarrow> bool"
  assumes put_law: "inv s \<Longrightarrow> good d \<Longrightarrow>
      \<exists>s'. put s x d = Some s' \<and> inv s' \<and> capacity s' = capacity s \<and> content s' = fifo_put (capacity s) (content s) d"
    and get_law: "inv s \<Longrightarrow> \<exists>s' r. get s y n = Some (s', r) \<and> inv s' \<and> capacity s' = capacity s \<and> (content s', r) = fifo_get (content s) n"
begin

lemma run_refines:
  "inv s \<Longrightarrow> \<forall>d \<in> sdus_offered ops. good d \<Longrightarrow>
   \<exists>s' out. queue_run put get s ops = Some (s', out) \<and> inv s' \<and> (content s', out) = fifo_run (capacity s) (content s) ops"
proof (induction ops arbitrary: s)
  case (Cons op ops)
  show ?case
  proof (cases op)
    case (Put x d)
    obtain s1 where s1: "put s x d = Some s1" "inv s1" "capacity s1 = capacity s" "content s1 = fifo_put (capacity s) (content s) d"
      using put_law [OF Cons.prems(1), of d x] Cons.prems(2) Put by auto
    show ?thesis using Cons.IH [OF s1(2)] Cons.prems(2) Put s1 by auto
  next
    case (Get y n)
    obtain s1 r where s1: "get s y n = Some (s1, r)" "inv s1" "capacity s1 = capacity s" "(content s1, r) = fifo_get (content s) n"
      using get_law [OF Cons.prems(1), of y n] by blast
    obtain s2 out where s2: "queue_run put get s1 ops = Some (s2, out)" "inv s2" "(content s2, out) = fifo_run (capacity s1) (content s1) ops"
      using Cons.IH [OF s1(2)] Cons.prems(2) Get by auto
    show ?thesis using s1 s2 Get by (simp add: s1(4) [symmetric] s2(3) [symmetric, unfolded s1(3)])
  qed
qed simp

lemma run_fifo:
  assumes "inv s" "\<forall>d \<in> sdus_offered ops. good d"
  shows "\<exists>s' out. queue_run put get s ops = Some (s', out) \<and> inv s' \<and>
    out @ content s' = content s @ fifo_accepted (capacity s) (content s) ops"
  using run_refines [OF assms] fifo_run_order [of "capacity s" "content s" ops] by fastforce

end

section \<open>The entity\<close>

definition tm_bytes :: "seg list \<Rightarrow> int" where
  "tm_bytes l = (\<Sum>s\<leftarrow>l. seg_size s)"

definition tm_ok :: "tm \<Rightarrow> bool" where
  "tm_ok e \<longleftrightarrow> heap_ok (sdus e) (mset (tm_tx_list e)) \<and> segs_fit (sdus e) (mset (tm_tx_list e)) \<and>
     list_end (tm_tx_list e) (tm_tx_end e) \<and> distinct (map seg_sdu (tm_tx_list e)) \<and>
     (\<forall>s \<in> set (tm_tx_list e). seg_is_first s \<and> seg_is_last s \<and> 0 < seg_size s) \<and>
     tm_tx_size e = tm_bytes (tm_tx_list e) \<and> bs_tx_size (bstatus e) = tm_bytes (tm_tx_list e) \<and>
     tm_tx_size e \<le> tm_tx_maxsize e \<and> window_ok (txsdu_avg_time_to_tx e)"

definition heap_data :: "sdu_heap \<Rightarrow> seg \<Rightarrow> byte list" where
  "heap_data h s = (case heap_sdus h (seg_sdu s) of None \<Rightarrow> [] | Some sdu \<Rightarrow> sdu_data sdu)"

definition tm_content :: "tm \<Rightarrow> byte list list" where
  "tm_content e = map (heap_data (sdus e)) (tm_tx_list e)"

text \<open>The operations as the queue sees them: the SDU in a buffer of its size, the grant as a buffer of zeros.\<close>

definition tm_put :: "tm \<Rightarrow> u64 \<times> int \<Rightarrow> byte list \<Rightarrow> tm option" where
  "tm_put e x d = nr_rlc_entity_tm_recv_sdu (fst x) e d (int (length d)) (snd x)"

definition tm_get :: "tm \<Rightarrow> u64 \<Rightarrow> nat \<Rightarrow> (tm \<times> byte list option) option" where
  "tm_get e now n = do {
     (e, b, ret) \<leftarrow> nr_rlc_entity_tm_generate_pdu now e (replicate n 0) (int n);
     Some (e, if ret = 0 then None else Some (take (nat ret) b))
   }"

lemma heap_data_length: "tm_ok e \<Longrightarrow> s \<in> set (tm_tx_list e) \<Longrightarrow> int (length (heap_data (sdus e) s)) = seg_size s"
  using heap_ok_lookup [of "sdus e" "mset (tm_tx_list e)" s] by (auto simp: tm_ok_def segs_fit_def seg_fits_def heap_data_def)

lemma tm_content_bytes: "tm_ok e \<Longrightarrow> fifo_bytes (tm_content e) = tm_tx_size e"
  using heap_data_length [of e] by (auto simp: fifo_bytes_def tm_content_def tm_ok_def tm_bytes_def o_def intro!: arg_cong [of _ _ sum_list])

lemma tm_append:
  assumes ok: "tm_ok e" and d: "d \<noteq> []" "tm_tx_size e + int (length d) \<le> tm_tx_maxsize e"
  obtains s h where "nr_rlc_new_sdu (sdus e) d (int (length d)) sdu_id = Some (s, h)"
    "nr_rlc_sdu_segment_list_append (tm_tx_list e) (tm_tx_end e) s = Some (tm_tx_list e @ [s], Some s)"
    "seg_size s = int (length d)"
    "tm_ok (bstatus_update (bs_tx_size_update (\<lambda>n. n + int (length d)))
      (e\<lparr>tm_tx_size := tm_tx_size e + int (length d), sdus := h, tm_tx_list := tm_tx_list e @ [s], tm_tx_end := Some s\<rparr>))"
    "map (heap_data h) (tm_tx_list e) = tm_content e" "heap_data h s = d" "heap_sdus h (seg_sdu s) \<noteq> None"
proof -
  have m: "heap_ok (sdus e) (mset (tm_tx_list e))" "segs_fit (sdus e) (mset (tm_tx_list e))" "list_end (tm_tx_list e) (tm_tx_end e)"
    using ok by (simp_all add: tm_ok_def)
  obtain s h where new: "nr_rlc_new_sdu (sdus e) d (int (length d)) sdu_id = Some (s, h)" "heap_ok h (add_mset s (mset (tm_tx_list e)))"
    "seg_sdu s = heap_next (sdus e)" "seg_size s = int (length d)" "seg_so s = 0" "seg_is_first s" "seg_is_last s"
    and hs: "heap_sdus h = (heap_sdus (sdus e))(heap_next (sdus e) \<mapsto>
       \<lparr>sdu_sn = -1, sdu_upper_layer_id = sdu_id, sdu_data = take (nat (int (length d))) d, sdu_size = int (length d),
        sdu_retx_count = -1, sdu_ref_count = 1, sdu_free_count = 0, sdu_time_of_arrival = 0\<rparr>)"
    by (rule new_sdu [OF m(1), of "int (length d)" d sdu_id]) (use that in auto)
  have old: "seg_sdu t \<noteq> seg_sdu s" if "t \<in> set (tm_tx_list e)" for t
    using heap_okD(3) [OF m(1), of t] heap_ok_fresh [OF m(1), of "heap_next (sdus e)"] new(3) that by auto
  then have disj: "seg_sdu s \<notin> seg_sdu ` set (tm_tx_list e)" by force
  have app: "nr_rlc_sdu_segment_list_append (tm_tx_list e) (tm_tx_end e) s = Some (tm_tx_list e @ [s], Some s)"
    using segment_list_append [OF m(3)] heap_ok_distinct_addr [of "sdus e" "tm_tx_list e" "{#}"] m(1) by simp
  have data: "heap_data h t = heap_data (sdus e) t" if "t \<in> set (tm_tx_list e)" for t
    using old [OF that] new(3) by (simp add: heap_data_def hs)
  have fit: "segs_fit h (add_mset s (mset (tm_tx_list e)))"
    using m(2) old new(3-7) by (auto simp: segs_fit_def hs seg_fits_def)
  show ?thesis
  proof (rule that [OF new(1) app new(4)])
    show "tm_ok (bstatus_update (bs_tx_size_update (\<lambda>n. n + int (length d)))
      (e\<lparr>tm_tx_size := tm_tx_size e + int (length d), sdus := h, tm_tx_list := tm_tx_list e @ [s], tm_tx_end := Some s\<rparr>))"
      using ok new(2,4,6,7) fit disj d by (auto simp: tm_ok_def tm_bytes_def)
    show "map (heap_data h) (tm_tx_list e) = tm_content e" using data by (simp add: tm_content_def)
    show "heap_data h s = d" using new(3) by (simp add: heap_data_def hs)
    show "heap_sdus h (seg_sdu s) \<noteq> None" by (simp add: hs new(3))
  qed
qed

lemma tm_arrival:
  assumes "tm_ok e" "heap_sdus (sdus e) a = Some sdu"
  shows "tm_ok (e\<lparr>sdus := heap_put (sdus e) a (sdu\<lparr>sdu_time_of_arrival := t\<rparr>)\<rparr>)"
    "heap_data (heap_put (sdus e) a (sdu\<lparr>sdu_time_of_arrival := t\<rparr>)) = heap_data (sdus e)"
proof -
  let ?h = "heap_put (sdus e) a (sdu\<lparr>sdu_time_of_arrival := t\<rparr>)"
  have "heap_ok ?h (mset (tm_tx_list e))" using heap_ok_put [OF _ assms(2)] assms(1) by (simp add: tm_ok_def)
  moreover have "segs_fit ?h (mset (tm_tx_list e))"
    by (rule segs_fit_upd [OF _ assms(2)]) (use assms(1) in \<open>auto simp: tm_ok_def heap_put_def\<close>)
  ultimately show "tm_ok (e\<lparr>sdus := ?h\<rparr>)" using assms(1) by (simp add: tm_ok_def)
  show "heap_data ?h = heap_data (sdus e)" using assms(2) by (auto simp: heap_data_def heap_put_def fun_eq_iff)
qed

lemma tm_put_ok:
  assumes ok: "tm_ok e" and d: "d \<noteq> []" "int (length d) \<le> NR_SDU_MAX"
  shows "\<exists>e'. tm_put e x d = Some e' \<and> tm_ok e' \<and> tm_tx_maxsize e' = tm_tx_maxsize e \<and>
    tm_content e' = fifo_put (tm_tx_maxsize e) (tm_content e) d"
proof -
  define e1 where "e1 = (let e = stats_update (rxsdu_pkts_update (\<lambda>n. n + 1) \<circ> rxsdu_bytes_update (\<lambda>n. n + of_int (int (length d)))) e
    in if tm_sdu_rejected e \<noteq> 0 \<and> tm_t_current e > tm_t_log_buffer_full e + 1000
       then e\<lparr>tm_sdu_rejected := 0, tm_t_log_buffer_full := tm_t_current e\<rparr> else e)"
  have e1: "tm_ok e1" "tm_content e1 = tm_content e" "tm_tx_maxsize e1 = tm_tx_maxsize e" "tm_tx_size e1 = tm_tx_size e"
    using ok by (auto simp: e1_def tm_ok_def tm_content_def Let_def)
  have run: "tm_put e x d = (if tm_tx_size e1 + int (length d) > tm_tx_maxsize e1
     then Some (stats_update (rxsdu_dd_pkts_update (\<lambda>n. n + 1) \<circ> rxsdu_dd_bytes_update (\<lambda>n. n + of_int (int (length d))))
                 (e1\<lparr>tm_sdu_rejected := tm_sdu_rejected e1 + 1\<rparr>))
     else do {
       let e = e1\<lparr>tm_tx_size := tm_tx_size e1 + int (length d)\<rparr>;
       (s, h) \<leftarrow> nr_rlc_new_sdu (sdus e) d (int (length d)) (snd x);
       (l, t) \<leftarrow> nr_rlc_sdu_segment_list_append (tm_tx_list e) (tm_tx_end e) s;
       let e = bstatus_update (bs_tx_size_update (\<lambda>n. n + seg_size s))
         (e\<lparr>sdus := h, tm_tx_list := l, tm_tx_end := t\<rparr>);
       if avg_time_is_on e
       then do {
         sdu \<leftarrow> heap_sdus (sdus e) (seg_sdu s);
         Some (e\<lparr>sdus := heap_put (sdus e) (seg_sdu s) (sdu\<lparr>sdu_time_of_arrival := fst x\<rparr>)\<rparr>)
       }
       else Some e
     })"
    using d(2) by (simp add: tm_put_def nr_rlc_entity_tm_recv_sdu_def e1_def Let_def cong: if_cong)
  have bytes: "fifo_bytes (tm_content e) = tm_tx_size e1" using tm_content_bytes [OF e1(1)] e1(2) by simp
  show ?thesis
  proof (cases "tm_tx_size e1 + int (length d) > tm_tx_maxsize e1")
    case True
    then show ?thesis using run e1 bytes by (simp add: fifo_put_def) (simp add: tm_ok_def tm_content_def)
  next
    case False
    obtain s h where a: "nr_rlc_new_sdu (sdus e1) d (int (length d)) (snd x) = Some (s, h)"
      "nr_rlc_sdu_segment_list_append (tm_tx_list e1) (tm_tx_end e1) s = Some (tm_tx_list e1 @ [s], Some s)" "seg_size s = int (length d)"
      "tm_ok (bstatus_update (bs_tx_size_update (\<lambda>n. n + int (length d)))
        (e1\<lparr>tm_tx_size := tm_tx_size e1 + int (length d), sdus := h, tm_tx_list := tm_tx_list e1 @ [s], tm_tx_end := Some s\<rparr>))"
      "map (heap_data h) (tm_tx_list e1) = tm_content e1" "heap_data h s = d" "heap_sdus h (seg_sdu s) \<noteq> None"
      by (rule tm_append [OF e1(1) d(1), of "snd x"]) (use False that in auto)
    then obtain sdu where sdu: "heap_sdus h (seg_sdu s) = Some sdu" by blast
    show ?thesis
      using run False a(1-4,6) a(5)[unfolded e1(2)] sdu tm_arrival [OF a(4), of "seg_sdu s" sdu "fst x"] e1(3) bytes
      by (cases "avg_time_is_on e1") (simp_all add: Let_def fifo_put_def tm_content_def)
  qed
qed

lemma tm_get_ok:
  assumes ok: "tm_ok e"
  shows "\<exists>e' r. tm_get e now n = Some (e', r) \<and> tm_ok e' \<and> tm_tx_maxsize e' = tm_tx_maxsize e \<and>
    (tm_content e', r) = fifo_get (tm_content e) n"
proof (cases "tm_tx_list e")
  case Nil
  then show ?thesis
    using ok by (simp add: tm_get_def nr_rlc_entity_tm_generate_pdu_def tm_generate_tx_pdu_def tm_content_def)
next
  case (Cons s l)
  have len: "int (length (heap_data (sdus e) s)) = seg_size s" "0 < seg_size s"
    using heap_data_length [OF ok, of s] ok Cons by (auto simp: tm_ok_def)
  show ?thesis
  proof (cases "seg_size s > int n")
    case True
    then have "length (heap_data (sdus e) s) > n" using len by linarith
    then show ?thesis
      using ok True Cons by (simp add: tm_get_def nr_rlc_entity_tm_generate_pdu_def tm_generate_tx_pdu_def tm_content_def)
  next
    case False
    have m: "heap_ok (sdus e) (add_mset s (mset l))" "segs_fit (sdus e) (mset l)" using ok Cons by (simp_all add: tm_ok_def)
    obtain sdu where sdu: "heap_sdus (sdus e) (seg_sdu s) = Some sdu" using heap_ok_lookup [OF m(1)] by auto
    have "seg_sdu s \<notin> seg_sdu ` set l" using ok Cons by (simp add: tm_ok_def)
    then have alone: "refs (seg_sdu s) (mset l) = 0" unfolding refs_eq_0 set_mset_mset by (metis image_eqI)
    obtain h where h: "nr_rlc_free_sdu_segment (sdus e) s = Some (True, h)" "heap_ok h (mset l)"
      "heap_sdus h = (heap_sdus (sdus e))(seg_sdu s := None)"
      by (rule free_segment [OF m(1) sdu]) (use alone that in simp)
    have data: "sdu_data sdu = heap_data (sdus e) s" using sdu by (simp add: heap_data_def)
    have keep: "map (heap_data h) l = map (heap_data (sdus e)) l"
      using alone by (auto simp: refs_eq_0 heap_data_def h(3))
    have fit: "segs_fit h (mset l)" by (rule segs_fit_upd [OF m(2) sdu h(3)]) simp
    obtain t where t: "(if avg_time_is_on e then time_average_add (txsdu_avg_time_to_tx e) now (now - sdu_time_of_arrival sdu)
        else Some (txsdu_avg_time_to_tx e)) = Some t" "window_ok t"
      using time_average_add_window [of "txsdu_avg_time_to_tx e" now "now - sdu_time_of_arrival sdu"] ok by (cases "avg_time_is_on e") (auto simp: tm_ok_def)
    define e' where "e' = (bstatus_update (bs_tx_size_update (\<lambda>n. n - seg_size s)) (stats_update (txpdu_pkts_update (\<lambda>n. n + 1) \<circ> txpdu_bytes_update (\<lambda>k. k + of_int (int n)))
        (e\<lparr>tm_tx_list := l, tm_tx_end := (if l = [] then None else tm_tx_end e), tm_tx_size := tm_tx_size e - seg_size s,
           txsdu_avg_time_to_tx := t\<rparr>)))\<lparr>sdus := h\<rparr>"
    have run: "tm_get e now n = Some (e', Some (heap_data (sdus e) s))"
      using False len t(1) sdu h(1) data Cons
      by (cases "avg_time_is_on e") (simp_all add: tm_get_def nr_rlc_entity_tm_generate_pdu_def tm_generate_tx_pdu_def mem_simps e'_def Let_def)
    have "tm_ok e'"
      using ok Cons t(2) h(2) fit by (auto simp: tm_ok_def e'_def tm_bytes_def list_end_def)
    moreover have "tm_content e' = map (heap_data (sdus e)) l" "tm_tx_maxsize e' = tm_tx_maxsize e" by (simp_all add: tm_content_def e'_def keep)
    moreover have "length (heap_data (sdus e) s) \<le> n" using False len by linarith
    ultimately show ?thesis using run Cons by (simp add: tm_content_def)
  qed
qed

interpretation tmq: sdu_queue tm_ok tm_content tm_tx_maxsize tm_put tm_get "\<lambda>d. d \<noteq> [] \<and> int (length d) \<le> NR_SDU_MAX"
  by unfold_locales (use tm_put_ok tm_get_ok in blast)+

lemma new_tm_ok:
  assumes "new_nr_rlc_entity_tm tx_maxsize = Some e" "0 \<le> tx_maxsize"
  shows "tm_ok e" "tm_content e = []" "tm_tx_maxsize e = tx_maxsize"
proof -
  have "window_ok (txsdu_avg_time_to_tx e)"
    using assms(1) time_average_new_ok by (auto simp: new_nr_rlc_entity_tm_def bind_Some_iff Let_def)
  then show "tm_ok e" "tm_content e = []" "tm_tx_maxsize e = tx_maxsize"
    using assms by (auto simp: new_nr_rlc_entity_tm_def bind_Some_iff tm_ok_def tm_content_def tm_bytes_def bstatus_zero_def)
qed

text \<open>
  C19. The TM entity refines a bounded first-in first-out queue: over any sequence of SDUs from the upper layer and
  grants from MAC every call returns, and the PDUs sent, followed by what is still queued, are the queued and then the
  accepted SDUs, whole, unchanged and in order; an SDU is refused exactly when it does not fit.
\<close>

theorem tm_refines_queue:
  assumes "tm_ok e" "\<forall>d \<in> sdus_offered ops. d \<noteq> [] \<and> int (length d) \<le> NR_SDU_MAX"
  shows "\<exists>e' out. queue_run tm_put tm_get e ops = Some (e', out) \<and> tm_ok e' \<and>
    (tm_content e', out) = fifo_run (tm_tx_maxsize e) (tm_content e) ops \<and>
    out @ tm_content e' = tm_content e @ fifo_accepted (tm_tx_maxsize e) (tm_content e) ops"
  using tmq.run_refines [OF assms] fifo_run_order [of "tm_tx_maxsize e" "tm_content e" ops] by fastforce

theorem tm_refines_queue_witness:
  "\<exists>e e'. new_nr_rlc_entity_tm 4 = Some e \<and>
     queue_run tm_put tm_get e [Put (0, 1) [1, 2], Put (0, 2) [3], Put (0, 3) [4, 5], Get 0 1, Get 0 2] = Some (e', [[1, 2]]) \<and>
     tm_content e' = [[3]]"
proof -
  obtain avg where "time_average_new (100 * 1000) 1024 = Some avg" by (auto simp: time_average_new_def)
  then obtain e where e: "new_nr_rlc_entity_tm 4 = Some e" by (auto simp: new_nr_rlc_entity_tm_def)
  note ok = new_tm_ok [OF e]
  let ?ops = "[Put (0, 1) [1, 2], Put (0, 2) [3], Put (0, 3) [4, 5], Get 0 1, Get 0 2] :: (u64 \<times> int, u64) queue_op list"
  from tm_refines_queue [of e ?ops] ok show ?thesis
    using e by (auto simp: NR_SDU_MAX_def fifo_put_def fifo_bytes_def)
qed

end
