(* ===== verification/PDCP.thy ===== *)
theory PDCP
  imports L2_Prelude
begin

text \<open>
  \<open>openair2/LAYER2/nr_pdcp/nr_pdcp_entity.c\<close> and \<open>nr_pdcp_sdu.c\<close>: the PDCP entity numbers, protects and ciphers SDUs
  (\<open>process_sdu\<close>), and restores their order (\<open>recv_pdu\<close>, \<open>set_time\<close>). The cryptographic algorithms are a
  parameter; their wrappers (\<open>nr_pdcp_security_nea1.c\<close>, \<open>nr_pdcp_security_nea2.c\<close>, \<open>nr_pdcp_integrity_nia1.c\<close>,
  \<open>nr_pdcp_integrity_nia2.c\<close>) are modelled. The callback \<open>deliver_sdu\<close> appends to a log of SDUs.
\<close>

section \<open>Constants and types\<close>

definition SHORT_SN_SIZE :: int where "SHORT_SN_SIZE = 12"

definition SHORT_PDCP_HEADER_SIZE :: int where "SHORT_PDCP_HEADER_SIZE = 2"

definition LONG_PDCP_HEADER_SIZE :: int where "LONG_PDCP_HEADER_SIZE = 3"

definition PDCP_INTEGRITY_SIZE :: int where "PDCP_INTEGRITY_SIZE = 4"

lemmas pdcp_sizes = SHORT_SN_SIZE_def SHORT_PDCP_HEADER_SIZE_def LONG_PDCP_HEADER_SIZE_def PDCP_INTEGRITY_SIZE_def

datatype nr_pdcp_entity_type_t = NR_PDCP_DRB_AM | NR_PDCP_DRB_UM | NR_PDCP_SRB

record nr_pdcp_integrity_data_t =
  mi_count :: u32
  mi_mac :: "byte list"
  mi_header_size :: int
  mi_header :: "byte list"

record nr_pdcp_sdu_t =
  psdu_count :: u32
  psdu_buffer :: "byte list"
  psdu_size :: int
  psdu_msg_integrity :: nr_pdcp_integrity_data_t

record nr_pdcp_entity_security_keys_and_algos_t =
  integrity_algorithm :: int
  ciphering_algorithm :: int
  integrity_key :: "byte list"
  ciphering_key :: "byte list"

record nr_pdcp_count_t =
  pc_sn :: u32
  pc_hfn :: u32

record nr_pdcp_statistics_t =
  ps_txpdu_pkts :: u32
  ps_txpdu_bytes :: u32
  ps_txpdu_sn :: u32
  ps_rxpdu_pkts :: u32
  ps_rxpdu_bytes :: u32
  ps_rxpdu_sn :: u32
  ps_rxpdu_oo_pkts :: u32
  ps_rxpdu_oo_bytes :: u32
  ps_rxpdu_dd_pkts :: u32
  ps_rxpdu_dd_bytes :: u32
  ps_rxpdu_ro_count :: u32
  ps_txsdu_pkts :: u32
  ps_txsdu_bytes :: u32
  ps_rxsdu_pkts :: u32
  ps_rxsdu_bytes :: u32
  ps_mode :: byte

text \<open>
  A security context is the algorithm and the key it was made from. The contexts of the two AES algorithms point to
  the key of the entity itself, which only changes together with the context.
\<close>

record nr_pdcp_entity_t =
  pd_type :: nr_pdcp_entity_type_t
  pd_rb_id :: int
  pd_pdusession_id :: int
  pd_has_sdap_rx :: bool
  pd_has_sdap_tx :: bool
  pd_sn_size :: int
  pd_t_reordering :: int
  pd_discard_timer :: int
  pd_sn_max :: int
  pd_window_size :: int
  pd_tx_next :: u32
  pd_rx_next :: u32
  pd_rx_deliv :: u32
  pd_rx_reord :: u32
  pd_t_current :: u64
  pd_t_reordering_start :: u64
  pd_has_ciphering :: bool
  pd_has_integrity :: bool
  pd_keys :: nr_pdcp_entity_security_keys_and_algos_t
  pd_security_context :: "(int \<times> byte list) option"
  pd_integrity_context :: "(int \<times> byte list) option"
  pd_is_gnb :: bool
  pd_rx_list :: "nr_pdcp_sdu_t list"
  pd_rx_size :: int
  pd_rx_maxsize :: int
  pd_stats :: nr_pdcp_statistics_t
  pd_entity_suspended :: bool
  pd_ev :: "nr_pdcp_sdu_t list"

type_synonym pdcp = nr_pdcp_entity_t
type_synonym psdu = nr_pdcp_sdu_t

section \<open>The cryptographic algorithms\<close>

text \<open>
  SNOW 3G, AES-CTR and AES-CMAC: functions of key, COUNT, bearer, direction and message. The wrappers check their
  arguments; the bearer is counted from 0.
\<close>

type_synonym crypto = "byte list \<Rightarrow> u32 \<Rightarrow> int \<Rightarrow> int \<Rightarrow> byte list \<Rightarrow> byte list"

record pdcp_algos =
  alg_eea1 :: crypto
  alg_aes_ctr :: crypto
  alg_eia1 :: crypto
  alg_aes_cmac :: crypto

definition nr_pdcp_security_nea1_cipher ::
  "pdcp_algos \<Rightarrow> byte list \<Rightarrow> byte list \<Rightarrow> int \<Rightarrow> u32 \<Rightarrow> int \<Rightarrow> byte list option" where
  "nr_pdcp_security_nea1_cipher A key msg bearer cnt direction = Some (alg_eea1 A key cnt (bearer - 1) direction msg)"

definition nr_pdcp_security_nea2_cipher ::
  "pdcp_algos \<Rightarrow> byte list \<Rightarrow> byte list \<Rightarrow> int \<Rightarrow> u32 \<Rightarrow> int \<Rightarrow> byte list option" where
  "nr_pdcp_security_nea2_cipher A key msg bearer cnt direction = do {
     check (msg \<noteq> []);
     check (-1 < bearer \<and> bearer < 32);
     check (-1 < direction \<and> direction < 2);
     Some (alg_aes_ctr A key cnt (bearer - 1) direction msg)
   }"

definition nr_pdcp_integrity_nia1_integrity ::
  "pdcp_algos \<Rightarrow> byte list \<Rightarrow> byte list \<Rightarrow> int \<Rightarrow> u32 \<Rightarrow> int \<Rightarrow> byte list option" where
  "nr_pdcp_integrity_nia1_integrity A key msg bearer cnt direction = Some (alg_eia1 A key cnt (bearer - 1) direction msg)"

definition nr_pdcp_integrity_nia2_integrity ::
  "pdcp_algos \<Rightarrow> byte list \<Rightarrow> byte list \<Rightarrow> int \<Rightarrow> u32 \<Rightarrow> int \<Rightarrow> byte list option" where
  "nr_pdcp_integrity_nia2_integrity A key msg bearer cnt direction = do {
     check (0 < bearer \<and> bearer < 33);
     Some (take 4 (alg_aes_cmac A key cnt (bearer - 1) direction msg))
   }"

text \<open>The calls through \<open>entity->cipher\<close>, \<open>entity->decipher\<close> (in place, on a part of the buffer) and \<open>entity->integrity\<close>.\<close>

definition pdcp_cipher :: "pdcp_algos \<Rightarrow> pdcp \<Rightarrow> byte list \<Rightarrow> int \<Rightarrow> int \<Rightarrow> u32 \<Rightarrow> int \<Rightarrow> byte list option" where
  "pdcp_cipher A e buffer off len cnt direction = do {
     (alg, key) \<leftarrow> pd_security_context e;
     msg \<leftarrow> mem_slice buffer off len;
     out \<leftarrow> (if alg = 2 then nr_pdcp_security_nea2_cipher A key msg (pd_rb_id e) cnt direction
             else nr_pdcp_security_nea1_cipher A key msg (pd_rb_id e) cnt direction);
     mem_blit buffer off (take (nat len) out)
   }"

definition pdcp_integrity :: "pdcp_algos \<Rightarrow> pdcp \<Rightarrow> byte list \<Rightarrow> int \<Rightarrow> u32 \<Rightarrow> int \<Rightarrow> byte list option" where
  "pdcp_integrity A e buffer len cnt direction = do {
     (alg, key) \<leftarrow> pd_integrity_context e;
     msg \<leftarrow> mem_slice buffer 0 len;
     if alg = 2 then nr_pdcp_integrity_nia2_integrity A key msg (pd_rb_id e) cnt direction
     else nr_pdcp_integrity_nia1_integrity A key msg (pd_rb_id e) cnt direction
   }"

section \<open>SDUs\<close>

definition nr_pdcp_new_sdu :: "u32 \<Rightarrow> byte list \<Rightarrow> int \<Rightarrow> int \<Rightarrow> nr_pdcp_integrity_data_t \<Rightarrow> psdu option" where
  "nr_pdcp_new_sdu cnt buffer off sz mi = do {
     data \<leftarrow> mem_slice buffer off sz;
     Some \<lparr>psdu_count = cnt, psdu_buffer = data, psdu_size = sz, psdu_msg_integrity = mi\<rparr>
   }"

definition nr_pdcp_sdu_list_add :: "psdu list \<Rightarrow> psdu \<Rightarrow> psdu list" where
  "nr_pdcp_sdu_list_add l sdu = list_add_before (\<lambda>cur. psdu_count sdu < psdu_count cur) sdu l"

fun nr_pdcp_sdu_in_list :: "psdu list \<Rightarrow> u32 \<Rightarrow> bool" where
  "nr_pdcp_sdu_in_list [] cnt \<longleftrightarrow> False"
| "nr_pdcp_sdu_in_list (s # l) cnt \<longleftrightarrow> (if psdu_count s = cnt then True else nr_pdcp_sdu_in_list l cnt)"

definition nr_max_pdcp_pdu_size :: "int \<Rightarrow> int" where
  "nr_max_pdcp_pdu_size sdu_size = sdu_size + LONG_PDCP_HEADER_SIZE + PDCP_INTEGRITY_SIZE"

section \<open>Delivery\<close>

text \<open>The body that all the delivery loops share: \<open>cur\<close> is the head of the list, \<open>l\<close> the rest.\<close>

definition pdcp_deliver :: "psdu \<Rightarrow> psdu list \<Rightarrow> pdcp \<Rightarrow> pdcp" where
  "pdcp_deliver cur l e =
     (pd_stats_update (ps_txsdu_pkts_update (\<lambda>n. n + 1) \<circ> ps_txsdu_bytes_update (\<lambda>n. n + of_int (psdu_size cur))) e)
     \<lparr>pd_ev := pd_ev e @ [cur], pd_rx_list := l, pd_rx_size := pd_rx_size e - psdu_size cur\<rparr>"

text \<open>From \<open>cnt\<close> up to a discontinuity or the end of the list.\<close>

fun deliver_consecutive :: "psdu list \<Rightarrow> u32 \<Rightarrow> pdcp \<Rightarrow> pdcp \<times> u32" where
  "deliver_consecutive [] cnt e = (e\<lparr>pd_rx_list := []\<rparr>, cnt)"
| "deliver_consecutive (cur # l) cnt e =
     (if cnt = psdu_count cur then deliver_consecutive l (cnt + 1) (pdcp_deliver cur l e)
      else (e\<lparr>pd_rx_list := cur # l\<rparr>, cnt))"

fun deliver_below :: "psdu list \<Rightarrow> pdcp \<Rightarrow> pdcp" where
  "deliver_below [] e = e\<lparr>pd_rx_list := []\<rparr>"
| "deliver_below (cur # l) e =
     (if psdu_count cur < pd_rx_reord e then deliver_below l (pdcp_deliver cur l e)
      else e\<lparr>pd_rx_list := cur # l\<rparr>)"

fun deliver_all_loop :: "psdu list \<Rightarrow> pdcp \<Rightarrow> pdcp" where
  "deliver_all_loop [] e = e\<lparr>pd_rx_list := []\<rparr>"
| "deliver_all_loop (cur # l) e = deliver_all_loop l (pdcp_deliver cur l e)"

definition deliver_all_sdus :: "pdcp \<Rightarrow> pdcp" where
  "deliver_all_sdus e = deliver_all_loop (pd_rx_list e) e"

section \<open>Reception of a PDU\<close>

text \<open>
  Sequence number and header size. The bytes behind the first are read before the size of the PDU is
  compared with the size of the header.
\<close>

definition pdcp_read_header :: "pdcp \<Rightarrow> byte list \<Rightarrow> (int \<times> int) option" where
  "pdcp_read_header e buffer =
     (if pd_sn_size e = SHORT_SN_SIZE
      then do {
        b0 \<leftarrow> mem_read buffer 0;
        b1 \<leftarrow> mem_read buffer 1;
        Some (push_bit 8 (uint (b0 AND 0xf)) OR uint b1, SHORT_PDCP_HEADER_SIZE)
      }
      else do {
        b0 \<leftarrow> mem_read buffer 0;
        b1 \<leftarrow> mem_read buffer 1;
        b2 \<leftarrow> mem_read buffer 2;
        Some (push_bit 16 (uint (b0 AND 0x3)) OR push_bit 8 (uint b1) OR uint b2, LONG_PDCP_HEADER_SIZE)
      })"

definition pdcp_integrity_size :: "pdcp \<Rightarrow> int" where
  "pdcp_integrity_size e = (if pd_has_integrity e \<or> pd_type e = NR_PDCP_SRB then PDCP_INTEGRITY_SIZE else 0)"

definition pdcp_rcvd_count :: "pdcp \<Rightarrow> int \<Rightarrow> u32" where
  "pdcp_rcvd_count e rcvd_sn =
     (let rx_deliv_sn = uint (pd_rx_deliv e AND of_int (pd_sn_max e));
          rx_deliv_hfn = drop_bit (nat (pd_sn_size e)) (pd_rx_deliv e);
          rcvd_hfn = (if rcvd_sn < rx_deliv_sn - pd_window_size e then rx_deliv_hfn + 1
                      else if rcvd_sn \<ge> rx_deliv_sn + pd_window_size e then rx_deliv_hfn - 1
                      else rx_deliv_hfn)
      in push_bit (nat (pd_sn_size e)) rcvd_hfn OR of_int rcvd_sn)"

definition integrity_data_zero :: nr_pdcp_integrity_data_t where
  "integrity_data_zero = \<lparr>mi_count = 0, mi_mac = [0, 0, 0, 0], mi_header_size = 0, mi_header = [0, 0, 0]\<rparr>"

definition pdcp_msg_integrity :: "pdcp \<Rightarrow> byte list \<Rightarrow> int \<Rightarrow> int \<Rightarrow> u32 \<Rightarrow> nr_pdcp_integrity_data_t option" where
  "pdcp_msg_integrity e buffer sz header_size cnt =
     (if pd_has_integrity e \<or> pd_type e = NR_PDCP_SRB
      then do {
        mac \<leftarrow> mem_slice buffer (sz - 4) 4;
        header \<leftarrow> mem_slice buffer 0 header_size;
        header \<leftarrow> mem_blit (mi_header integrity_data_zero) 0 header;
        Some \<lparr>mi_count = cnt, mi_mac = mac, mi_header_size = header_size, mi_header = header\<rparr>
      }
      else Some integrity_data_zero)"

definition pdcp_discard :: "pdcp \<Rightarrow> int \<Rightarrow> pdcp" where
  "pdcp_discard e sz =
     pd_stats_update (ps_rxpdu_dd_pkts_update (\<lambda>n. n + 1) \<circ> ps_rxpdu_dd_bytes_update (\<lambda>n. n + of_int sz)) e"

text \<open>The end of \<open>recv_pdu\<close>: the timer.\<close>

definition pdcp_update_t_reordering :: "pdcp \<Rightarrow> pdcp" where
  "pdcp_update_t_reordering e =
     (let e = (if pd_t_reordering_start e \<noteq> 0 \<and> pd_rx_deliv e \<ge> pd_rx_reord e
               then e\<lparr>pd_t_reordering_start := 0\<rparr> else e)
      in if pd_t_reordering_start e = 0 \<and> pd_rx_deliv e < pd_rx_next e
         then e\<lparr>pd_rx_reord := pd_rx_next e, pd_t_reordering_start := pd_t_current e\<rparr> else e)"

text \<open>A PDU that is neither too old nor a duplicate: it is stored, and what is now in order is delivered.\<close>

definition pdcp_store :: "pdcp \<Rightarrow> psdu \<Rightarrow> int \<Rightarrow> pdcp" where
  "pdcp_store e sdu n =
     (let e = e\<lparr>pd_rx_list := nr_pdcp_sdu_list_add (pd_rx_list e) sdu, pd_rx_size := pd_rx_size e + n\<rparr>;
          e = (if psdu_count sdu \<ge> pd_rx_next e then e\<lparr>pd_rx_next := psdu_count sdu + 1\<rparr> else e);
          e = (if psdu_count sdu = pd_rx_deliv e
               then let (e, cnt) = deliver_consecutive (pd_rx_list e) (pd_rx_deliv e) e in e\<lparr>pd_rx_deliv := cnt\<rparr>
               else e)
      in pdcp_update_t_reordering e)"

definition nr_pdcp_entity_recv_pdu :: "pdcp_algos \<Rightarrow> pdcp \<Rightarrow> byte list \<Rightarrow> int \<Rightarrow> pdcp option" where
  "nr_pdcp_entity_recv_pdu A e buffer sz =
     (if pd_entity_suspended e then Some e
      else if sz < 1 then Some e
      else do {
        b0 \<leftarrow> mem_read buffer 0;
        let buffer = (if pd_type e \<noteq> NR_PDCP_SRB \<and> b0 AND 0x80 = 0 then buffer[0 := b0 OR 128] else buffer);
        let e = pd_stats_update (ps_rxpdu_pkts_update (\<lambda>n. n + 1) \<circ> ps_rxpdu_bytes_update (\<lambda>n. n + of_int sz)) e;
        let sdap_header_size = (if pd_has_sdap_rx e then 1 else 0);
        (rcvd_sn, header_size) \<leftarrow> pdcp_read_header e buffer;
        let e = pd_stats_update (ps_rxpdu_sn_update (\<lambda>_. of_int rcvd_sn)) e;
        let integrity_size = pdcp_integrity_size e;
        if sz < header_size + sdap_header_size + integrity_size + 1 then Some (pdcp_discard e sz)
        else do {
          let rcvd_count = pdcp_rcvd_count e rcvd_sn;
          mi \<leftarrow> pdcp_msg_integrity e buffer sz header_size rcvd_count;
          let direction = (if pd_is_gnb e then 0 else 1);
          buffer \<leftarrow> (if pd_has_ciphering e
            then pdcp_cipher A e buffer (header_size + sdap_header_size) (sz - (header_size + sdap_header_size)) rcvd_count direction
            else Some buffer);
          intact \<leftarrow> (if pd_has_integrity e
            then do {
              integrity \<leftarrow> pdcp_integrity A e buffer (sz - integrity_size) rcvd_count direction;
              mac \<leftarrow> mem_slice buffer (sz - integrity_size) PDCP_INTEGRITY_SIZE;
              Some (integrity = mac)
            }
            else Some True);
          if \<not> intact then Some (pdcp_discard e sz)
          else if rcvd_count < pd_rx_deliv e \<or> nr_pdcp_sdu_in_list (pd_rx_list e) rcvd_count
          then Some (pdcp_discard e sz)
          else do {
            sdu \<leftarrow> nr_pdcp_new_sdu rcvd_count buffer header_size (sz - header_size - integrity_size) mi;
            Some (pdcp_store e sdu (sz - header_size))
          }
        }
      })"

section \<open>Transmission of an SDU\<close>

definition pdcp_write_header :: "pdcp \<Rightarrow> int \<Rightarrow> byte list \<Rightarrow> (byte list \<times> int) option" where
  "pdcp_write_header e sn buf =
     (let dc_bit = (if pd_type e = NR_PDCP_DRB_AM \<or> pd_type e = NR_PDCP_DRB_UM then 0x80 else 0 :: int)
      in if pd_sn_size e = SHORT_SN_SIZE
         then do {
           buf \<leftarrow> mem_write buf 0 (of_int (dc_bit OR (drop_bit 8 sn AND 0xf)));
           buf \<leftarrow> mem_write buf 1 (of_int (sn AND 0xff));
           Some (buf, SHORT_PDCP_HEADER_SIZE)
         }
         else do {
           buf \<leftarrow> mem_write buf 0 (of_int (dc_bit OR (drop_bit 16 sn AND 0x3)));
           buf \<leftarrow> mem_write buf 1 (of_int (drop_bit 8 sn AND 0xff));
           buf \<leftarrow> mem_write buf 2 (of_int (sn AND 0xff));
           Some (buf, LONG_PDCP_HEADER_SIZE)
         })"

text \<open>The result is the entity, the buffer of the PDU and the size of the PDU, or -1 for a suspended entity.\<close>

definition nr_pdcp_entity_process_sdu ::
  "pdcp_algos \<Rightarrow> pdcp \<Rightarrow> byte list \<Rightarrow> int \<Rightarrow> int \<Rightarrow> byte list \<Rightarrow> int \<Rightarrow> (pdcp \<times> byte list \<times> int) option" where
  "nr_pdcp_entity_process_sdu A e buffer sz sdu_id pdu_buffer pdu_max_size = do {
     check (nr_max_pdcp_pdu_size sz \<le> pdu_max_size);
     if pd_entity_suspended e then Some (e, pdu_buffer, -1)
     else do {
       let e = pd_stats_update (ps_rxsdu_pkts_update (\<lambda>n. n + 1) \<circ> ps_rxsdu_bytes_update (\<lambda>n. n + of_int sz)) e;
       let cnt = pd_tx_next e;
       let sn = uint (pd_tx_next e AND of_int (pd_sn_max e));
       let sdap_header_size = (if pd_has_sdap_tx e then 1 else 0);
       (buf, header_size) \<leftarrow> pdcp_write_header e sn pdu_buffer;
       let integrity_size = pdcp_integrity_size e;
       payload \<leftarrow> mem_slice buffer 0 sz;
       buf \<leftarrow> mem_blit buf header_size payload;
       let direction = (if pd_is_gnb e then 1 else 0);
       buf \<leftarrow> (if pd_has_integrity e
         then do {
           integrity \<leftarrow> pdcp_integrity A e buf (header_size + sz) cnt direction;
           mem_blit buf (header_size + sz) integrity
         }
         else if integrity_size = PDCP_INTEGRITY_SIZE then mem_blit buf (header_size + sz) [0, 0, 0, 0]
         else Some buf);
       buf \<leftarrow> (if pd_has_ciphering e
         then pdcp_cipher A e buf (header_size + sdap_header_size) (sz + integrity_size - sdap_header_size) cnt direction
         else Some buf);
       let n = header_size + sz + integrity_size;
       let e = pd_stats_update (ps_txpdu_pkts_update (\<lambda>k. k + 1) \<circ> ps_txpdu_bytes_update (\<lambda>k. k + of_int n) \<circ>
                 ps_txpdu_sn_update (\<lambda>_. of_int sn)) (e\<lparr>pd_tx_next := pd_tx_next e + 1\<rparr>);
       Some (e, buf, n)
     }
   }"

definition nr_pdcp_entity_check_integrity ::
  "pdcp_algos \<Rightarrow> pdcp \<Rightarrow> byte list \<Rightarrow> int \<Rightarrow> nr_pdcp_integrity_data_t \<Rightarrow> bool option" where
  "nr_pdcp_entity_check_integrity A e buffer buffer_size mi =
     (if \<not> pd_has_integrity e then Some False
      else do {
        header \<leftarrow> mem_slice (mi_header mi) 0 (mi_header_size mi);
        payload \<leftarrow> mem_slice buffer 0 buffer_size;
        mac \<leftarrow> pdcp_integrity A e (header @ payload) (buffer_size + mi_header_size mi) (mi_count mi)
          (if pd_is_gnb e then 0 else 1);
        Some (mac = mi_mac mi)
      })"

section \<open>Security\<close>

definition pdcp_set_integrity :: "pdcp \<Rightarrow> nr_pdcp_entity_security_keys_and_algos_t \<Rightarrow> pdcp option" where
  "pdcp_set_integrity e p =
     (if integrity_algorithm p = 0 then Some (e\<lparr>pd_has_integrity := False, pd_integrity_context := None\<rparr>)
      else if integrity_algorithm p = -1 then Some e
      else if integrity_algorithm p = 2 \<or> integrity_algorithm p = 1
      then Some (e\<lparr>pd_has_integrity := True, pd_integrity_context := Some (integrity_algorithm p, integrity_key (pd_keys e))\<rparr>)
      else None)"

definition pdcp_set_ciphering :: "pdcp \<Rightarrow> nr_pdcp_entity_security_keys_and_algos_t \<Rightarrow> pdcp option" where
  "pdcp_set_ciphering e p =
     (if ciphering_algorithm p = 0 then Some (e\<lparr>pd_has_ciphering := False, pd_security_context := None\<rparr>)
      else if ciphering_algorithm p = -1 then Some e
      else if ciphering_algorithm p = 2 \<or> ciphering_algorithm p = 1
      then Some (e\<lparr>pd_has_ciphering := True, pd_security_context := Some (ciphering_algorithm p, ciphering_key (pd_keys e))\<rparr>)
      else None)"

definition nr_pdcp_entity_set_security :: "pdcp \<Rightarrow> nr_pdcp_entity_security_keys_and_algos_t \<Rightarrow> pdcp option" where
  "nr_pdcp_entity_set_security e p = do {
     let e = (if integrity_algorithm p \<noteq> -1
              then e\<lparr>pd_keys := (pd_keys e)\<lparr>integrity_algorithm := integrity_algorithm p, integrity_key := integrity_key p\<rparr>\<rparr>
              else e);
     let e = (if ciphering_algorithm p \<noteq> -1
              then e\<lparr>pd_keys := (pd_keys e)\<lparr>ciphering_algorithm := ciphering_algorithm p, ciphering_key := ciphering_key p\<rparr>\<rparr>
              else e);
     e \<leftarrow> pdcp_set_integrity e p;
     pdcp_set_ciphering e p
   }"

section \<open>Time\<close>

definition check_t_reordering :: "pdcp \<Rightarrow> pdcp" where
  "check_t_reordering e =
     (if pd_t_reordering e = -1 then e
      else if pd_t_reordering_start e = 0 \<or> pd_t_current e \<le> pd_t_reordering_start e + of_int (pd_t_reordering e) then e
      else
        let e = e\<lparr>pd_t_reordering_start := 0\<rparr>;
            e = deliver_below (pd_rx_list e) e;
            (e, cnt) = deliver_consecutive (pd_rx_list e) (pd_rx_reord e) e;
            e = e\<lparr>pd_rx_deliv := cnt\<rparr>
        in if pd_rx_deliv e < pd_rx_next e
           then e\<lparr>pd_rx_reord := pd_rx_next e, pd_t_reordering_start := pd_t_current e\<rparr> else e)"

definition nr_pdcp_entity_set_time :: "pdcp \<Rightarrow> u64 \<Rightarrow> pdcp" where
  "nr_pdcp_entity_set_time e now = check_t_reordering (e\<lparr>pd_t_current := now\<rparr>)"

section \<open>Suspension, re-establishment, release, deletion\<close>

definition nr_pdcp_entity_suspend :: "pdcp \<Rightarrow> pdcp" where
  "nr_pdcp_entity_suspend e =
     (let e = e\<lparr>pd_tx_next := 0\<rparr>;
          e = (if pd_t_reordering_start e \<noteq> 0 then deliver_all_sdus (e\<lparr>pd_t_reordering_start := 0\<rparr>) else e)
      in e\<lparr>pd_rx_next := 0, pd_rx_deliv := 0, pd_entity_suspended := True\<rparr>)"

fun free_rx_loop :: "psdu list \<Rightarrow> pdcp \<Rightarrow> pdcp" where
  "free_rx_loop [] e = e"
| "free_rx_loop (cur # l) e = free_rx_loop l (pdcp_discard e (psdu_size cur))"

definition free_rx_list :: "pdcp \<Rightarrow> pdcp" where
  "free_rx_list e = (free_rx_loop (pd_rx_list e) e)\<lparr>pd_rx_list := [], pd_rx_size := 0\<rparr>"

definition nr_pdcp_entity_reestablish_drb_am :: "pdcp \<Rightarrow> nr_pdcp_entity_security_keys_and_algos_t \<Rightarrow> pdcp option" where
  "nr_pdcp_entity_reestablish_drb_am e p = do {
     e \<leftarrow> nr_pdcp_entity_set_security e p;
     Some (e\<lparr>pd_entity_suspended := False\<rparr>)
   }"

definition nr_pdcp_entity_reestablish_drb_um :: "pdcp \<Rightarrow> nr_pdcp_entity_security_keys_and_algos_t \<Rightarrow> pdcp option" where
  "nr_pdcp_entity_reestablish_drb_um e p = do {
     let e = e\<lparr>pd_tx_next := 0\<rparr>;
     let e = (if pd_t_reordering_start e \<noteq> 0 then deliver_all_sdus e else e);
     e \<leftarrow> nr_pdcp_entity_set_security (e\<lparr>pd_t_reordering_start := 0, pd_rx_next := 0, pd_rx_deliv := 0\<rparr>) p;
     Some (e\<lparr>pd_entity_suspended := False\<rparr>)
   }"

definition nr_pdcp_entity_reestablish_srb :: "pdcp \<Rightarrow> nr_pdcp_entity_security_keys_and_algos_t \<Rightarrow> pdcp option" where
  "nr_pdcp_entity_reestablish_srb e p = do {
     let e = free_rx_list (e\<lparr>pd_tx_next := 0\<rparr>);
     e \<leftarrow> nr_pdcp_entity_set_security (e\<lparr>pd_t_reordering_start := 0, pd_rx_next := 0, pd_rx_deliv := 0\<rparr>) p;
     Some (e\<lparr>pd_entity_suspended := False\<rparr>)
   }"

text \<open>The function that \<open>new_nr_pdcp_entity\<close> stores in \<open>reestablish_entity\<close>.\<close>

definition pdcp_reestablish :: "pdcp \<Rightarrow> nr_pdcp_entity_security_keys_and_algos_t \<Rightarrow> pdcp option" where
  "pdcp_reestablish e p = (case pd_type e of
       NR_PDCP_DRB_AM \<Rightarrow> nr_pdcp_entity_reestablish_drb_am e p
     | NR_PDCP_DRB_UM \<Rightarrow> nr_pdcp_entity_reestablish_drb_um e p
     | NR_PDCP_SRB \<Rightarrow> nr_pdcp_entity_reestablish_srb e p)"

definition nr_pdcp_entity_release :: "pdcp \<Rightarrow> pdcp" where
  "nr_pdcp_entity_release e = deliver_all_sdus e"

text \<open>After the deletion only the log of deliveries is left to look at.\<close>

definition nr_pdcp_entity_delete :: "pdcp \<Rightarrow> psdu list" where
  "nr_pdcp_entity_delete e = pd_ev (free_rx_list e)"

definition nr_pdcp_entity_get_stats :: "pdcp \<Rightarrow> nr_pdcp_statistics_t" where
  "nr_pdcp_entity_get_stats e = pd_stats e"

section \<open>COUNT values\<close>

definition nr_pdcp_entity_get_count_dl :: "pdcp \<Rightarrow> nr_pdcp_count_t" where
  "nr_pdcp_entity_get_count_dl e =
     \<lparr>pc_sn = pd_rx_deliv e AND of_int (pd_sn_max e), pc_hfn = drop_bit (nat (pd_sn_size e)) (pd_rx_deliv e)\<rparr>"

definition nr_pdcp_entity_get_count_ul :: "pdcp \<Rightarrow> nr_pdcp_count_t" where
  "nr_pdcp_entity_get_count_ul e =
     \<lparr>pc_sn = pd_tx_next e AND of_int (pd_sn_max e), pc_hfn = drop_bit (nat (pd_sn_size e)) (pd_tx_next e)\<rparr>"

definition pdcp_compose_count :: "nr_pdcp_count_t \<Rightarrow> int \<Rightarrow> u32" where
  "pdcp_compose_count c sn_size =
     push_bit (nat sn_size) (pc_hfn c) OR (pc_sn c AND (push_bit (nat sn_size) 1 - 1))"

definition nr_pdcp_entity_set_count_dl :: "pdcp \<Rightarrow> nr_pdcp_count_t \<Rightarrow> int \<Rightarrow> pdcp" where
  "nr_pdcp_entity_set_count_dl e c sn_size =
     (let cnt = pdcp_compose_count c sn_size in e\<lparr>pd_rx_next := cnt + 1, pd_rx_deliv := cnt\<rparr>)"

definition nr_pdcp_entity_set_count_ul :: "pdcp \<Rightarrow> nr_pdcp_count_t \<Rightarrow> int \<Rightarrow> pdcp" where
  "nr_pdcp_entity_set_count_ul e c sn_size = e\<lparr>pd_tx_next := pdcp_compose_count c sn_size\<rparr>"

section \<open>The constructor\<close>

definition pdcp_stats_zero :: nr_pdcp_statistics_t where
  "pdcp_stats_zero = \<lparr>ps_txpdu_pkts = 0, ps_txpdu_bytes = 0, ps_txpdu_sn = 0, ps_rxpdu_pkts = 0, ps_rxpdu_bytes = 0,
     ps_rxpdu_sn = 0, ps_rxpdu_oo_pkts = 0, ps_rxpdu_oo_bytes = 0, ps_rxpdu_dd_pkts = 0, ps_rxpdu_dd_bytes = 0,
     ps_rxpdu_ro_count = 0, ps_txsdu_pkts = 0, ps_txsdu_bytes = 0, ps_rxsdu_pkts = 0, ps_rxsdu_bytes = 0, ps_mode = 0\<rparr>"

definition new_nr_pdcp_entity ::
  "nr_pdcp_entity_type_t \<Rightarrow> bool \<Rightarrow> int \<Rightarrow> int \<Rightarrow> bool \<Rightarrow> bool \<Rightarrow> int \<Rightarrow> int \<Rightarrow> int \<Rightarrow>
   nr_pdcp_entity_security_keys_and_algos_t \<Rightarrow> pdcp option" where
  "new_nr_pdcp_entity type is_gnb rb_id pdusession_id has_sdap_rx has_sdap_tx sn_size t_reordering discard_timer p =
     nr_pdcp_entity_set_security
       \<lparr>pd_type = type, pd_rb_id = rb_id, pd_pdusession_id = pdusession_id, pd_has_sdap_rx = has_sdap_rx,
        pd_has_sdap_tx = has_sdap_tx, pd_sn_size = sn_size, pd_t_reordering = t_reordering,
        pd_discard_timer = discard_timer, pd_sn_max = push_bit (nat sn_size) 1 - 1,
        pd_window_size = push_bit (nat (sn_size - 1)) 1, pd_tx_next = 0, pd_rx_next = 0, pd_rx_deliv = 0,
        pd_rx_reord = 0, pd_t_current = 0, pd_t_reordering_start = 0, pd_has_ciphering = False,
        pd_has_integrity = False,
        pd_keys = \<lparr>integrity_algorithm = 0, ciphering_algorithm = 0, integrity_key = replicate 16 0,
          ciphering_key = replicate 16 0\<rparr>,
        pd_security_context = None, pd_integrity_context = None, pd_is_gnb = is_gnb, pd_rx_list = [], pd_rx_size = 0,
        pd_rx_maxsize = 0, pd_stats = pdcp_stats_zero, pd_entity_suspended = False, pd_ev = []\<rparr> p"

end
