(* ===== verification/PDCP_Order.thy ===== *)
theory PDCP_Order
  imports PDCP
begin

text \<open>
  The receiving side of PDCP: the reception buffer stays ordered, SDUs are delivered in the order of their COUNT and at
  most once, and none waits longer than the reordering timer.
\<close>

section \<open>COUNT values\<close>

lemma unat_max: "unat (-1 :: u32) = 2 ^ 32 - 1"
  by (simp add: unsigned_minus_1_eq_mask mask_eq_exp_minus_1)

lemma unat_u32: "unat (w :: u32) < 2 ^ 32"
  using unsigned_less [of w] by simp

lemma unat_inc_max: "(w :: u32) \<noteq> -1 \<Longrightarrow> unat (w + 1) = Suc (unat w)"
  by (metis add.commute add_eq_0_iff unatSuc)

lemma unat_inc: "(w :: u32) < v \<Longrightarrow> unat (w + 1) = Suc (unat w)"
  by (rule unat_inc_max) (metis leD word_n1_ge)

abbreviation cnt :: "psdu \<Rightarrow> nat" where
  "cnt s \<equiv> unat (psdu_count s)"

abbreviation rx_deliv :: "pdcp \<Rightarrow> nat" where
  "rx_deliv e \<equiv> unat (pd_rx_deliv e)"

abbreviation rx_next :: "pdcp \<Rightarrow> nat" where
  "rx_next e \<equiv> unat (pd_rx_next e)"

abbreviation rx_reord :: "pdcp \<Rightarrow> nat" where
  "rx_reord e \<equiv> unat (pd_rx_reord e)"

section \<open>The invariant\<close>

definition counts_sorted :: "psdu list \<Rightarrow> bool" where
  "counts_sorted l \<longleftrightarrow> sorted_wrt (<) (map cnt l)"

text \<open>What holds also between the steps of an operation.\<close>

definition pdcp_order :: "pdcp \<Rightarrow> bool" where
  "pdcp_order e \<longleftrightarrow> counts_sorted (pd_rx_list e) \<and> (\<forall>s \<in> set (pd_rx_list e). rx_deliv e \<le> cnt s \<and> cnt s < rx_next e) \<and>
     rx_deliv e \<le> rx_next e \<and> (rx_deliv e < rx_next e \<longrightarrow> (\<exists>s \<in> set (pd_rx_list e). Suc (cnt s) = rx_next e)) \<and>
     counts_sorted (pd_ev e) \<and> (\<forall>s \<in> set (pd_ev e). cnt s < rx_deliv e)"

definition pdcp_timer :: "pdcp \<Rightarrow> bool" where
  "pdcp_timer e \<longleftrightarrow> pd_t_reordering_start e \<noteq> 0 \<longrightarrow>
     rx_reord e \<le> rx_next e \<and> (rx_deliv e < rx_reord e \<longrightarrow> (\<exists>s \<in> set (pd_rx_list e). Suc (cnt s) = rx_reord e))"

definition pdcp_ok :: "pdcp \<Rightarrow> bool" where
  "pdcp_ok e \<longleftrightarrow> pdcp_order e \<and> pdcp_timer e \<and> (\<forall>s \<in> set (pd_rx_list e). rx_deliv e < cnt s) \<and>
     (pd_t_reordering_start e \<noteq> 0 \<longrightarrow> rx_deliv e < rx_reord e) \<and> (pd_rx_list e \<noteq> [] \<longrightarrow> pd_t_reordering_start e \<noteq> 0)"

section \<open>Delivery\<close>

lemma pdcp_deliver_simps [simp]:
  "pd_rx_list (pdcp_deliver s l e) = l" "pd_ev (pdcp_deliver s l e) = pd_ev e @ [s]" "pd_rx_deliv (pdcp_deliver s l e) = pd_rx_deliv e"
  "pd_rx_next (pdcp_deliver s l e) = pd_rx_next e" "pd_rx_reord (pdcp_deliver s l e) = pd_rx_reord e"
  "pd_t_reordering_start (pdcp_deliver s l e) = pd_t_reordering_start e" "pd_t_current (pdcp_deliver s l e) = pd_t_current e"
  "pd_t_reordering (pdcp_deliver s l e) = pd_t_reordering e" "pd_rx_size (pdcp_deliver s l e) = pd_rx_size e - psdu_size s"
  by (simp_all add: pdcp_deliver_def)

text \<open>The variables that delivery does not touch.\<close>

definition pdcp_vars where
  "pdcp_vars e = (pd_rx_deliv e, pd_rx_next e, pd_rx_reord e, pd_t_reordering_start e, pd_t_current e, pd_t_reordering e)"

lemma deliver_consecutive:
  assumes "counts_sorted l" "\<forall>s \<in> set l. unat c \<le> cnt s \<and> cnt s < N" "unat c \<le> N" "N < 2 ^ 32"
    and "deliver_consecutive l c e = (e', c')"
  shows "\<exists>d r. l = d @ r \<and> pd_rx_list e' = r \<and> pd_ev e' = pd_ev e @ d \<and> pdcp_vars e' = pdcp_vars e \<and>
    unat c \<le> unat c' \<and> unat c' \<le> N \<and> (\<forall>s \<in> set d. cnt s < unat c') \<and> (\<forall>s \<in> set r. unat c' < cnt s)"
  using assms
proof (induction l c e rule: deliver_consecutive.induct)
  case (1 c e)
  then show ?case by (auto simp: pdcp_vars_def)
next
  case (2 s l c e)
  show ?case
  proof (cases "c = psdu_count s")
    case True
    have le: "Suc (unat c) \<le> N" using 2(3) True by auto
    then have "c \<noteq> -1" using 2(5) unat_max by auto
    then have c: "unat (c + 1) = Suc (unat c)" by (simp add: unat_inc_max)
    have "\<exists>d r. l = d @ r \<and> pd_rx_list e' = r \<and> pd_ev e' = pd_ev (pdcp_deliver s l e) @ d \<and> pdcp_vars e' = pdcp_vars (pdcp_deliver s l e) \<and>
      unat (c + 1) \<le> unat c' \<and> unat c' \<le> N \<and> (\<forall>s \<in> set d. cnt s < unat c') \<and> (\<forall>s \<in> set r. unat c' < cnt s)"
      using 2(2,3,5,6) True c le by (intro 2(1) [OF True]) (auto simp: counts_sorted_def Suc_le_eq)
    then obtain d where "l = d @ pd_rx_list e'" "pd_ev e' = pd_ev e @ s # d" "pdcp_vars e' = pdcp_vars e" "unat (c + 1) \<le> unat c'"
      "unat c' \<le> N" "\<forall>s \<in> set d. cnt s < unat c'" "\<forall>s \<in> set (pd_rx_list e'). unat c' < cnt s"
      by (auto simp: pdcp_vars_def)
    then show ?thesis using True c by (intro exI [of _ "s # d"] exI [of _ "pd_rx_list e'"]) auto
  next
    case False
    then have "unat c \<noteq> cnt s" by (simp add: word_unat_eq_iff)
    then have "unat c < cnt s" using 2(3) by auto
    then show ?thesis using 2(2-6) False by (intro exI [of _ "[]"] exI [of _ "s # l"]) (auto simp: counts_sorted_def pdcp_vars_def)
  qed
qed

lemma deliver_below:
  assumes "counts_sorted l"
  shows "\<exists>d r. l = d @ r \<and> pd_rx_list (deliver_below l e) = r \<and> pd_ev (deliver_below l e) = pd_ev e @ d \<and>
    pdcp_vars (deliver_below l e) = pdcp_vars e \<and> (\<forall>s \<in> set d. cnt s < rx_reord e) \<and> (\<forall>s \<in> set r. rx_reord e \<le> cnt s)"
  using assms
proof (induction l e rule: deliver_below.induct)
  case (2 s l e)
  show ?case
  proof (cases "psdu_count s < pd_rx_reord e")
    case True
    have "counts_sorted l" using 2(2) by (simp add: counts_sorted_def)
    from 2(1) [OF True this] obtain d where "l = d @ pd_rx_list (deliver_below l (pdcp_deliver s l e))"
      "pd_ev (deliver_below l (pdcp_deliver s l e)) = pd_ev e @ s # d" "pdcp_vars (deliver_below l (pdcp_deliver s l e)) = pdcp_vars e"
      "\<forall>s \<in> set d. cnt s < rx_reord e" "\<forall>s \<in> set (pd_rx_list (deliver_below l (pdcp_deliver s l e))). rx_reord e \<le> cnt s"
      by (auto simp: pdcp_vars_def)
    then show ?thesis
      using True by (intro exI [of _ "s # d"] exI [of _ "pd_rx_list (deliver_below l (pdcp_deliver s l e))"]) (auto simp: word_less_nat_alt)
  next
    case False
    then show ?thesis
      using 2(2) by (intro exI [of _ "[]"] exI [of _ "s # l"]) (auto simp: counts_sorted_def pdcp_vars_def word_less_nat_alt)
  qed
qed (auto simp: pdcp_vars_def)

section \<open>Reception\<close>

lemma in_list: "nr_pdcp_sdu_in_list l c \<longleftrightarrow> c \<in> psdu_count ` set l"
  by (induction l) auto

lemma update_t_reordering_ok:
  assumes "pdcp_order e" "pdcp_timer e" "\<forall>s \<in> set (pd_rx_list e). rx_deliv e < cnt s" "pd_t_current e \<noteq> 0"
  shows "pdcp_ok (pdcp_update_t_reordering e)"
proof -
  have list: "rx_deliv e < rx_next e" if "pd_rx_list e \<noteq> []"
    using that assms(1) by (cases "pd_rx_list e") (auto simp: pdcp_order_def)
  show ?thesis
    using assms list unfolding pdcp_ok_def pdcp_update_t_reordering_def Let_def
    by (auto simp: pdcp_order_def pdcp_timer_def word_less_nat_alt word_le_nat_alt split: if_splits)
qed

lemma pdcp_inserted:
  fixes n :: int
  assumes ok: "pdcp_ok e" and s: "rx_deliv e \<le> cnt s" "psdu_count s \<notin> psdu_count ` set (pd_rx_list e)" "psdu_count s \<noteq> -1"
    and e1_def: "e1 = (let e = e\<lparr>pd_rx_list := nr_pdcp_sdu_list_add (pd_rx_list e) s, pd_rx_size := pd_rx_size e + n\<rparr>
      in if psdu_count s \<ge> pd_rx_next e then e\<lparr>pd_rx_next := psdu_count s + 1\<rparr> else e)"
  shows "pdcp_order e1" "pdcp_timer e1" "\<forall>t \<in> set (pd_rx_list e1). rx_deliv e1 < cnt t \<or> t = s"
    "pd_rx_deliv e1 = pd_rx_deliv e" "pd_t_current e1 = pd_t_current e" "pd_ev e1 = pd_ev e"
proof -
  have inc: "unat (psdu_count s + 1) = Suc (cnt s)" using s(3) by (rule unat_inc_max)
  have "cnt t \<noteq> cnt s" if "t \<in> set (pd_rx_list e)" for t using s(2) that by (metis image_eqI word_unat_eq_iff)
  then have "counts_sorted (nr_pdcp_sdu_list_add (pd_rx_list e) s)"
    using ok unfolding counts_sorted_def nr_pdcp_sdu_list_add_def sorted_wrt_map pdcp_ok_def pdcp_order_def
    by (intro sorted_list_add_before) (auto simp: word_less_nat_alt not_less le_less)
  moreover have "set (nr_pdcp_sdu_list_add (pd_rx_list e) s) = insert s (set (pd_rx_list e))" by (simp add: nr_pdcp_sdu_list_add_def)
  ultimately show "pdcp_order e1" "pdcp_timer e1" "\<forall>t \<in> set (pd_rx_list e1). rx_deliv e1 < cnt t \<or> t = s"
    using ok s(1) inc by (auto simp: pdcp_ok_def pdcp_order_def pdcp_timer_def e1_def Let_def word_le_nat_alt)
  show "pd_rx_deliv e1 = pd_rx_deliv e" "pd_t_current e1 = pd_t_current e" "pd_ev e1 = pd_ev e" by (auto simp: e1_def Let_def)
qed

lemma pdcp_delivered:
  assumes "pdcp_order e" "pdcp_timer e" "deliver_consecutive (pd_rx_list e) (pd_rx_deliv e) e = (e', c)"
  shows "pdcp_order (e'\<lparr>pd_rx_deliv := c\<rparr>)" "pdcp_timer (e'\<lparr>pd_rx_deliv := c\<rparr>)" "\<forall>s \<in> set (pd_rx_list e'). unat c < cnt s"
    "pd_t_current e' = pd_t_current e" "\<exists>d. pd_ev e' = pd_ev e @ d"
proof -
  have l: "counts_sorted (pd_rx_list e)" "\<forall>s \<in> set (pd_rx_list e). rx_deliv e \<le> cnt s \<and> cnt s < rx_next e" "rx_deliv e \<le> rx_next e"
    using assms(1) by (simp_all add: pdcp_order_def)
  obtain d where d: "pd_rx_list e = d @ pd_rx_list e'" "pd_ev e' = pd_ev e @ d" "pdcp_vars e' = pdcp_vars e" "rx_deliv e \<le> unat c"
      "unat c \<le> rx_next e" "\<forall>s \<in> set d. cnt s < unat c" "\<forall>s \<in> set (pd_rx_list e'). unat c < cnt s"
    using deliver_consecutive [OF l unat_u32 assms(3)] by auto
  have v: "pd_rx_next e' = pd_rx_next e" "pd_rx_reord e' = pd_rx_reord e" "pd_t_reordering_start e' = pd_t_reordering_start e"
    using d(3) by (simp_all add: pdcp_vars_def)
  have rest: "\<exists>s \<in> set (pd_rx_list e'). Suc (cnt s) = k" if "\<exists>s \<in> set (pd_rx_list e). Suc (cnt s) = k" "unat c < k" for k
    using that d(1,6) by fastforce
  have ev: "counts_sorted (pd_ev e)" and below: "\<And>x. x \<in> set (pd_ev e) \<Longrightarrow> cnt x < rx_deliv e"
    using assms(1) by (simp_all add: pdcp_order_def)
  have above: "\<And>y. y \<in> set d \<Longrightarrow> rx_deliv e \<le> cnt y" using l(2) d(1) by simp
  have "cnt x < cnt y" if "x \<in> set (pd_ev e)" "y \<in> set d" for x y
    using below [OF that(1)] above [OF that(2)] by simp
  moreover have "cnt x < unat c" if "x \<in> set (pd_ev e)" for x using below [OF that] d(4) by simp
  ultimately have "counts_sorted (pd_ev e @ d)" "\<forall>s \<in> set (pd_ev e @ d). cnt s < unat c"
    using ev l(1) d(1,6) by (auto simp: counts_sorted_def sorted_wrt_append)
  moreover have "counts_sorted (pd_rx_list e')" using l(1) d(1) by (simp add: counts_sorted_def sorted_wrt_append)
  moreover have "\<forall>s \<in> set (pd_rx_list e'). unat c \<le> cnt s \<and> cnt s < rx_next e" using d(1,7) l(2) by auto
  ultimately show "pdcp_order (e'\<lparr>pd_rx_deliv := c\<rparr>)"
    using d(2,4,5) rest [of "rx_next e"] assms(1) by (simp add: pdcp_order_def v)
  show "pdcp_timer (e'\<lparr>pd_rx_deliv := c\<rparr>)"
    using assms(2) rest [of "rx_reord e"] d(4) by (simp add: pdcp_timer_def v)
  show "\<forall>s \<in> set (pd_rx_list e'). unat c < cnt s" "pd_t_current e' = pd_t_current e" "\<exists>d. pd_ev e' = pd_ev e @ d"
    using d by (auto simp: pdcp_vars_def)
qed

lemma pdcp_store_ok:
  assumes ok: "pdcp_ok e" "pd_t_current e \<noteq> 0" and s: "\<not> psdu_count s < pd_rx_deliv e" "psdu_count s \<notin> psdu_count ` set (pd_rx_list e)" "psdu_count s \<noteq> -1"
  shows "pdcp_ok (pdcp_store e s n)" "\<exists>d. pd_ev (pdcp_store e s n) = pd_ev e @ d"
proof -
  define e1 where "e1 = (let e = e\<lparr>pd_rx_list := nr_pdcp_sdu_list_add (pd_rx_list e) s, pd_rx_size := pd_rx_size e + n\<rparr>
      in if psdu_count s \<ge> pd_rx_next e then e\<lparr>pd_rx_next := psdu_count s + 1\<rparr> else e)"
  have le: "rx_deliv e \<le> cnt s" using s(1) by (simp add: word_less_nat_alt)
  note i = pdcp_inserted [where e = e and s = s and n = n and ?e1.0 = e1, OF ok(1) le s(2,3) e1_def]
  define e2 where "e2 = (if psdu_count s = pd_rx_deliv e1
      then let (e, c) = deliver_consecutive (pd_rx_list e1) (pd_rx_deliv e1) e1 in e\<lparr>pd_rx_deliv := c\<rparr> else e1)"
  have store: "pdcp_store e s n = pdcp_update_t_reordering e2" by (simp add: pdcp_store_def e2_def e1_def Let_def)
  have "pdcp_order e2 \<and> pdcp_timer e2 \<and> (\<forall>t \<in> set (pd_rx_list e2). rx_deliv e2 < cnt t) \<and> pd_t_current e2 \<noteq> 0 \<and> (\<exists>d. pd_ev e2 = pd_ev e @ d)"
  proof (cases "psdu_count s = pd_rx_deliv e1")
    case True
    obtain e' c where d: "deliver_consecutive (pd_rx_list e1) (pd_rx_deliv e1) e1 = (e', c)" by fastforce
    show ?thesis using pdcp_delivered [OF i(1,2) d] i(5,6) ok(2) True d by (simp add: e2_def)
  next
    case False
    then have "cnt s \<noteq> rx_deliv e1" by (simp add: word_unat_eq_iff)
    then show ?thesis using i le ok(2) False by (auto simp: e2_def)
  qed
  then show "pdcp_ok (pdcp_store e s n)" "\<exists>d. pd_ev (pdcp_store e s n) = pd_ev e @ d"
    unfolding store using update_t_reordering_ok [of e2] by (auto simp: pdcp_update_t_reordering_def Let_def)
qed

lemma deliver_consecutive_set:
  "deliver_consecutive l c e = (e', c') \<Longrightarrow> set (pd_rx_list e') \<union> set (pd_ev e') = set l \<union> set (pd_ev e)"
  by (induction l c e rule: deliver_consecutive.induct) (auto split: if_splits)

lemma pdcp_store_set:
  "s \<in> set (pd_rx_list (pdcp_store e s n)) \<union> set (pd_ev (pdcp_store e s n))"
proof -
  have u: "pd_rx_list (pdcp_update_t_reordering e) = pd_rx_list e" "pd_ev (pdcp_update_t_reordering e) = pd_ev e" for e
    by (auto simp: pdcp_update_t_reordering_def Let_def)
  have "s \<in> set (nr_pdcp_sdu_list_add l s)" for l by (simp add: nr_pdcp_sdu_list_add_def)
  then show ?thesis
    unfolding pdcp_store_def Let_def u by (auto split: prod.splits dest!: deliver_consecutive_set)
qed

definition pdcp_view where
  "pdcp_view e = (pdcp_vars e, pd_rx_list e, pd_ev e)"

lemma pdcp_ok_cong: "pdcp_view e' = pdcp_view e \<Longrightarrow> pdcp_ok e' \<longleftrightarrow> pdcp_ok e"
  by (simp add: pdcp_view_def pdcp_vars_def pdcp_ok_def pdcp_order_def pdcp_timer_def)

lemma pdcp_view_frame [simp]:
  "pdcp_view (pd_stats_update f e) = pdcp_view e" "pdcp_view (pdcp_discard e sz) = pdcp_view e"
  by (simp_all add: pdcp_view_def pdcp_vars_def pdcp_discard_def)

lemma new_sdu_count: "nr_pdcp_new_sdu c b h n mi = Some s \<Longrightarrow> psdu_count s = c"
  by (auto simp: nr_pdcp_new_sdu_def bind_Some_iff)

lemma recv_pdu_cases:
  assumes "nr_pdcp_entity_recv_pdu A e buffer sz = Some e'"
  obtains "pdcp_view e' = pdcp_view e"
  | e1 s n where "pdcp_view e1 = pdcp_view e" "e' = pdcp_store e1 s n" "\<not> psdu_count s < pd_rx_deliv e1"
      "psdu_count s \<notin> psdu_count ` set (pd_rx_list e1)"
proof (cases "pd_entity_suspended e \<or> sz < 1")
  case True
  then have "e' = e" using assms unfolding nr_pdcp_entity_recv_pdu_def by (cases "pd_entity_suspended e") simp_all
  then show ?thesis using that(1) by simp
next
  case False
  have if_dest: "\<And>P x y (r :: pdcp). (if P then Some x else y) = Some r \<Longrightarrow> r = x \<or> (\<not> P \<and> y = Some r)" by (auto split: if_splits)
  from False have sz: "pd_entity_suspended e = False" "(sz < 1) = False" by auto
  from assms [unfolded nr_pdcp_entity_recv_pdu_def Let_def sz if_False]
  show ?thesis
    apply (clarsimp simp only: bind_Some_iff split_paired_Ex prod.case)
    apply (drule if_dest, erule disjE, rule that(1), simp, erule conjE)
    apply (clarsimp simp only: bind_Some_iff)
    apply (drule if_dest, erule disjE, rule that(1), simp, erule conjE)
    apply (drule if_dest, erule disjE, rule that(1), simp, erule conjE)
    apply (clarsimp simp only: bind_Some_iff option.inject)
    apply (erule notE, rule that(2))
       prefer 2
       apply assumption
      apply (simp only: pdcp_view_frame)
     apply (simp only: new_sdu_count de_Morgan_disj not_False_eq_True)
    apply (simp only: new_sdu_count de_Morgan_disj in_list not_False_eq_True)
    done
qed

lemma recv_pdu_ok:
  assumes ok: "pdcp_ok e" "pd_t_current e \<noteq> 0" and run: "nr_pdcp_entity_recv_pdu A e buffer sz = Some e'"
    and fresh: "\<forall>s \<in> set (pd_rx_list e') \<union> set (pd_ev e'). psdu_count s \<noteq> -1"
  shows "pdcp_ok e'"
  using run
proof (cases rule: recv_pdu_cases)
  case 1
  then show ?thesis using ok(1) pdcp_ok_cong by blast
next
  case (2 e1 s n)
  have "psdu_count s \<noteq> -1" using fresh pdcp_store_set [of s e1 n] 2(2) by blast
  moreover have "pdcp_ok e1" "pd_t_current e1 \<noteq> 0" using ok pdcp_ok_cong [OF 2(1)] 2(1) by (simp_all add: pdcp_view_def pdcp_vars_def)
  ultimately show ?thesis using pdcp_store_ok(1) 2 by blast
qed

section \<open>Time\<close>

lemma pdcp_expired:
  assumes ok: "pdcp_ok e" and st: "pd_t_reordering_start e \<noteq> 0" and now: "pd_t_current e \<noteq> 0"
  defines "e1 \<equiv> deliver_below (pd_rx_list e) (e\<lparr>pd_t_reordering_start := 0\<rparr>)"
  assumes c: "deliver_consecutive (pd_rx_list e1) (pd_rx_reord e1) e1 = (e2, c)"
  defines "e3 \<equiv> e2\<lparr>pd_rx_deliv := c\<rparr>"
  shows "pdcp_order e3" "\<forall>s \<in> set (pd_rx_list e3). rx_deliv e3 < cnt s" "rx_reord e \<le> rx_deliv e3"
    "\<exists>d. d \<noteq> [] \<and> pd_ev e3 = pd_ev e @ d \<and> (\<forall>s \<in> set (pd_rx_list e). cnt s < rx_reord e \<longrightarrow> s \<in> set d)"
    "pd_t_reordering_start e3 = 0" "pd_t_current e3 = pd_t_current e"
    "set (pd_rx_list e) \<subseteq> set (pd_rx_list e3) \<union> set (pd_ev e3)" "pd_t_reordering e3 = pd_t_reordering e"
proof -
  have o: "counts_sorted (pd_rx_list e)" "\<forall>s \<in> set (pd_rx_list e). rx_deliv e < cnt s \<and> cnt s < rx_next e" "counts_sorted (pd_ev e)"
    "\<forall>s \<in> set (pd_ev e). cnt s < rx_deliv e" and t: "rx_deliv e < rx_reord e" "rx_reord e \<le> rx_next e"
      "\<exists>s \<in> set (pd_rx_list e). Suc (cnt s) = rx_reord e"
      "rx_deliv e < rx_next e \<longrightarrow> (\<exists>s \<in> set (pd_rx_list e). Suc (cnt s) = rx_next e)"
    using ok st by (auto simp: pdcp_ok_def pdcp_order_def pdcp_timer_def)
  obtain d1 where d1: "pd_rx_list e = d1 @ pd_rx_list e1" "pd_ev e1 = pd_ev e @ d1" "pdcp_vars e1 = pdcp_vars (e\<lparr>pd_t_reordering_start := 0\<rparr>)"
      "\<forall>s \<in> set d1. cnt s < rx_reord e" "\<forall>s \<in> set (pd_rx_list e1). rx_reord e \<le> cnt s"
    using deliver_below [OF o(1), of "e\<lparr>pd_t_reordering_start := 0\<rparr>"] by (auto simp: e1_def)
  have v1: "pd_rx_reord e1 = pd_rx_reord e" "pd_rx_next e1 = pd_rx_next e" using d1(3) by (simp_all add: pdcp_vars_def)
  have "counts_sorted (pd_rx_list e1)" "\<forall>s \<in> set (pd_rx_list e1). unat (pd_rx_reord e1) \<le> cnt s \<and> cnt s < rx_next e"
    using o(1,2) d1(1,5) v1 by (auto simp: counts_sorted_def sorted_wrt_append)
  then obtain d2 where d2: "pd_rx_list e1 = d2 @ pd_rx_list e2" "pd_ev e2 = pd_ev e1 @ d2" "pdcp_vars e2 = pdcp_vars e1" "rx_reord e \<le> unat c"
      "unat c \<le> rx_next e" "\<forall>s \<in> set d2. cnt s < unat c" "\<forall>s \<in> set (pd_rx_list e2). unat c < cnt s"
    using deliver_consecutive [OF _ _ _ unat_u32 c, of "pd_rx_next e"] t(2) v1 by auto
  let ?d = "d1 @ d2"
  have l: "pd_rx_list e = ?d @ pd_rx_list e2" "pd_ev e2 = pd_ev e @ ?d" using d1(1,2) d2(1,2) by simp_all
  have low: "\<And>s. s \<in> set ?d \<Longrightarrow> cnt s < unat c" using d1(4) d2(4,6) by fastforce
  have v2: "pd_rx_next e2 = pd_rx_next e" "pd_t_reordering_start e2 = 0" "pd_t_current e2 = pd_t_current e" "pd_t_reordering e2 = pd_t_reordering e"
    using d1(3) d2(3) by (simp_all add: pdcp_vars_def)
  have "cnt x < cnt y" if "x \<in> set (pd_ev e)" "y \<in> set ?d" for x y
  proof -
    have "cnt x < rx_deliv e" "rx_deliv e < cnt y" using o(2,4) that l(1) by auto
    then show ?thesis by simp
  qed
  then have ev: "counts_sorted (pd_ev e2)" using o(1,3) l by (auto simp: counts_sorted_def sorted_wrt_append)
  have "cnt s < unat c" if "s \<in> set (pd_ev e2)" for s
  proof (cases "s \<in> set ?d")
    case False
    then have "cnt s < rx_deliv e" using that l(2) o(4) by auto
    then show ?thesis using t(1) d2(4) by simp
  qed (rule low)
  moreover have "\<exists>s \<in> set (pd_rx_list e2). Suc (cnt s) = rx_next e" if "unat c < rx_next e"
  proof -
    obtain s where s: "s \<in> set (pd_rx_list e)" "Suc (cnt s) = rx_next e" using t that d2(4) by auto
    then have "s \<notin> set ?d" using low [of s] that by auto
    then show ?thesis using s l(1) by auto
  qed
  moreover have "counts_sorted (pd_rx_list e2)" using o(1) l(1) by (simp add: counts_sorted_def sorted_wrt_append)
  moreover have "\<forall>s \<in> set (pd_rx_list e2). unat c \<le> cnt s \<and> cnt s < rx_next e" using d2(7) o(2) l(1) by auto
  ultimately show "pdcp_order e3" using ev d2(5) by (simp add: pdcp_order_def e3_def v2)
  show "\<forall>s \<in> set (pd_rx_list e3). rx_deliv e3 < cnt s" "rx_reord e \<le> rx_deliv e3" using d2(4,7) by (simp_all add: e3_def)
  obtain s where s: "s \<in> set (pd_rx_list e)" "Suc (cnt s) = rx_reord e" using t(3) by blast
  have out: "s \<in> set d1" if "s \<in> set (pd_rx_list e)" "cnt s < rx_reord e" for s using that d1(1,5) by fastforce
  then have "?d \<noteq> []" using s by fastforce
  then show "\<exists>d. d \<noteq> [] \<and> pd_ev e3 = pd_ev e @ d \<and> (\<forall>s \<in> set (pd_rx_list e). cnt s < rx_reord e \<longrightarrow> s \<in> set d)"
    using l(2) out by (intro exI [of _ ?d]) (auto simp: e3_def)
  show "pd_t_reordering_start e3 = 0" "pd_t_current e3 = pd_t_current e" "pd_t_reordering e3 = pd_t_reordering e" by (simp_all add: e3_def v2)
  show "set (pd_rx_list e) \<subseteq> set (pd_rx_list e3) \<union> set (pd_ev e3)" using l by (auto simp: e3_def)
qed

text \<open>An expiry: either the buffer is empty afterwards, or the timer runs again for everything in it.\<close>

definition t_reordering_expired :: "pdcp \<Rightarrow> u64 \<Rightarrow> bool" where
  "t_reordering_expired e now \<longleftrightarrow> pd_t_reordering e \<noteq> -1 \<and> pd_t_reordering_start e \<noteq> 0 \<and>
     pd_t_reordering_start e + of_int (pd_t_reordering e) < now"

lemma set_time_expired:
  assumes ok: "pdcp_ok e" and x: "t_reordering_expired e now"
  shows "pdcp_ok (nr_pdcp_entity_set_time e now)" "rx_reord e \<le> rx_deliv (nr_pdcp_entity_set_time e now)"
    "\<exists>d. d \<noteq> [] \<and> pd_ev (nr_pdcp_entity_set_time e now) = pd_ev e @ d \<and> (\<forall>s \<in> set (pd_rx_list e). cnt s < rx_reord e \<longrightarrow> s \<in> set d)"
    "set (pd_rx_list e) \<subseteq> set (pd_rx_list (nr_pdcp_entity_set_time e now)) \<union> set (pd_ev (nr_pdcp_entity_set_time e now))"
    "pd_rx_list (nr_pdcp_entity_set_time e now) \<noteq> [] \<Longrightarrow> pd_rx_reord (nr_pdcp_entity_set_time e now) = pd_rx_next (nr_pdcp_entity_set_time e now) \<and>
       pd_t_reordering_start (nr_pdcp_entity_set_time e now) = now \<and> pd_t_reordering (nr_pdcp_entity_set_time e now) = pd_t_reordering e"
proof -
  define e0 where "e0 = e\<lparr>pd_t_current := now\<rparr>"
  have ok0: "pdcp_ok e0" using ok by (simp add: e0_def pdcp_ok_def pdcp_order_def pdcp_timer_def)
  have st: "pd_t_reordering_start e0 \<noteq> 0" and now: "pd_t_current e0 \<noteq> 0" using x by (auto simp: e0_def t_reordering_expired_def)
  define e1 where "e1 = deliver_below (pd_rx_list e0) (e0\<lparr>pd_t_reordering_start := 0\<rparr>)"
  obtain e2 c where c: "deliver_consecutive (pd_rx_list e1) (pd_rx_reord e1) e1 = (e2, c)" by fastforce
  define e3 where "e3 = e2\<lparr>pd_rx_deliv := c\<rparr>"
  note x3 = pdcp_expired [OF ok0 st now, folded e1_def, OF c, folded e3_def]
  let ?e = "nr_pdcp_entity_set_time e now"
  have r: "?e = (if pd_rx_deliv e3 < pd_rx_next e3 then e3\<lparr>pd_rx_reord := pd_rx_next e3, pd_t_reordering_start := pd_t_current e3\<rparr> else e3)"
    using x c unfolding nr_pdcp_entity_set_time_def check_t_reordering_def e0_def [symmetric] Let_def
    by (auto simp: t_reordering_expired_def e0_def e1_def e3_def)
  have below: "rx_deliv e3 < rx_next e3" if "pd_rx_list e3 \<noteq> []"
    using that x3(1,2) by (cases "pd_rx_list e3") (auto simp: pdcp_order_def)
  show "pdcp_ok ?e"
    using x3(1,2,5,6) now below unfolding r by (auto simp: pdcp_ok_def pdcp_order_def pdcp_timer_def word_less_nat_alt)
  show "rx_reord e \<le> rx_deliv ?e"
    "\<exists>d. d \<noteq> [] \<and> pd_ev ?e = pd_ev e @ d \<and> (\<forall>s \<in> set (pd_rx_list e). cnt s < rx_reord e \<longrightarrow> s \<in> set d)"
    using x3(3,4) unfolding r by (simp_all add: e0_def)
  show "set (pd_rx_list e) \<subseteq> set (pd_rx_list ?e) \<union> set (pd_ev ?e)"
    using x3(7) unfolding r by (auto simp: e0_def)
  show "pd_rx_reord ?e = pd_rx_next ?e \<and> pd_t_reordering_start ?e = now \<and> pd_t_reordering ?e = pd_t_reordering e" if "pd_rx_list ?e \<noteq> []"
    using that below x3(6,8) unfolding r by (auto simp: e0_def word_less_nat_alt)
qed

lemma set_time_ok: "pdcp_ok e \<Longrightarrow> pdcp_ok (nr_pdcp_entity_set_time e now)"
proof (cases "t_reordering_expired e now")
  case False
  assume "pdcp_ok e"
  moreover have "nr_pdcp_entity_set_time e now = e\<lparr>pd_t_current := now\<rparr>"
    using False by (auto simp: t_reordering_expired_def nr_pdcp_entity_set_time_def check_t_reordering_def)
  ultimately show ?thesis by (simp add: pdcp_ok_def pdcp_order_def pdcp_timer_def)
qed (rule set_time_expired(1))

section \<open>The life of an entity\<close>

lemma set_security_view: "nr_pdcp_entity_set_security e p = Some e' \<Longrightarrow> pdcp_view e' = pdcp_view e"
  by (auto simp: nr_pdcp_entity_set_security_def pdcp_set_integrity_def pdcp_set_ciphering_def bind_Some_iff Let_def
      pdcp_view_def pdcp_vars_def split: if_splits)

lemma process_sdu_view:
  assumes "nr_pdcp_entity_process_sdu A e buffer sz sdu_id b m = Some (e', b', n)"
  shows "pdcp_view e' = pdcp_view e"
proof (cases "pd_entity_suspended e")
  case True
  then show ?thesis using assms by (simp add: nr_pdcp_entity_process_sdu_def bind_Some_iff)
next
  case False
  then have f: "pd_entity_suspended e = False" by simp
  have tx: "pdcp_view (pd_tx_next_update g x) = pdcp_view x" for g x by (simp add: pdcp_view_def pdcp_vars_def)
  from assms [unfolded nr_pdcp_entity_process_sdu_def f if_False Let_def] show ?thesis
    by (clarsimp simp only: bind_Some_iff split_paired_Ex prod.case option.inject prod.inject pdcp_view_frame tx)
qed

lemma new_entity_ok:
  "new_nr_pdcp_entity type is_gnb rb_id pdusession_id has_sdap_rx has_sdap_tx sn_size t_reordering discard_timer p = Some e \<Longrightarrow> pdcp_ok e"
  unfolding new_nr_pdcp_entity_def
  by (drule set_security_view, drule pdcp_ok_cong) (simp add: pdcp_ok_def pdcp_order_def pdcp_timer_def counts_sorted_def)

text \<open>
  The operations between the creation of an entity and its suspension or re-establishment, after the clock has been
  set.  No COUNT is used up: the key has to be changed before that.
\<close>

inductive pdcp_run :: "pdcp_algos \<Rightarrow> pdcp \<Rightarrow> bool" for A :: pdcp_algos where
  start: "new_nr_pdcp_entity type is_gnb rb_id pdusession_id has_sdap_rx has_sdap_tx sn_size t_reordering discard_timer p = Some e \<Longrightarrow>
    pdcp_run A e"
| recv_pdu: "pdcp_run A e \<Longrightarrow> pd_t_current e \<noteq> 0 \<Longrightarrow> nr_pdcp_entity_recv_pdu A e buffer sz = Some e' \<Longrightarrow>
    \<forall>s \<in> set (pd_rx_list e') \<union> set (pd_ev e'). psdu_count s \<noteq> -1 \<Longrightarrow> pdcp_run A e'"
| process_sdu: "pdcp_run A e \<Longrightarrow> nr_pdcp_entity_process_sdu A e buffer sz sdu_id b m = Some (e', b', n) \<Longrightarrow> pdcp_run A e'"
| set_security: "pdcp_run A e \<Longrightarrow> nr_pdcp_entity_set_security e p = Some e' \<Longrightarrow> pdcp_run A e'"
| set_time: "pdcp_run A e \<Longrightarrow> pdcp_run A (nr_pdcp_entity_set_time e now)"

lemma pdcp_run_ok: "pdcp_run A e \<Longrightarrow> pdcp_ok e"
proof (induction rule: pdcp_run.induct)
  case (recv_pdu e buffer sz e')
  then show ?case using recv_pdu_ok by blast
qed (blast intro: new_entity_ok set_time_ok dest: process_sdu_view set_security_view pdcp_ok_cong)+

lemma no_wait_beyond_timer:
  assumes ok: "pdcp_ok e" and x: "t_reordering_expired e now1" "pd_t_reordering_start e + of_int (pd_t_reordering e) < now1"
      "now1 + of_int (pd_t_reordering e) < now2"
  shows "set (pd_rx_list e) \<subseteq> set (pd_ev (nr_pdcp_entity_set_time (nr_pdcp_entity_set_time e now1) now2))"
proof -
  let ?e1 = "nr_pdcp_entity_set_time e now1" and ?e2 = "nr_pdcp_entity_set_time (nr_pdcp_entity_set_time e now1) now2"
  note x1 = set_time_expired [OF ok x(1)]
  have "set (pd_ev ?e1) \<union> set (pd_rx_list ?e1) \<subseteq> set (pd_ev ?e2)"
  proof (cases "pd_rx_list ?e1 = []")
    case True
    then show ?thesis
      by (auto simp: nr_pdcp_entity_set_time_def [of ?e1] check_t_reordering_def [of "?e1\<lparr>pd_t_current := now2\<rparr>"] Let_def split: prod.splits)
  next
    case False
    note t = x1(5) [OF False]
    have "now1 \<noteq> 0" using x(2) by auto
    then have "t_reordering_expired ?e1 now2" using t x(1,3) by (simp add: t_reordering_expired_def)
    note x2 = set_time_expired [OF x1(1) this]
    moreover have "\<forall>s \<in> set (pd_rx_list ?e1). cnt s < rx_reord ?e1" using x1(1) t by (simp add: pdcp_ok_def pdcp_order_def)
    ultimately show ?thesis by fastforce
  qed
  then show ?thesis using x1(4) by blast
qed

section \<open>Properties\<close>



section \<open>Witnesses\<close>

definition demo_algos :: pdcp_algos where
  "demo_algos = \<lparr>alg_eea1 = (\<lambda>key count bearer direction msg. map (\<lambda>b. b XOR 0x5a) msg),
     alg_aes_ctr = (\<lambda>key count bearer direction msg. map (\<lambda>b. b XOR 0xa5) msg),
     alg_eia1 = (\<lambda>key count bearer direction msg. [1, 2, 3, 4]), alg_aes_cmac = (\<lambda>key count bearer direction msg. [5, 6, 7, 8])\<rparr>"

text \<open>A new bearer with 12-bit SNs and no security, and what it becomes after PDUs with the given SNs, one byte each.\<close>

definition demo_new :: pdcp where
  "demo_new = the (new_nr_pdcp_entity NR_PDCP_DRB_UM True 1 10 False False 12 100 (-1)
     \<lparr>integrity_algorithm = 0, ciphering_algorithm = 0, integrity_key = [], ciphering_key = []\<rparr>)"

definition demo_recv :: "pdcp \<Rightarrow> byte \<Rightarrow> pdcp" where
  "demo_recv e sn = the (nr_pdcp_entity_recv_pdu demo_algos e [0x80, sn, 0xcc] 3)"

definition demo_1 :: pdcp where
  "demo_1 = demo_recv (nr_pdcp_entity_set_time demo_new 1) 2"

definition demo_2 :: pdcp where
  "demo_2 = demo_recv demo_1 0"

lemma demo_run: "pdcp_run demo_algos demo_1" "pdcp_run demo_algos demo_2"
proof -
  have n: "pdcp_run demo_algos demo_new"
    by (rule pdcp_run.start [of NR_PDCP_DRB_UM True 1 10 False False 12 100 "-1"
      "\<lparr>integrity_algorithm = 0, ciphering_algorithm = 0, integrity_key = [], ciphering_key = []\<rparr>"]) code_simp
  have 1: "nr_pdcp_entity_recv_pdu demo_algos (nr_pdcp_entity_set_time demo_new 1) [0x80, 2, 0xcc] 3 = Some demo_1" by code_simp
  have "pd_t_current (nr_pdcp_entity_set_time demo_new 1) \<noteq> 0" by code_simp
  moreover have "\<forall>s \<in> set (pd_rx_list demo_1) \<union> set (pd_ev demo_1). psdu_count s \<noteq> -1" by code_simp
  ultimately show r1: "pdcp_run demo_algos demo_1" using pdcp_run.recv_pdu [OF pdcp_run.set_time [OF n] _ 1] by blast
  have 2: "nr_pdcp_entity_recv_pdu demo_algos demo_1 [0x80, 0, 0xcc] 3 = Some demo_2" by code_simp
  have "pd_t_current demo_1 \<noteq> 0" by code_simp
  moreover have "\<forall>s \<in> set (pd_rx_list demo_2) \<union> set (pd_ev demo_2). psdu_count s \<noteq> -1" by code_simp
  ultimately show "pdcp_run demo_algos demo_2" using pdcp_run.recv_pdu [OF r1 _ 2] by blast
qed



end
