(* ===== verification/SNOW3G.thy ===== *)
theory SNOW3G
  imports SNOW3G_Tables
begin

text \<open>
  \<open>openair3/SECU/snow3g.c\<close>: the stream cipher SNOW 3G, and with it the confidentiality algorithm 128-NEA1 and the integrity
  algorithm 128-NIA1. The local arrays of the C code are lists of their sizes; what they hold before they are written is
  an argument, so that the results are seen not to depend on it. The key and the message are read with a check of the bounds.
\<close>

section \<open>The state and its two S-boxes\<close>

record snow3g_t =
  s_mem :: "u32 list"
  s_pos :: nat
  s_r1 :: u32
  s_r2 :: u32
  s_r3 :: u32

text \<open>\<open>s->s[i]\<close>: the pointer \<open>s->s\<close> is the position \<open>s_pos\<close> in the array \<open>s->_s\<close> of 32 words.\<close>

definition s_at :: "snow3g_t \<Rightarrow> nat \<Rightarrow> u32" where
  "s_at s i = s_mem s ! (s_pos s + i)"

definition s1 :: "u32 \<Rightarrow> u32" where
  "s1 w =
     (let w0 = unat (drop_bit 24 w AND 0xff);
          w1 = unat (drop_bit 16 w AND 0xff);
          w2 = unat (drop_bit 8 w AND 0xff);
          w3 = unat (w AND 0xff)
      in s1_t0 ! w3 XOR s1_t1 ! w2 XOR s1_t2 ! w1 XOR s1_t3 ! w0)"

definition s2 :: "u32 \<Rightarrow> u32" where
  "s2 w =
     (let w0 = unat (drop_bit 24 w AND 0xff);
          w1 = unat (drop_bit 16 w AND 0xff);
          w2 = unat (drop_bit 8 w AND 0xff);
          w3 = unat (w AND 0xff)
      in s2_t0 ! w3 XOR s2_t1 ! w2 XOR s2_t2 ! w1 XOR s2_t3 ! w0)"

definition MULa :: "u32 \<Rightarrow> u32" where
  "MULa c = mula ! unat c"

definition DIVa :: "u32 \<Rightarrow> u32" where
  "DIVa c = diva ! unat c"

section \<open>One clock\<close>

text \<open>The value that enters the register, and its entry: it is written twice, and the pointer moves instead of the words.\<close>

definition lfsr_feedback :: "snow3g_t \<Rightarrow> u32" where
  "lfsr_feedback s =
     (let s0_0 = drop_bit 24 (s_at s 0) AND 0xff;
          s0_1 = drop_bit 16 (s_at s 0) AND 0xff;
          s0_2 = drop_bit 8 (s_at s 0) AND 0xff;
          s0_3 = s_at s 0 AND 0xff;
          s11_0 = drop_bit 24 (s_at s 11) AND 0xff;
          s11_1 = drop_bit 16 (s_at s 11) AND 0xff;
          s11_2 = drop_bit 8 (s_at s 11) AND 0xff;
          s11_3 = s_at s 11 AND 0xff;
          v0 = push_bit 24 s0_1 OR push_bit 16 s0_2 OR push_bit 8 s0_3;
          v11 = push_bit 16 s11_0 OR push_bit 8 s11_1 OR s11_2
      in v0 XOR MULa s0_0 XOR s_at s 2 XOR v11 XOR DIVa s11_3)"

definition lfsr_shift :: "snow3g_t \<Rightarrow> u32 \<Rightarrow> snow3g_t" where
  "lfsr_shift s v =
     (let s = s\<lparr>s_mem := (s_mem s)[s_pos s := v, s_pos s + 16 := v]\<rparr>;
          s = s\<lparr>s_pos := s_pos s + 1\<rparr>
      in if s_pos s = 16 then s\<lparr>s_pos := 0\<rparr> else s)"

definition lfsr_init :: "snow3g_t \<Rightarrow> u32 \<Rightarrow> snow3g_t" where
  "lfsr_init s f = lfsr_shift s (lfsr_feedback s XOR f)"

definition lfsr_keystream :: "snow3g_t \<Rightarrow> snow3g_t" where
  "lfsr_keystream s = lfsr_shift s (lfsr_feedback s)"

definition clock_fsm :: "snow3g_t \<Rightarrow> u32 \<times> snow3g_t" where
  "clock_fsm s =
     (let f = (s_at s 15 + s_r1 s) XOR s_r2 s;
          r = s_r2 s + (s_r3 s XOR s_at s 5)
      in (f, s\<lparr>s_r1 := r, s_r2 := s1 (s_r1 s), s_r3 := s2 (s_r2 s)\<rparr>))"

section \<open>Initialisation and keystream\<close>

definition GET32 :: "byte list \<Rightarrow> nat \<Rightarrow> u32" where
  "GET32 b off = push_bit 24 (ucast (b ! off)) OR push_bit 16 (ucast (b ! (off + 1))) OR
     push_bit 8 (ucast (b ! (off + 2))) OR ucast (b ! (off + 3))"

definition snow3g_init_round :: "snow3g_t \<Rightarrow> snow3g_t" where
  "snow3g_init_round s = (let (f, s) = clock_fsm s in lfsr_init s f)"

definition snow3g_init :: "snow3g_t \<Rightarrow> byte list \<Rightarrow> byte list \<Rightarrow> snow3g_t" where
  "snow3g_init s kb ivb =
     (let k = map (\<lambda>i. GET32 kb (i * 4)) [0, 1, 2, 3];
          iv = map (\<lambda>i. GET32 ivb (i * 4)) [0, 1, 2, 3];
          s = s\<lparr>s_pos := 0,
                s_mem := (s_mem s)
                  [15 := k ! 3 XOR iv ! 0,
                   14 := k ! 2,
                   13 := k ! 1,
                   12 := k ! 0 XOR iv ! 1,
                   11 := k ! 3 XOR 0xffffffff,
                   10 := k ! 2 XOR 0xffffffff XOR iv ! 2,
                   9 := k ! 1 XOR 0xffffffff XOR iv ! 3,
                   8 := k ! 0 XOR 0xffffffff,
                   7 := k ! 3,
                   6 := k ! 2,
                   5 := k ! 1,
                   4 := k ! 0,
                   3 := k ! 3 XOR 0xffffffff,
                   2 := k ! 2 XOR 0xffffffff,
                   1 := k ! 1 XOR 0xffffffff,
                   0 := k ! 0 XOR 0xffffffff],
                s_r1 := 0, s_r2 := 0, s_r3 := 0\<rparr>;
          s = (snow3g_init_round ^^ 32) s;
          (_, s) = clock_fsm s
      in lfsr_keystream s)"

definition generate_keystream_step :: "snow3g_t \<Rightarrow> u32 \<times> snow3g_t" where
  "generate_keystream_step s =
     (let (f, s) = clock_fsm s;
          ret = f XOR s_at s 0
      in (ret, lfsr_keystream s))"

primrec keystream_words :: "nat \<Rightarrow> snow3g_t \<Rightarrow> u32 list" where
  "keystream_words 0 s = []"
| "keystream_words (Suc n) s = (let (z, s) = generate_keystream_step s in z # keystream_words n s)"

section \<open>128-NEA1\<close>

text \<open>The words of the key in the reverse order.\<close>

definition snow3g_key :: "byte list \<Rightarrow> byte list option" where
  "snow3g_key key = do {
     key \<leftarrow> mem_slice key 0 16;
     Some [key ! 12, key ! 13, key ! 14, key ! 15, key ! 8, key ! 9, key ! 10, key ! 11,
           key ! 4, key ! 5, key ! 6, key ! 7, key ! 0, key ! 1, key ! 2, key ! 3]
   }"

text \<open>The bytes of a word as \<open>htonl\<close> leaves them in memory.\<close>

definition be_bytes :: "u32 \<Rightarrow> byte list" where
  "be_bytes w = [ucast (drop_bit 24 w), ucast (drop_bit 16 w), ucast (drop_bit 8 w), ucast w]"

definition nea1_iv :: "u32 \<Rightarrow> int \<Rightarrow> int \<Rightarrow> byte list" where
  "nea1_iv cnt bearer direction =
     (let c = [ucast (drop_bit 24 cnt AND 0xff), ucast (drop_bit 16 cnt AND 0xff), ucast (drop_bit 8 cnt AND 0xff), ucast (cnt AND 0xff)];
          b = of_int (push_bit 3 bearer OR push_bit 2 direction)
      in [b, 0, 0, 0] @ c @ [b, 0, 0, 0] @ c)"

definition snow3g_ciphering :: "snow3g_t \<Rightarrow> u32 \<Rightarrow> int \<Rightarrow> int \<Rightarrow> byte list \<Rightarrow> int \<Rightarrow> byte list \<Rightarrow> byte list option" where
  "snow3g_ciphering s cnt bearer direction key len inp = do {
     k \<leftarrow> snow3g_key key;
     let s = snow3g_init s k (nea1_iv cnt bearer direction);
     inp \<leftarrow> mem_slice inp 0 len;
     let keystream = concat (map be_bytes (keystream_words (nat ((len + 3) div 4)) s));
     Some (map2 (\<lambda>i k. i XOR k) inp keystream)
   }"

section \<open>128-NIA1\<close>

definition GET64 :: "byte list \<Rightarrow> int \<Rightarrow> int \<Rightarrow> u64 option" where
  "GET64 p off available_bytes =
     (if 1 \<le> available_bytes \<and> available_bytes \<le> 8
      then do {
        b \<leftarrow> mem_slice p off available_bytes;
        let b = b @ replicate (8 - length b) 0;
        Some (push_bit (32 + 24) (ucast (b ! 0)) OR push_bit (32 + 16) (ucast (b ! 1)) OR push_bit (32 + 8) (ucast (b ! 2)) OR
              push_bit 32 (ucast (b ! 3)) OR push_bit 24 (ucast (b ! 4)) OR push_bit 16 (ucast (b ! 5)) OR
              push_bit 8 (ucast (b ! 6)) OR ucast (b ! 7))
      }
      else Some 0)"

definition MULx64 :: "u64 \<Rightarrow> u64 \<Rightarrow> u64" where
  "MULx64 v c = (if v AND push_bit 63 1 \<noteq> 0 then push_bit 1 v XOR c else push_bit 1 v)"

primrec MULxPOW64 :: "u64 \<Rightarrow> nat \<Rightarrow> u64 \<Rightarrow> u64" where
  "MULxPOW64 v 0 c = v"
| "MULxPOW64 v (Suc i) c = MULx64 (MULxPOW64 v i c) c"

definition MUL64 :: "u64 \<Rightarrow> u64 \<Rightarrow> u64 \<Rightarrow> u64" where
  "MUL64 v p c = fold (\<lambda>i result. if drop_bit i p AND 1 \<noteq> 0 then result XOR MULxPOW64 v i c else result) [0..<64] 0"

type_synonym pm_table = "u64 list list"

definition pm_write :: "pm_table \<Rightarrow> nat \<Rightarrow> nat \<Rightarrow> u64 \<Rightarrow> pm_table" where
  "pm_write pm i j v = pm[i := (pm ! i)[j := v]]"

definition mul_p :: "pm_table \<Rightarrow> u64 \<Rightarrow> u64" where
  "mul_p pm x =
     (let x0 = unat (drop_bit (32 + 24) x AND 255);
          x1 = unat (drop_bit (32 + 16) x AND 255);
          x2 = unat (drop_bit (32 + 8) x AND 255);
          x3 = unat (drop_bit 32 x AND 255);
          x4 = unat (drop_bit 24 x AND 255);
          x5 = unat (drop_bit 16 x AND 255);
          x6 = unat (drop_bit 8 x AND 255);
          x7 = unat (x AND 255)
      in pm ! 0 ! x7 XOR pm ! 1 ! x6 XOR pm ! 2 ! x5 XOR pm ! 3 ! x4 XOR pm ! 4 ! x3 XOR pm ! 5 ! x2 XOR pm ! 6 ! x1 XOR pm ! 7 ! x0)"

text \<open>The precomputation: first the products of \<open>p\<close> with the powers of \<open>x\<close>, then their sums.\<close>

definition pm_powers :: "pm_table \<Rightarrow> u64 \<Rightarrow> pm_table" where
  "pm_powers pm p =
     (let pm = fold (\<lambda>i pm. pm_write pm i 0 0) [0..<8] pm;
          pm = pm_write pm 0 1 p
      in fold (\<lambda>i pm.
           let prev = pm ! ((i - 1) div 8) ! (2 ^ ((i - 1) mod 8));
               pm = pm_write pm (i div 8) (2 ^ (i mod 8)) (push_bit 1 prev)
           in if prev AND 0x8000000000000000 \<noteq> 0
              then pm_write pm (i div 8) (2 ^ (i mod 8)) (pm ! (i div 8) ! (2 ^ (i mod 8)) XOR 0x1b) else pm)
         [1..<64] pm)"

definition pm_sums :: "pm_table \<Rightarrow> pm_table" where
  "pm_sums pm =
     fold (\<lambda>i pm. fold (\<lambda>j pm. fold (\<lambda>k pm. pm_write pm i (2 ^ j + k) (pm ! i ! (2 ^ j) XOR pm ! i ! k)) [1..<2 ^ j] pm) [1..<8] pm) [0..<8] pm"

primrec integrity_blocks :: "pm_table \<Rightarrow> byte list \<Rightarrow> nat \<Rightarrow> int \<Rightarrow> u64 \<Rightarrow> u64 option" where
  "integrity_blocks pm inp 0 i eval = Some eval"
| "integrity_blocks pm inp (Suc n) i eval = do {
     m \<leftarrow> GET64 inp (i * 8) 8;
     integrity_blocks pm inp n (i + 1) (mul_p pm (eval XOR m))
   }"

definition nia1_iv :: "u32 \<Rightarrow> u32 \<Rightarrow> int \<Rightarrow> byte list" where
  "nia1_iv cnt fresh direction =
     (let d = push_bit 7 (of_int direction AND 1) :: byte;
          c0 = ucast (drop_bit 24 cnt AND 0xff); c1 = ucast (drop_bit 16 cnt AND 0xff);
          c2 = ucast (drop_bit 8 cnt AND 0xff); c3 = ucast (cnt AND 0xff);
          f0 = ucast (drop_bit 24 fresh AND 0xff); f1 = ucast (drop_bit 16 fresh AND 0xff);
          f2 = ucast (drop_bit 8 fresh AND 0xff); f3 = ucast (fresh AND 0xff)
      in [f0, f1, f2 XOR d, f3, c0 XOR d, c1, c2, c3, f0, f1, f2, f3, c0, c1, c2, c3])"

text \<open>Division of C: towards zero.\<close>

definition cdiv :: "int \<Rightarrow> int \<Rightarrow> int" where
  "cdiv a b = sgn a * sgn b * (\<bar>a\<bar> div \<bar>b\<bar>)"

definition snow3g_integrity_fresh ::
  "snow3g_t \<Rightarrow> pm_table \<Rightarrow> u32 \<Rightarrow> u32 \<Rightarrow> int \<Rightarrow> byte list \<Rightarrow> int \<Rightarrow> byte list \<Rightarrow> byte list option" where
  "snow3g_integrity_fresh s pm cnt fresh direction key len inp = do {
     k \<leftarrow> snow3g_key key;
     let s = snow3g_init s k (nia1_iv cnt fresh direction);
     let z = keystream_words 5 s;
     let d = cdiv (len * 8 + 63) 64 + 1;
     let p = push_bit 32 (ucast (z ! 0)) OR ucast (z ! 1);
     let q = push_bit 32 (ucast (z ! 2)) OR ucast (z ! 3);
     let otp = z ! 4;
     let pm = pm_sums (pm_powers pm p);
     eval \<leftarrow> integrity_blocks pm inp (nat (d - 2)) 0 0;
     m \<leftarrow> GET64 inp ((d - 2) * 8) (min 8 (len - (d - 2) * 8));
     let eval = mul_p pm (eval XOR m);
     let eval = eval XOR (of_int len * 8);
     let eval = MUL64 eval q 0x1b;
     let eval = drop_bit 32 eval;
     let eval = eval XOR ucast otp;
     Some [ucast (drop_bit 24 eval AND 0xff), ucast (drop_bit 16 eval AND 0xff), ucast (drop_bit 8 eval AND 0xff), ucast (eval AND 0xff)]
   }"

definition snow3g_integrity ::
  "snow3g_t \<Rightarrow> pm_table \<Rightarrow> u32 \<Rightarrow> int \<Rightarrow> int \<Rightarrow> byte list \<Rightarrow> int \<Rightarrow> byte list \<Rightarrow> byte list option" where
  "snow3g_integrity s pm cnt bearer direction key len inp =
     snow3g_integrity_fresh s pm cnt (push_bit 27 (of_int bearer)) direction key len inp"

end
