(* ===== verification/Spec2Isabelle.thy ===== *)
theory Spec2Isabelle
  imports RLC_AM_Guarantees RLC_TM_Queue PDCP_Order SNOW3G
begin

text \<open>
  The user plane of layer 2 of the 5G stack, \<open>src/openair2/LAYER2\<close>: the Radio Link Control entities
  (\<open>nr_rlc\<close>) with all that they use.

  \<^bold>\<open>The program.\<close> An RLC entity stands between PDCP and MAC. PDCP hands it SDUs (\<open>recv_sdu\<close>), MAC asks for PDUs of a
  granted size (\<open>generate_pdu\<close>, \<open>buffer_status\<close>), hands over received PDUs (\<open>recv_pdu\<close>) and advances the time
  (\<open>set_time\<close>). There are three kinds: TM passes SDUs through, UM segments and reassembles, AM also numbers,
  acknowledges and retransmits. The entities share the segment lists (\<open>nr_rlc_sdu.c\<close>), the PDU lists and the bit codec
  (\<open>nr_rlc_pdu.c\<close>), the reception buffer of AM (\<open>nr_rlc_rx_manager.c\<close>) and a sliding-window average
  (\<open>common/utils/time_stat.c\<close>).

  \<^bold>\<open>The model.\<close> A C struct is a record, a function is a HOL function on it that returns the updated record in the
  option monad: \<open>None\<close> means that the call does not return (an assertion or \<open>exit\<close>, an access outside an array, a null
  pointer, an endless loop). Loops that always end are recursive functions with their termination proofs; loops that
  may not end are \<open>partial_function\<close>s, so that \<open>None\<close> is the value of an endless run; there is no fuel. A C \<open>int\<close> is an
  HOL integer (the values that occur are far below its bounds), the statistics and the times are words that
  wrap around, \<open>%\<close> is the truncated remainder. SDUs are shared between segments: they live in an
  explicit store with their reference counts; a segment is a value with its own address. The tail pointers of the lists
  are explicit fields. The callbacks to the upper layers append to an event log; the clock is an argument.

  \<^bold>\<open>The theories.\<close>
  \<^item> \<open>L2_Prelude\<close>: bytes, arrays with bounds, the truncated remainder, distances on a circle of sequence numbers and the
    locale \<open>sn_order\<close> of comparisons relative to a window base.
  \<^item> \<open>Time_Stat\<close>: \<open>time_stat.c\<close>; the reported average is that of exactly the values inside the window.
  \<^item> \<open>RLC_Pdu\<close>: \<open>nr_rlc_pdu.c\<close>, the list of received segments and the bit codec; fields written are read back.
  \<^item> \<open>RLC_Sdu\<close>: \<open>nr_rlc_sdu.c\<close>, the store of SDUs, segments, lists with a tail pointer, and the invariant of
    the reference counts.
  \<^item> \<open>RLC_Rx_Manager\<close>: \<open>nr_rlc_rx_manager.c\<close>, a ring indexed by sequence number behind a locale of windows.
  \<^item> \<open>RLC_Common\<close>: \<open>nr_rlc_entity.h\<close>, what the three kinds of entities share.
  \<^item> \<open>RLC_Segments\<close>: the bytes covered by a sorted list of segments, full SDUs, duplicates.
  \<^item> \<open>RLC_AM\<close>, \<open>RLC_AM_Control\<close>, \<open>RLC_AM_Status\<close>, \<open>RLC_AM_Tx\<close>: \<open>nr_rlc_entity_am.c\<close>, in this order the reception of data
    PDUs, of status PDUs, the generation of status PDUs, and transmission, timers and clearing.
  \<^item> \<open>RLC_UM\<close>, \<open>RLC_TM\<close>: \<open>nr_rlc_entity_um.c\<close>, \<open>nr_rlc_entity_tm.c\<close>. \<open>RLC_Entity\<close>: \<open>nr_rlc_entity.c\<close>, the constructors,
    reconfiguration and statistics.
  \<^item> \<open>RLC_AM_Rx\<close>, \<open>RLC_AM_Delivery\<close>, \<open>RLC_AM_Receive\<close>: the invariant of the AM receiver, that every step of reception
    keeps it, what a run of receptions delivers, and the endless loop of \<open>reception_actions\<close>.
  \<^item> \<open>RLC_AM_Tx_Inv\<close>, \<open>RLC_AM_Generate\<close>, \<open>RLC_AM_Tx_Ops\<close>: the invariant of the AM transmitter (with a multiset of
    segments that are in no list while an operation runs) and the operations that keep it.
  \<^item> \<open>RLC_AM_Ack\<close>, \<open>RLC_AM_Ack_Run\<close>, \<open>RLC_AM_Status_Pdu\<close>: the two passes over a status PDU; what a conformant one does,
    what any bytes can do.
  \<^item> \<open>RLC_AM_Report\<close>: the generation of the status PDU returns, stays in its buffer, and has the announced size.
  \<^item> \<open>RLC_AM_Entity\<close>: reachable AM entities (\<open>am_run\<close>) satisfy both invariants. \<open>RLC_AM_Guarantees\<close>: what follows for the
    layers around, two peers together, and where the code fails.
  \<^item> \<open>RLC_TM_Queue\<close>: the TM entity refines a bounded queue, through the locale \<open>sdu_queue\<close>.

  \<^bold>\<open>Not modelled.\<close> The tables of UEs with their locks and the translation of configurations (\<open>nr_rlc_ue_manager.c\<close>,
  \<open>nr_rlc_oai_api.c\<close>); logging; the release of memory whose content is a value of the model. The rest of
  the repository: the MAC schedulers, RRC and the application protocols work on structures that ASN.1 tools generate
  during the build; the physical layer is signal processing on sample vectors, in large part SIMD intrinsics; radio devices,
  tracing and the executables are input and output.
\<close>

end
